(* ===== verification/Rum_Prelude.thy ===== *)
theory Rum_Prelude
  imports Main "HOL-Library.Word" "HOL-Library.Char_ord"
begin

unbundle bit_operations_syntax

text \<open>
  Shared vocabulary of the development: the machine integer types of the kernel, fixed-size
  byte buffers and the NUL-terminated strings stored in them, and the generic list lemmas
  that several components use.

  A C array is a list whose length is the array's size. \<open>blit\<close> is \<open>memcpy\<close> into a buffer:
  a write that would run past the end makes the list longer, so a proof that an operation
  keeps the length of a buffer is a proof that it never writes outside it.
\<close>

section \<open>Machine integers\<close>

type_synonym u8 = "8 word"
type_synonym u16 = "16 word"
type_synonym u32 = "32 word"
type_synonym u64 = "64 word"

text \<open>The largest values of the C types, as used by the guards of the sources.\<close>

abbreviation (input) UINT32_MAX :: nat where "UINT32_MAX \<equiv> 4294967295"
abbreviation (input) UINT64_MAX :: nat where "UINT64_MAX \<equiv> 18446744073709551615"
abbreviation (input) SIZE_MAX :: nat where "SIZE_MAX \<equiv> 4294967295"

section \<open>Fact collections\<close>

named_theorems buf_simps \<open>rewriting of buffers, strings and list windows\<close>
named_theorems inv_intros \<open>invariant preservation by single updates\<close>

section \<open>Buffers and C strings\<close>

abbreviation (input) NUL :: char where "NUL \<equiv> CHR 0x00"

definition blit :: "'a list \<Rightarrow> nat \<Rightarrow> 'a list \<Rightarrow> 'a list" where
  "blit buf off src = take off buf @ src @ drop (off + length src) buf"

definition cstr :: "string \<Rightarrow> string" where
  "cstr buf = takeWhile (\<lambda>c. c \<noteq> NUL) buf"

lemma length_blit [buf_simps]:
  "off + length src \<le> length buf \<Longrightarrow> length (blit buf off src) = length buf"
  by (simp add: blit_def)

lemma take_blit [buf_simps]:
  "off + length src \<le> length buf \<Longrightarrow> take (off + length src) (blit buf off src) = take off buf @ src"
  by (simp add: blit_def)

lemma take_blit_before [buf_simps]:
  "n \<le> off \<Longrightarrow> off \<le> length buf \<Longrightarrow> take n (blit buf off src) = take n buf"
  by (simp add: blit_def min_absorb1)

lemma drop_blit_after [buf_simps]:
  "off + length src \<le> n \<Longrightarrow> off + length src \<le> length buf \<Longrightarrow>
     drop n (blit buf off src) = drop n buf"
  by (simp add: blit_def)

lemma nth_blit:
  "off + length src \<le> length buf \<Longrightarrow> i < length buf \<Longrightarrow>
     blit buf off src ! i = (if off \<le> i \<and> i < off + length src then src ! (i - off) else buf ! i)"
  by (auto simp: blit_def nth_append min_def)

lemma cstr_append_NUL [buf_simps]: "NUL \<notin> set s \<Longrightarrow> cstr (s @ NUL # rest) = s"
  by (simp add: cstr_def takeWhile_tail)
     (metis takeWhile_append2 takeWhile.simps append_Nil2)

lemma cstr_no_NUL: "NUL \<notin> set (cstr buf)"
  by (auto simp: cstr_def dest: set_takeWhileD)

lemma cstr_eqI: "NUL \<notin> set s \<Longrightarrow> take (Suc (length s)) buf = s @ [NUL] \<Longrightarrow> cstr buf = s"
  by (metis append_take_drop_id append.assoc append_Cons append_Nil cstr_append_NUL)

lemma drop_ConsD: "drop i s = c # cs \<Longrightarrow> i < length s \<and> s ! i = c \<and> drop (Suc i) s = cs"
  by (metis drop_Suc drop_eq_Nil leI list.discI list.sel(3) nth_via_drop tl_drop)

lemma set_takeWhile_eq: "set (takeWhile ((=) c) s) \<subseteq> {c}"
  by (induction s) auto

lemma take_takeD: "take m xs = ys \<Longrightarrow> n \<le> m \<Longrightarrow> take n xs = take n ys"
  by (metis min.absorb1 take_take)

lemma window_subset: "{f..<f + n} \<subseteq> X \<longleftrightarrow> (\<forall>i<n. f + i \<in> X)" for f n :: nat
  by (auto simp: subset_iff) (metis le_Suc_ex nat_add_left_cancel_less)

section \<open>Little-endian memory\<close>

text \<open>Memory is a function from addresses to bytes. Multi-byte fields are little-endian and are
  read as natural numbers.\<close>

type_synonym memory = "nat \<Rightarrow> u8"

fun le_bytes :: "u8 list \<Rightarrow> nat" where
  "le_bytes [] = 0"
| "le_bytes (b # bs) = unat b + 256 * le_bytes bs"

fun bytes_le :: "nat \<Rightarrow> nat \<Rightarrow> u8 list" where
  "bytes_le 0 v = []"
| "bytes_le (Suc n) v = word_of_nat (v mod 256) # bytes_le n (v div 256)"

definition rd :: "memory \<Rightarrow> nat \<Rightarrow> nat \<Rightarrow> nat" where
  "rd mem address n = le_bytes (map mem [address..<address + n])"

lemma unat_u8_less: "unat (b :: u8) < 256"
  using unsigned_less [of b, where ?'a = nat] by simp

lemma le_bytes_less: "le_bytes bs < 256 ^ length bs"
proof (induction bs)
  case (Cons b bs)
  then show ?case using unat_u8_less [of b] by simp
qed simp

lemma rd_less: "rd mem address n < 256 ^ n"
  using le_bytes_less [of "map mem [address..<address + n]"] by (simp add: rd_def)

lemma length_bytes_le [simp]: "length (bytes_le n v) = n"
  by (induction n arbitrary: v) auto

lemma le_bytes_bytes_le: "v < 256 ^ n \<Longrightarrow> le_bytes (bytes_le n v) = v"
proof (induction n arbitrary: v)
  case (Suc n)
  then have "v div 256 < 256 ^ n" by (simp add: less_mult_imp_div_less mult.commute)
  with Suc.IH [of "v div 256"] show ?case by (simp add: unat_of_nat)
qed simp

lemma bytes_le_le_bytes: "bytes_le (length bs) (le_bytes bs) = bs"
proof (induction bs)
  case (Cons b bs)
  have "(unat b + 256 * le_bytes bs) mod 256 = unat b" "(unat b + 256 * le_bytes bs) div 256 = le_bytes bs"
    using unat_u8_less [of b] by auto
  with Cons show ?case by simp
qed simp

text \<open>Writing a block of bytes, and 32-bit accesses.\<close>

definition wr :: "memory \<Rightarrow> nat \<Rightarrow> u8 list \<Rightarrow> memory" where
  "wr mem address bs = (\<lambda>x. if address \<le> x \<and> x < address + length bs then bs ! (x - address) else mem x)"

definition rd32 :: "memory \<Rightarrow> nat \<Rightarrow> u32" where
  "rd32 mem address = word_of_nat (rd mem address 4)"

definition wr32 :: "memory \<Rightarrow> nat \<Rightarrow> u32 \<Rightarrow> memory" where
  "wr32 mem address v = wr mem address (bytes_le 4 (unat v))"

lemma map_wr_same: "map (wr mem a bs) [a..<a + length bs] = bs"
  by (rule nth_equalityI) (auto simp: wr_def)

lemma map_wr_other: "b + n \<le> a \<or> a + length bs \<le> b \<Longrightarrow> map (wr mem a bs) [b..<b + n] = map mem [b..<b + n]"
  by (auto simp: wr_def)

lemma rd32_wr32_same [simp]: "rd32 (wr32 mem a v) a = v"
proof -
  have "unat v < 256 ^ 4" using unsigned_less [of v, where ?'a = nat] by simp
  then have "rd (wr32 mem a v) a 4 = unat v"
    using map_wr_same [of mem a "bytes_le 4 (unat v)"]
    by (simp add: rd_def wr32_def le_bytes_bytes_le)
  then show ?thesis by (simp add: rd32_def)
qed

lemma rd32_wr_other: "b + 4 \<le> a \<or> a + length bs \<le> b \<Longrightarrow> rd32 (wr mem a bs) b = rd32 mem b"
  unfolding rd32_def rd_def by (simp only: map_wr_other)

lemma rd32_wr32_other: "b + 4 \<le> a \<or> a + 4 \<le> b \<Longrightarrow> rd32 (wr32 mem a v) b = rd32 mem b"
  by (simp add: wr32_def rd32_wr_other)

lemma le_bytes_zero: "set bs \<subseteq> {0} \<Longrightarrow> le_bytes bs = 0"
  by (induction bs) auto

lemma rd32_wr_zero:
  assumes "a \<le> b" and "b + 4 \<le> a + n"
  shows "rd32 (wr mem a (replicate n 0)) b = 0"
proof -
  have "set (map (wr mem a (replicate n 0)) [b..<b + 4]) \<subseteq> {0}"
    using assms by (auto simp: wr_def)
  then show ?thesis by (simp add: rd32_def rd_def le_bytes_zero)
qed

section \<open>Bit sets\<close>

text \<open>The interface of a table of bits that are only ever set: what a test returns after a mark.\<close>

locale bit_marks =
  fixes test :: "'b \<Rightarrow> nat \<Rightarrow> bool" and put1 :: "'b \<Rightarrow> nat \<Rightarrow> 'b" and bits :: "'b \<Rightarrow> nat"
  assumes bits_put1 [simp]: "bits (put1 b p) = bits b"
    and test_put1: "p < bits b \<Longrightarrow> q < bits b \<Longrightarrow> test (put1 b p) q = (q = p \<or> test b q)"
begin

lemma bits_marks [simp]: "bits (fold (\<lambda>p b. put1 b p) ps b) = bits b"
  by (induction ps arbitrary: b) auto

lemma test_marks:
  "\<forall>p\<in>set ps. p < bits b \<Longrightarrow> q < bits b \<Longrightarrow> test (fold (\<lambda>p b. put1 b p) ps b) q = (q \<in> set ps \<or> test b q)"
  by (induction ps arbitrary: b) (auto simp: test_put1)

end

section \<open>Guarded sequencing\<close>

text \<open>A C chain \<open>if (!f(...) || !g(...)) return false\<close> over a mutable object: each step returns
  its verdict and the object, and the chain stops at the first refusal.\<close>

definition and_then :: "bool \<times> 's \<Rightarrow> ('s \<Rightarrow> bool \<times> 's) \<Rightarrow> bool \<times> 's" where
  "and_then r f = (if fst r then f (snd r) else r)"

lemma and_then_True: "and_then r f = (True, s) \<longleftrightarrow> (\<exists>s1. r = (True, s1) \<and> f s1 = (True, s))"
  by (cases r) (auto simp: and_then_def)

end
