(* ===== verification/Rum_Errors.thy ===== *)
theory Rum_Errors
  imports Rum_Prelude
begin

text \<open>
  The error values the storage stack passes upwards: \<open>enum block_error\<close> of the block layer,
  \<open>enum fs_error\<close> of the filesystem layer, and the negative \<open>rum_result_t\<close> codes of the public
  ABI, with the three translations between them (\<open>kernel/fs/fs-types.c\<close>,
  \<open>kernel/io/block.c\<close>, \<open>kernel/process/handles.c\<close>).
\<close>

datatype block_error =
    BLOCK_OK | BLOCK_INVALID | BLOCK_RANGE | BLOCK_NO_DEVICE | BLOCK_READ_ONLY
  | BLOCK_BUSY | BLOCK_TIMEOUT | BLOCK_DEVICE_FAULT | BLOCK_IO_ERROR | BLOCK_UNSUPPORTED

datatype fs_error =
    FS_OK | FS_END | FS_INVALID | FS_UNAVAILABLE | FS_NOT_FOUND | FS_NOT_DIRECTORY
  | FS_IS_DIRECTORY | FS_EXISTS | FS_NOT_EMPTY | FS_PATH_TOO_LONG | FS_NAME_TOO_LONG
  | FS_TOO_DEEP | FS_MOUNT_ESCAPE | FS_RANGE | FS_ACCESS | FS_READ_ONLY | FS_BUSY
  | FS_NO_MEMORY | FS_NO_SPACE | FS_UNSUPPORTED | FS_IO_ERROR | FS_TIMEOUT | FS_DEVICE_FAULT

datatype fs_kind = FS_FILE | FS_DIRECTORY

datatype fs_naming = FS_NAMES_FAT83

datatype fs_mount_id = FS_MOUNT_DISK

fun fs_error_name :: "fs_error \<Rightarrow> string" where
  "fs_error_name FS_OK = ''ok''"
| "fs_error_name FS_END = ''end of directory''"
| "fs_error_name FS_INVALID = ''invalid request''"
| "fs_error_name FS_UNAVAILABLE = ''unavailable filesystem''"
| "fs_error_name FS_NOT_FOUND = ''not found''"
| "fs_error_name FS_NOT_DIRECTORY = ''not a directory''"
| "fs_error_name FS_IS_DIRECTORY = ''is a directory''"
| "fs_error_name FS_EXISTS = ''already exists''"
| "fs_error_name FS_NOT_EMPTY = ''directory not empty''"
| "fs_error_name FS_PATH_TOO_LONG = ''path too long''"
| "fs_error_name FS_NAME_TOO_LONG = ''name too long''"
| "fs_error_name FS_TOO_DEEP = ''path too deep''"
| "fs_error_name FS_MOUNT_ESCAPE = ''mount traversal''"
| "fs_error_name FS_RANGE = ''offset range''"
| "fs_error_name FS_ACCESS = ''access mode''"
| "fs_error_name FS_READ_ONLY = ''read only''"
| "fs_error_name FS_BUSY = ''busy''"
| "fs_error_name FS_NO_MEMORY = ''out of memory''"
| "fs_error_name FS_NO_SPACE = ''out of space''"
| "fs_error_name FS_UNSUPPORTED = ''unsupported operation''"
| "fs_error_name FS_IO_ERROR = ''I/O error''"
| "fs_error_name FS_TIMEOUT = ''timeout''"
| "fs_error_name FS_DEVICE_FAULT = ''device fault''"

fun fs_error_from_block :: "block_error \<Rightarrow> fs_error" where
  "fs_error_from_block BLOCK_OK = FS_OK"
| "fs_error_from_block BLOCK_INVALID = FS_INVALID"
| "fs_error_from_block BLOCK_RANGE = FS_RANGE"
| "fs_error_from_block BLOCK_NO_DEVICE = FS_UNAVAILABLE"
| "fs_error_from_block BLOCK_READ_ONLY = FS_READ_ONLY"
| "fs_error_from_block BLOCK_BUSY = FS_BUSY"
| "fs_error_from_block BLOCK_TIMEOUT = FS_TIMEOUT"
| "fs_error_from_block BLOCK_DEVICE_FAULT = FS_DEVICE_FAULT"
| "fs_error_from_block BLOCK_UNSUPPORTED = FS_UNSUPPORTED"
| "fs_error_from_block BLOCK_IO_ERROR = FS_IO_ERROR"

fun block_error_name :: "block_error \<Rightarrow> string" where
  "block_error_name BLOCK_OK = ''ok''"
| "block_error_name BLOCK_INVALID = ''invalid request''"
| "block_error_name BLOCK_RANGE = ''sector range''"
| "block_error_name BLOCK_NO_DEVICE = ''no device''"
| "block_error_name BLOCK_READ_ONLY = ''read only''"
| "block_error_name BLOCK_BUSY = ''busy''"
| "block_error_name BLOCK_TIMEOUT = ''timeout''"
| "block_error_name BLOCK_DEVICE_FAULT = ''device fault''"
| "block_error_name BLOCK_IO_ERROR = ''I/O error''"
| "block_error_name BLOCK_UNSUPPORTED = ''unsupported device''"

section \<open>Public error codes\<close>

text \<open>\<open>rum_result_t\<close> is a signed 32-bit value; every code below fits it, so it is an \<open>int\<close>.\<close>

abbreviation (input) RUM_EINVAL :: int where "RUM_EINVAL \<equiv> 1"
abbreviation (input) RUM_EFAULT :: int where "RUM_EFAULT \<equiv> 2"
abbreviation (input) RUM_ENOMEM :: int where "RUM_ENOMEM \<equiv> 3"
abbreviation (input) RUM_ENOSYS :: int where "RUM_ENOSYS \<equiv> 4"
abbreviation (input) RUM_EBADF :: int where "RUM_EBADF \<equiv> 5"
abbreviation (input) RUM_EIO :: int where "RUM_EIO \<equiv> 6"
abbreviation (input) RUM_ENOENT :: int where "RUM_ENOENT \<equiv> 7"
abbreviation (input) RUM_E2BIG :: int where "RUM_E2BIG \<equiv> 8"
abbreviation (input) RUM_EBUSY :: int where "RUM_EBUSY \<equiv> 9"
abbreviation (input) RUM_EINTR :: int where "RUM_EINTR \<equiv> 10"
abbreviation (input) RUM_EACCES :: int where "RUM_EACCES \<equiv> 11"
abbreviation (input) RUM_EROFS :: int where "RUM_EROFS \<equiv> 12"
abbreviation (input) RUM_ENOSPC :: int where "RUM_ENOSPC \<equiv> 13"
abbreviation (input) RUM_EMFILE :: int where "RUM_EMFILE \<equiv> 14"
abbreviation (input) RUM_ENOTDIR :: int where "RUM_ENOTDIR \<equiv> 15"
abbreviation (input) RUM_EISDIR :: int where "RUM_EISDIR \<equiv> 16"
abbreviation (input) RUM_EEXIST :: int where "RUM_EEXIST \<equiv> 17"
abbreviation (input) RUM_ENOTEMPTY :: int where "RUM_ENOTEMPTY \<equiv> 18"
abbreviation (input) RUM_ENAMETOOLONG :: int where "RUM_ENAMETOOLONG \<equiv> 19"
abbreviation (input) RUM_EOVERFLOW :: int where "RUM_EOVERFLOW \<equiv> 20"
abbreviation (input) RUM_ERANGE :: int where "RUM_ERANGE \<equiv> 21"
abbreviation (input) RUM_ETIMEDOUT :: int where "RUM_ETIMEDOUT \<equiv> 22"
abbreviation (input) RUM_ENODEV :: int where "RUM_ENODEV \<equiv> 23"
abbreviation (input) RUM_ENOEXEC :: int where "RUM_ENOEXEC \<equiv> 24"
abbreviation (input) RUM_ECHILD :: int where "RUM_ECHILD \<equiv> 25"
abbreviation (input) RUM_ESRCH :: int where "RUM_ESRCH \<equiv> 26"

fun process_fs_error :: "fs_error \<Rightarrow> int" where
  "process_fs_error FS_OK = 0"
| "process_fs_error FS_END = 0"
| "process_fs_error FS_INVALID = - RUM_EINVAL"
| "process_fs_error FS_MOUNT_ESCAPE = - RUM_EINVAL"
| "process_fs_error FS_UNAVAILABLE = - RUM_ENODEV"
| "process_fs_error FS_NOT_FOUND = - RUM_ENOENT"
| "process_fs_error FS_NOT_DIRECTORY = - RUM_ENOTDIR"
| "process_fs_error FS_IS_DIRECTORY = - RUM_EISDIR"
| "process_fs_error FS_EXISTS = - RUM_EEXIST"
| "process_fs_error FS_NOT_EMPTY = - RUM_ENOTEMPTY"
| "process_fs_error FS_PATH_TOO_LONG = - RUM_ENAMETOOLONG"
| "process_fs_error FS_NAME_TOO_LONG = - RUM_ENAMETOOLONG"
| "process_fs_error FS_TOO_DEEP = - RUM_ENAMETOOLONG"
| "process_fs_error FS_RANGE = - RUM_ERANGE"
| "process_fs_error FS_ACCESS = - RUM_EACCES"
| "process_fs_error FS_READ_ONLY = - RUM_EROFS"
| "process_fs_error FS_BUSY = - RUM_EBUSY"
| "process_fs_error FS_NO_MEMORY = - RUM_ENOMEM"
| "process_fs_error FS_NO_SPACE = - RUM_ENOSPC"
| "process_fs_error FS_UNSUPPORTED = - RUM_ENOSYS"
| "process_fs_error FS_TIMEOUT = - RUM_ETIMEDOUT"
| "process_fs_error FS_IO_ERROR = - RUM_EIO"
| "process_fs_error FS_DEVICE_FAULT = - RUM_EIO"

lemma process_fs_error_zero: "process_fs_error e = 0 \<longleftrightarrow> e = FS_OK \<or> e = FS_END"
  by (cases e) auto

lemma process_fs_error_range: "- 26 \<le> process_fs_error e \<and> process_fs_error e \<le> 0"
  by (cases e) auto

lemma fs_error_from_block_ok: "fs_error_from_block e = FS_OK \<longleftrightarrow> e = BLOCK_OK"
  by (cases e) auto

end
