(* ===== verification/Rum_Path.thy ===== *)
theory Rum_Path
  imports Rum_Errors
begin

text \<open>
  The lexical path parser, \<open>kernel/fs/path.c\<close>: name checking (\<open>fs_name_check\<close>), tokenising
  (\<open>collect\<close>), canonicalisation (\<open>apply\<close>) and their composition \<open>fs_path_parse\<close>. Pointers to
  C strings are \<open>string option\<close> (\<open>None\<close> is the null pointer; a string is what precedes the
  terminating NUL). The token text and the canonical path are the fixed buffers of the
  source, updated in place.

  The lemmas show that a name is accepted exactly when it has the 8.3 shape, that the tokens
  are the nonempty components of the input and fit their tables, that the canonical path is
  the printed form of a stack of components, that no buffer write runs past its end, and
  that canonical paths are fixed points of the parser.
\<close>

section \<open>Limits\<close>

definition FS_PATH_CAPACITY :: nat where "FS_PATH_CAPACITY = 256"
definition FS_NAME_CAPACITY :: nat where "FS_NAME_CAPACITY = 64"
definition FS_PATH_DEPTH :: nat where "FS_PATH_DEPTH = 16"
definition FS_TOKEN_LIMIT :: nat where "FS_TOKEN_LIMIT = FS_PATH_CAPACITY div 2"

lemmas path_limits = FS_PATH_CAPACITY_def FS_NAME_CAPACITY_def FS_PATH_DEPTH_def FS_TOKEN_LIMIT_def

section \<open>Names\<close>

fun c_equal :: "string \<Rightarrow> string \<Rightarrow> bool" where
  "c_equal [] [] = True"
| "c_equal (a # as) (b # bs) = (a = b \<and> c_equal as bs)"
| "c_equal _ _ = False"

definition valid_byte :: "char \<Rightarrow> bool" where
  "valid_byte c =
     ((CHR ''a'' \<le> c \<and> c \<le> CHR ''z'') \<or> (CHR ''A'' \<le> c \<and> c \<le> CHR ''Z'') \<or>
      (CHR ''0'' \<le> c \<and> c \<le> CHR ''9'') \<or> c = CHR ''.'' \<or> c = CHR ''_'' \<or> c = CHR ''-'')"

fun name_check_loop :: "nat \<Rightarrow> nat \<Rightarrow> nat \<Rightarrow> bool \<Rightarrow> string \<Rightarrow> fs_error" where
  "name_check_loop i base extension dot [] =
     (if dot \<and> extension = 0 then FS_INVALID else FS_OK)"
| "name_check_loop i base extension dot (c # cs) =
     (if i \<ge> FS_NAME_CAPACITY - 1 then FS_NAME_TOO_LONG
      else if \<not> valid_byte c then FS_INVALID
      else if c = CHR ''.'' then
        (if dot \<or> base = 0 then FS_INVALID
         else name_check_loop (i + 1) base extension True cs)
      else if dot then
        (if extension + 1 > 3 then FS_NAME_TOO_LONG
         else name_check_loop (i + 1) base (extension + 1) dot cs)
      else
        (if base + 1 > 8 then FS_NAME_TOO_LONG
         else name_check_loop (i + 1) (base + 1) extension dot cs))"

definition fs_name_check :: "fs_naming \<Rightarrow> string option \<Rightarrow> fs_error" where
  "fs_name_check naming name =
     (case name of
        None \<Rightarrow> FS_INVALID
      | Some s \<Rightarrow>
          if s = [] \<or> c_equal s ''.'' \<or> c_equal s ''..'' \<or> naming \<noteq> FS_NAMES_FAT83 then FS_INVALID
          else name_check_loop 0 0 0 False s)"

section \<open>Tokens\<close>

record fs_tokens =
  tok_text :: string
  tok_offsets :: "nat list"
  tok_absolute :: bool
  tok_directory :: bool

fun collect_length :: "nat \<Rightarrow> string \<Rightarrow> fs_error + nat" where
  "collect_length n [] = Inr n"
| "collect_length n (c # cs) =
     (if n < FS_PATH_CAPACITY then
        (if c \<noteq> CHR ''/'' \<and> \<not> valid_byte c then Inl FS_INVALID else collect_length (n + 1) cs)
      else Inr n)"

function skip_slashes :: "nat \<Rightarrow> nat \<Rightarrow> string \<Rightarrow> nat \<times> string" where
  "skip_slashes len i buf =
     (if i < len \<and> buf ! i = CHR ''/'' then skip_slashes len (i + 1) (buf[i := NUL]) else (i, buf))"
  by pat_completeness auto
termination by (relation "measure (\<lambda>(len, i, _). len - i)") auto

function token_end :: "nat \<Rightarrow> nat \<Rightarrow> string \<Rightarrow> nat" where
  "token_end len i buf = (if i < len \<and> buf ! i \<noteq> CHR ''/'' then token_end len (i + 1) buf else i)"
  by pat_completeness auto
termination by (relation "measure (\<lambda>(len, i, _). len - i)") auto

declare skip_slashes.simps [simp del] token_end.simps [simp del]

lemma skip_slashes_ge: "skip_slashes len i buf = (j, buf') \<Longrightarrow> i \<le> j"
proof (induction len i buf rule: skip_slashes.induct)
  case (1 len i buf)
  then show ?case
    by (cases "i < len \<and> buf ! i = CHR ''/''") (auto simp: skip_slashes.simps [of len i buf])
qed

lemma skip_slashes_stop:
  "skip_slashes len i buf = (j, buf') \<Longrightarrow> j \<noteq> len \<Longrightarrow> i \<le> len \<Longrightarrow> j < len \<and> buf' ! j \<noteq> CHR ''/''"
proof (induction len i buf rule: skip_slashes.induct)
  case (1 len i buf)
  then show ?case
    by (cases "i < len \<and> buf ! i = CHR ''/''") (auto simp: skip_slashes.simps [of len i buf])
qed

lemma token_end_ge: "i \<le> token_end len i buf"
proof (induction len i buf rule: token_end.induct)
  case (1 len i buf)
  then show ?case
    by (cases "i < len \<and> buf ! i \<noteq> CHR ''/''") (auto simp: token_end.simps [of len i buf])
qed

lemma token_end_gt: "i < len \<Longrightarrow> buf ! i \<noteq> CHR ''/'' \<Longrightarrow> i < token_end len i buf"
  using token_end_ge [of "i + 1" len buf] by (simp add: token_end.simps [of len i buf])

function collect_loop :: "nat \<Rightarrow> nat \<Rightarrow> string \<Rightarrow> nat list \<Rightarrow> fs_error + (string \<times> nat list)" where
  "collect_loop len i buf offs =
     (if i < len then
        (let (start, buf1) = skip_slashes len i buf in
         if start = len then Inr (buf1, offs)
         else if length offs = FS_TOKEN_LIMIT then Inl FS_TOO_DEEP
         else
           (let e = token_end len start buf1 in
            if e - start \<ge> FS_NAME_CAPACITY then Inl FS_NAME_TOO_LONG
            else if e < len then collect_loop len (e + 1) (buf1[e := NUL]) (offs @ [start])
            else collect_loop len e buf1 (offs @ [start])))
      else Inr (buf, offs))"
  by pat_completeness auto
termination
proof (relation "measure (\<lambda>(len, i, _). len - i)", goal_cases)
  case 1
  show ?case by simp
next
  case (2 len i buf offs x start buf1 e)
  then have "i \<le> start" "start \<le> e"
    using skip_slashes_ge token_end_ge by (metis)+
  with 2 show ?case by auto
next
  case (3 len i buf offs x start buf1 e)
  then have "i \<le> start" "start < len \<and> buf1 ! start \<noteq> CHR ''/''"
    using skip_slashes_ge skip_slashes_stop by (metis less_imp_le)+
  moreover have "start < e"
    using 3 calculation token_end_gt by metis
  ultimately show ?case using 3 by auto
qed

declare collect_loop.simps [simp del]

definition token_at :: "string \<Rightarrow> nat \<Rightarrow> string" where
  "token_at buf off = cstr (drop off buf)"

definition collect :: "string option \<Rightarrow> fs_error + fs_tokens" where
  "collect input =
     (case input of
        None \<Rightarrow> Inl FS_INVALID
      | Some s \<Rightarrow>
          if s = [] then Inl FS_INVALID
          else
            (case collect_length 0 s of
               Inl e \<Rightarrow> Inl e
             | Inr len \<Rightarrow>
                 if len = FS_PATH_CAPACITY then Inl FS_PATH_TOO_LONG
                 else
                   (case collect_loop len 0 (blit (replicate FS_PATH_CAPACITY NUL) 0 (s @ [NUL])) [] of
                      Inl e \<Rightarrow> Inl e
                    | Inr (buf, offs) \<Rightarrow>
                        Inr \<lparr> tok_text = buf, tok_offsets = offs, tok_absolute = (s ! 0 = CHR ''/''),
                              tok_directory = (s ! (len - 1) = CHR ''/'' \<or>
                                (offs \<noteq> [] \<and> (c_equal (token_at buf (last offs)) ''.'' \<or>
                                               c_equal (token_at buf (last offs)) ''..''))) \<rparr>)))"

section \<open>Canonical paths\<close>

record canonical =
  ctext :: string
  clength :: nat
  ccount :: nat
  previous :: "nat list"
  cmount :: fs_mount_id

definition upcase :: "char \<Rightarrow> char" where
  "upcase c = (if CHR ''a'' \<le> c \<and> c \<le> CHR ''z''
               then char_of (of_char c - 97 + 65 :: nat) else c)"

text \<open>The \<open>..\<close> branch of the loop, and the append of an accepted name.\<close>

definition canonical_pop :: "canonical \<Rightarrow> canonical" where
  "canonical_pop path =
     (let path1 = (if ccount path \<noteq> 0
                   then path\<lparr>ccount := ccount path - 1, clength := previous path ! (ccount path - 1)\<rparr>
                   else path)
      in path1\<lparr>ctext := blit (ctext path1) (clength path1) [NUL]\<rparr>)"

definition canonical_push :: "canonical \<Rightarrow> nat \<Rightarrow> string \<Rightarrow> canonical" where
  "canonical_push path slash name =
     (let path1 = path\<lparr>previous := (previous path)[ccount path := clength path],
                       ccount := ccount path + 1\<rparr>;
          path2 = (if slash = 1
                   then path1\<lparr>ctext := blit (ctext path1) (clength path1) ''/'',
                              clength := clength path1 + 1\<rparr>
                   else path1)
      in path2\<lparr>ctext := blit (ctext path2) (clength path2) (name @ [NUL]),
               clength := clength path2 + length name\<rparr>)"

fun apply_tokens :: "canonical \<Rightarrow> fs_tokens \<Rightarrow> nat list \<Rightarrow> fs_error \<times> canonical \<times> fs_tokens" where
  "apply_tokens path tokens [] = (FS_OK, path, tokens)"
| "apply_tokens path tokens (off # offs) =
     (let name = token_at (tok_text tokens) off in
      if c_equal name ''.'' then apply_tokens path tokens offs
      else if c_equal name ''..'' then apply_tokens (canonical_pop path) tokens offs
      else
        (let error = fs_name_check FS_NAMES_FAT83 (Some name) in
         if error \<noteq> FS_OK then (error, path, tokens)
         else if ccount path = FS_PATH_DEPTH then (FS_TOO_DEEP, path, tokens)
         else
           (let upper = map upcase name;
                tokens1 = tokens\<lparr>tok_text := blit (tok_text tokens) off upper\<rparr>;
                slash = (if clength path > 1 then 1 else 0)
            in if length upper \<ge> FS_PATH_CAPACITY - clength path - slash
               then (FS_PATH_TOO_LONG, path, tokens1)
               else apply_tokens (canonical_push path slash upper) tokens1 offs)))"

definition apply_path :: "canonical \<Rightarrow> fs_tokens \<Rightarrow> fs_error \<times> canonical \<times> fs_tokens" where
  "apply_path path tokens = apply_tokens path tokens (tok_offsets tokens)"

record fs_path =
  path_base :: fs_tokens
  path_input :: fs_tokens
  path_canonical :: string
  path_mount :: fs_mount_id
  path_depth :: nat

text \<open>The zeroed result with the root in its canonical buffer, and a restart at the root.\<close>

definition root_canonical :: "string \<Rightarrow> canonical" where
  "root_canonical buf =
     \<lparr> ctext = buf, clength = 1, ccount = 0,
       previous = replicate (FS_PATH_DEPTH + 1) 0, cmount = FS_MOUNT_DISK \<rparr>"

definition fs_path_parse :: "string option \<Rightarrow> string option \<Rightarrow> fs_error + fs_path" where
  "fs_path_parse base_path input_path =
     (case collect base_path of
        Inl e \<Rightarrow> Inl e
      | Inr base_tokens \<Rightarrow>
          if \<not> tok_absolute base_tokens then Inl FS_INVALID
          else
            (case collect input_path of
               Inl e \<Rightarrow> Inl e
             | Inr input_tokens \<Rightarrow>
                 (let zero = replicate FS_PATH_CAPACITY NUL;
                      (error, path, base_tokens1) =
                        apply_path (root_canonical (zero[0 := CHR ''/''])) base_tokens
                  in if error \<noteq> FS_OK then Inl error
                     else
                       (let path1 = (if tok_absolute input_tokens
                                     then root_canonical ((ctext path)[1 := NUL]) else path);
                            (error1, path2, input_tokens1) = apply_path path1 input_tokens
                        in if error1 \<noteq> FS_OK then Inl error1
                           else Inr \<lparr> path_base = base_tokens1, path_input = input_tokens1,
                                      path_canonical = ctext path2, path_mount = cmount path2,
                                      path_depth = ccount path2 \<rparr>))))"


section \<open>Names: the 8.3 shape\<close>

definition name_char :: "char \<Rightarrow> bool" where
  "name_char c \<longleftrightarrow> valid_byte c \<and> c \<noteq> CHR ''.''"

text \<open>One to eight name characters, then nothing or a dot and one to three more.\<close>

definition name83 :: "string \<Rightarrow> bool" where
  "name83 s \<longleftrightarrow>
     (let b = takeWhile (\<lambda>c. c \<noteq> CHR ''.'') s; r = dropWhile (\<lambda>c. c \<noteq> CHR ''.'') s in
      1 \<le> length b \<and> length b \<le> 8 \<and> list_all name_char b \<and>
      (r = [] \<or> (1 \<le> length (tl r) \<and> length (tl r) \<le> 3 \<and> list_all name_char (tl r))))"

lemma c_equal_eq [simp]: "c_equal a b = (a = b)"
  by (induction a b rule: c_equal.induct) auto

lemma valid_byte_dot [simp]: "valid_byte CHR ''.''"
  by (simp add: valid_byte_def)

lemma name_check_extension:
  "i + 3 < 63 + e \<Longrightarrow>
   name_check_loop i b e True s = FS_OK \<longleftrightarrow>
     list_all name_char s \<and> 1 \<le> e + length s \<and> e + length s \<le> 3" if "e \<le> 3"
  using that
proof (induction s arbitrary: i e)
  case Nil
  then show ?case by auto
next
  case (Cons c cs)
  show ?case
  proof (cases "e + 1 > 3 \<or> c = CHR ''.'' \<or> \<not> valid_byte c")
    case True
    with Cons.prems show ?thesis by (auto simp: name_char_def path_limits)
  next
    case False
    with Cons.prems Cons.IH [of "i + 1" "e + 1"] show ?thesis
      by (auto simp: name_char_def path_limits)
  qed
qed

lemma name_check_base:
  "b \<le> 8 \<Longrightarrow>
   name_check_loop b b 0 False s = FS_OK \<longleftrightarrow>
     (let p = takeWhile (\<lambda>c. c \<noteq> CHR ''.'') s; r = dropWhile (\<lambda>c. c \<noteq> CHR ''.'') s in
      b + length p \<le> 8 \<and> list_all name_char p \<and>
      (r = [] \<or> (1 \<le> b + length p \<and> 1 \<le> length (tl r) \<and> length (tl r) \<le> 3 \<and>
                list_all name_char (tl r))))"
proof (induction s arbitrary: b)
  case Nil
  then show ?case by simp
next
  case (Cons c cs)
  show ?case
  proof (cases "c = CHR ''.''")
    case True
    with Cons.prems name_check_extension [of 0 "b + 1" b cs] show ?thesis
      by (auto simp: path_limits Let_def)
  next
    case False
    with Cons.prems Cons.IH [of "b + 1"] show ?thesis
      by (auto simp: name_char_def path_limits Let_def)
  qed
qed

lemma fs_name_check_iff: "fs_name_check FS_NAMES_FAT83 (Some s) = FS_OK \<longleftrightarrow> name83 s"
proof (cases "s = [] \<or> s = ''.'' \<or> s = ''..''")
  case True
  then show ?thesis by (auto simp: fs_name_check_def name83_def)
next
  case False
  then have check: "fs_name_check FS_NAMES_FAT83 (Some s) = name_check_loop 0 0 0 False s"
    by (simp add: fs_name_check_def)
  define b r where "b = takeWhile (\<lambda>c. c \<noteq> CHR ''.'') s"
    and "r = dropWhile (\<lambda>c. c \<noteq> CHR ''.'') s"
  then have "b @ r = s" by simp
  with False have "r = [] \<Longrightarrow> 1 \<le> length b" by (cases b) auto
  with name_check_base [of 0 s] show ?thesis
    unfolding check name83_def Let_def b_def [symmetric] r_def [symmetric] by linarith
qed


section \<open>Tokens are the nonempty components\<close>

text \<open>The components of a path: the maximal nonempty runs between slashes.\<close>

fun components :: "string \<Rightarrow> string \<Rightarrow> string list" where
  "components cur [] = (if cur = [] then [] else [cur])"
| "components cur (c # cs) =
     (if c = CHR ''/'' then (if cur = [] then [] else [cur]) @ components [] cs
      else components (cur @ [c]) cs)"

definition nul :: "char \<Rightarrow> char" where
  "nul c = (if c = CHR ''/'' then NUL else c)"

text \<open>The token buffer when the scan has reached position \<open>i\<close> of the path \<open>s\<close>.\<close>

definition nulled :: "nat \<Rightarrow> string \<Rightarrow> string \<Rightarrow> string" where
  "nulled i s rest = map nul (take i s) @ drop i s @ rest"

lemma components_word:
  "CHR ''/'' \<notin> set w \<Longrightarrow> components cur (w @ s) = components (cur @ w) s"
  by (induction w arbitrary: cur) auto

lemma components_cons:
  "w \<noteq> [] \<Longrightarrow> CHR ''/'' \<notin> set w \<Longrightarrow> components [] (w @ CHR ''/'' # s) = w # components [] s"
  by (simp add: components_word)

lemma components_last: "w \<noteq> [] \<Longrightarrow> CHR ''/'' \<notin> set w \<Longrightarrow> components [] w = [w]"
  using components_word [of w "[]" "[]"] by simp

lemma components_slashes: "set w \<subseteq> {CHR ''/''} \<Longrightarrow> components [] (w @ s) = components [] s"
  by (induction w) auto

lemma length_nulled [simp]: "length (nulled i s rest) = length s + length rest"
  by (simp add: nulled_def min_def)

lemma nth_nulled: "i < length s \<Longrightarrow> i \<le> j \<Longrightarrow> nulled i s rest ! j = (s @ rest) ! j"
  by (auto simp: nulled_def nth_append min_def)

lemma nulled_slash:
  "i < length s \<Longrightarrow> s ! i = CHR ''/'' \<Longrightarrow> (nulled i s rest)[i := NUL] = nulled (Suc i) s rest"
  by (simp add: nulled_def list_update_append take_Suc_conv_app_nth nul_def)
     (metis Cons_nth_drop_Suc append_Cons list_update_code(2))

lemma nulled_plain: "i < length s \<Longrightarrow> s ! i \<noteq> CHR ''/'' \<Longrightarrow> nulled (Suc i) s rest = nulled i s rest"
  by (simp add: nulled_def take_Suc_conv_app_nth nul_def)
     (metis Cons_nth_drop_Suc append_Cons)

lemma nulled_run:
  "i + n \<le> length s \<Longrightarrow> (\<forall>k. i \<le> k \<and> k < i + n \<longrightarrow> s ! k \<noteq> CHR ''/'') \<Longrightarrow>
     nulled (i + n) s rest = nulled i s rest"
  by (induction n) (auto simp: nulled_plain)

lemma skip_slashes_nulled:
  "i \<le> length s \<Longrightarrow>
   skip_slashes (length s) i (nulled i s rest) =
     (let j = i + length (takeWhile ((=) (CHR ''/'')) (drop i s)) in (j, nulled j s rest))"
proof (induction "drop i s" arbitrary: i)
  case Nil
  then show ?case by (simp add: skip_slashes.simps)
next
  case (Cons c cs)
  from drop_ConsD [OF Cons.hyps(2) [symmetric]]
  have i: "i < length s" and c: "s ! i = c" and cs: "cs = drop (Suc i) s" by auto
  have nth: "nulled i s rest ! i = c"
    using i c by (simp add: nth_nulled nth_append)
  show ?case
  proof (cases "c = CHR ''/''")
    case True
    have "skip_slashes (length s) i (nulled i s rest) =
            skip_slashes (length s) (Suc i) (nulled (Suc i) s rest)"
      using i c True nth by (simp add: skip_slashes.simps [of "length s" i] nulled_slash)
    with Cons.hyps(1) [of "Suc i"] i cs True Cons.hyps(2) [symmetric] show ?thesis
      by (simp add: Let_def)
  next
    case False
    with i nth Cons.hyps(2) [symmetric] show ?thesis
      by (simp add: skip_slashes.simps [of "length s" i])
  qed
qed

lemma token_end_nulled:
  "j < length s \<Longrightarrow> j \<le> i \<Longrightarrow> i \<le> length s \<Longrightarrow>
   token_end (length s) i (nulled j s rest) =
     i + length (takeWhile (\<lambda>c. c \<noteq> CHR ''/'') (drop i s))"
proof (induction "drop i s" arbitrary: i)
  case Nil
  then show ?case by (simp add: token_end.simps)
next
  case (Cons c cs)
  from drop_ConsD [OF Cons.hyps(2) [symmetric]]
  have i: "i < length s" and c: "s ! i = c" and cs: "cs = drop (Suc i) s" by auto
  have nth: "nulled j s rest ! i = c"
    using i c Cons.prems by (simp add: nth_nulled nth_append)
  show ?case
    using i nth c cs Cons.hyps(1) [of "Suc i"] Cons.hyps(2) [symmetric] Cons.prems
    by (simp add: token_end.simps [of "length s" i])
qed

text \<open>
  What the scan computes from position \<open>i\<close>: an over-long component stops it; otherwise the
  buffer has every slash cleared and the recorded offsets are the starts of the components,
  in order and each beyond the end of the one before. The token table is never full, because
  two tokens are at least two positions apart.
\<close>

definition gap :: "string \<Rightarrow> nat \<Rightarrow> nat \<Rightarrow> bool" where
  "gap buf o1 o2 \<longleftrightarrow> o1 + length (token_at buf o1) < o2"

definition scanned :: "string \<Rightarrow> string \<Rightarrow> nat \<Rightarrow> nat list \<Rightarrow> fs_error + (string \<times> nat list) \<Rightarrow> bool" where
  "scanned s rest i offs r \<longleftrightarrow>
     (if \<exists>w\<in>set (components [] (drop i s)). FS_NAME_CAPACITY \<le> length w
      then r = Inl FS_NAME_TOO_LONG
      else (\<exists>new. r = Inr (nulled (length s) s rest, offs @ new) \<and>
              map (token_at (nulled (length s) s rest)) new = components [] (drop i s) \<and>
              sorted_wrt (gap (nulled (length s) s rest)) new \<and>
              (\<forall>o1\<in>set new. i \<le> o1 \<and> o1 < length s)))"

lemma token_at_nulled:
  assumes "NUL \<notin> set s" and "rest \<noteq> []" and "hd rest = NUL" and "i < length s"
    and "s ! i \<noteq> CHR ''/''"
  shows "token_at (nulled (length s) s rest) i = takeWhile (\<lambda>c. c \<noteq> CHR ''/'') (drop i s)"
proof -
  have "takeWhile (\<lambda>c. c \<noteq> NUL) (map nul t @ rest) = takeWhile (\<lambda>c. c \<noteq> CHR ''/'') t"
    if "NUL \<notin> set t" for t
    using that assms(2,3) by (induction t) (auto simp: nul_def neq_Nil_conv)
  moreover have "NUL \<notin> set (drop i s)"
    using assms(1) by (meson in_set_dropD)
  ultimately show ?thesis
    using assms(4) by (simp add: token_at_def cstr_def nulled_def drop_map)
qed

lemma drop_split_word:
  assumes "drop i s = c # cs" and "c \<noteq> CHR ''/''"
  defines "w \<equiv> takeWhile (\<lambda>c. c \<noteq> CHR ''/'') (drop i s)"
  shows "w \<noteq> []" and "CHR ''/'' \<notin> set w" and "i + length w \<le> length s"
    and "\<forall>k. i \<le> k \<and> k < i + length w \<longrightarrow> s ! k \<noteq> CHR ''/''"
    and "components [] (drop i s) = w # components [] (drop (Suc (i + length w)) s)"
    and "i + length w < length s \<Longrightarrow> s ! (i + length w) = CHR ''/''"
proof -
  show "w \<noteq> []" "CHR ''/'' \<notin> set w"
    using assms by (auto dest: set_takeWhileD)
  have lw: "length w \<le> length (drop i s)"
    unfolding w_def by (rule length_takeWhile_le)
  moreover have i: "i < length s" using drop_ConsD [OF assms(1)] by simp
  ultimately show le: "i + length w \<le> length s" by simp
  show "\<forall>k. i \<le> k \<and> k < i + length w \<longrightarrow> s ! k \<noteq> CHR ''/''"
  proof (intro allI impI)
    fix k assume k: "i \<le> k \<and> k < i + length w"
    then have lt: "k - i < length w" by linarith
    then have "w ! (k - i) \<in> set w" by (rule nth_mem)
    moreover have "w ! (k - i) = s ! k"
      using k le lt takeWhile_nth [of "k - i" "\<lambda>c. c \<noteq> CHR ''/''" "drop i s"] unfolding w_def by simp
    ultimately show "s ! k \<noteq> CHR ''/''" using \<open>CHR ''/'' \<notin> set w\<close> by metis
  qed
  show slash: "s ! (i + length w) = CHR ''/''" if "i + length w < length s"
    using that nth_length_takeWhile [of "\<lambda>c. c \<noteq> CHR ''/''" "drop i s"] i
    by (simp add: w_def)
  have app: "drop i s = w @ drop (i + length w) s"
    by (simp add: w_def add.commute [of i] flip: drop_drop)
       (metis append_eq_conv_conj takeWhile_dropWhile_id)
  show "components [] (drop i s) = w # components [] (drop (Suc (i + length w)) s)"
  proof (cases "i + length w < length s")
    case True
    then have "drop (i + length w) s = CHR ''/'' # drop (Suc (i + length w)) s"
      using slash by (simp flip: Cons_nth_drop_Suc)
    with app \<open>w \<noteq> []\<close> \<open>CHR ''/'' \<notin> set w\<close> components_cons show ?thesis by metis
  next
    case False
    with app have "drop i s = w" "drop (Suc (i + length w)) s = []" by auto
    with \<open>w \<noteq> []\<close> \<open>CHR ''/'' \<notin> set w\<close> components_last show ?thesis
      by simp
  qed
qed

definition word_start :: "string \<Rightarrow> nat \<Rightarrow> nat" where
  "word_start s i = i + length (takeWhile ((=) (CHR ''/'')) (drop i s))"

definition word_at :: "string \<Rightarrow> nat \<Rightarrow> string" where
  "word_at s j = takeWhile (\<lambda>c. c \<noteq> CHR ''/'') (drop j s)"

lemma word_start_bounds: "i \<le> length s \<Longrightarrow> i \<le> word_start s i \<and> word_start s i \<le> length s"
  using length_takeWhile_le [of "(=) (CHR ''/'')" "drop i s"] by (simp add: word_start_def)

lemma skip_slashes_word:
  "i \<le> length s \<Longrightarrow>
     skip_slashes (length s) i (nulled i s rest) = (word_start s i, nulled (word_start s i) s rest)"
  by (simp add: skip_slashes_nulled word_start_def Let_def)

lemma components_word_start: "components [] (drop i s) = components [] (drop (word_start s i) s)"
proof -
  have "takeWhile ((=) (CHR ''/'')) (drop i s) @ drop (word_start s i) s = drop i s"
    by (simp add: word_start_def add.commute [of i] flip: drop_drop)
       (metis append_eq_conv_conj takeWhile_dropWhile_id)
  with components_slashes [OF set_takeWhile_eq, of "drop i s" "drop (word_start s i) s"]
  show ?thesis by argo
qed

lemma word_start_char:
  assumes "i \<le> length s" and "word_start s i \<noteq> length s"
  shows "word_start s i < length s" and "s ! word_start s i \<noteq> CHR ''/''"
    and "drop (word_start s i) s = s ! word_start s i # drop (Suc (word_start s i)) s"
proof -
  show lt: "word_start s i < length s"
    using word_start_bounds [OF assms(1)] assms(2) by simp
  with skip_slashes_stop [OF skip_slashes_word [OF assms(1), of "[]"] assms(2,1)]
  show "s ! word_start s i \<noteq> CHR ''/''" by (simp add: nth_nulled nth_append)
  show "drop (word_start s i) s = s ! word_start s i # drop (Suc (word_start s i)) s"
    using lt by (simp add: Cons_nth_drop_Suc)
qed

lemma collect_loop_end: "collect_loop (length s) (length s) buf offs = Inr (buf, offs)"
  by (simp add: collect_loop.simps)

text \<open>One round of the outer loop, over the original path.\<close>

lemma collect_loop_round:
  assumes "i < length s" and "length offs \<noteq> FS_TOKEN_LIMIT"
  defines "j \<equiv> word_start s i"
  defines "e \<equiv> j + length (word_at s j)"
  shows "collect_loop (length s) i (nulled i s rest) offs =
     (if j = length s then Inr (nulled (length s) s rest, offs)
      else if FS_NAME_CAPACITY \<le> length (word_at s j) then Inl FS_NAME_TOO_LONG
      else if e < length s then collect_loop (length s) (Suc e) (nulled (Suc e) s rest) (offs @ [j])
      else Inr (nulled (length s) s rest, offs @ [j]))"
proof (cases "j = length s")
  case True
  then show ?thesis
    using assms(1) skip_slashes_word [of i s rest] by (simp add: collect_loop.simps [of "length s" i] j_def)
next
  case False
  note start = word_start_char [OF less_imp_le [OF assms(1)] False [unfolded j_def], folded j_def]
  note word = drop_split_word [OF start(3,2), folded word_at_def e_def]
  have te: "token_end (length s) j (nulled j s rest) = e"
    using token_end_nulled [OF start(1)] start(1) by (simp add: e_def word_at_def)
  have same: "nulled e s rest = nulled j s rest"
    using nulled_run [of j "length (word_at s j)" s rest] word(3,4) by (simp add: e_def)
  have upd: "(nulled j s rest)[e := NUL] = nulled (Suc e) s rest" if "e < length s"
    using same nulled_slash [OF that word(6) [OF that], of rest] by simp
  show ?thesis
    using assms(1,2) False te same upd word(3) skip_slashes_word [of i s rest] collect_loop_end [of s]
    by (auto simp: collect_loop.simps [of "length s" i] Let_def j_def [symmetric] e_def [symmetric])
       (auto simp: e_def)
qed

lemma scanned_word:
  assumes "NUL \<notin> set s" and "rest \<noteq> []" and "hd rest = NUL" and "i \<le> length s"
    and "word_start s i \<noteq> length s" and "\<not> FS_NAME_CAPACITY \<le> length (word_at s (word_start s i))"
    and "scanned s rest (Suc (word_start s i + length (word_at s (word_start s i))))
           (offs @ [word_start s i]) r"
  shows "scanned s rest i offs r"
proof -
  define j where "j = word_start s i"
  define w where "w = word_at s j"
  note start = word_start_char [OF assms(4,5), folded j_def]
  have comps: "components [] (drop i s) = w # components [] (drop (Suc (j + length w)) s)"
    using drop_split_word(5) [OF start(3,2)] components_word_start [of i s]
    by (simp add: w_def j_def word_at_def)
  have tok: "token_at (nulled (length s) s rest) j = w"
    using token_at_nulled [OF assms(1-3) start(1,2)] by (simp add: w_def word_at_def)
  have "gap (nulled (length s) s rest) j o1" if "Suc (j + length w) \<le> o1" for o1
    using that tok by (simp add: gap_def)
  then show ?thesis
    using assms(6,7) comps tok start(1) word_start_bounds [OF assms(4), folded j_def]
    unfolding scanned_def j_def [symmetric] w_def [symmetric]
    by (auto split: if_splits) fastforce+
qed

lemma scanned_end: "scanned s rest (length s) offs (Inr (nulled (length s) s rest, offs))"
  by (simp add: scanned_def)

lemma collect_loop_scanned:
  assumes "NUL \<notin> set s" and "rest \<noteq> []" and "hd rest = NUL" and "length s < FS_PATH_CAPACITY"
    and "i \<le> length s" and "2 * length offs \<le> i"
  shows "scanned s rest i offs (collect_loop (length s) i (nulled i s rest) offs)"
  using assms(5,6)
proof (induction "length s - i" arbitrary: i offs rule: less_induct)
  case less
  show ?case
  proof (cases "i = length s")
    case True
    then show ?thesis by (simp add: collect_loop_end scanned_end)
  next
    case False
    with less.prems assms(4) have i: "i < length s" and n: "length offs \<noteq> FS_TOKEN_LIMIT"
      by (auto simp: path_limits)
    define j where "j = word_start s i"
    define e where "e = j + length (word_at s j)"
    note round = collect_loop_round [OF i n, of rest, folded j_def, folded e_def]
    note step = scanned_word [OF assms(1-3) less.prems(1), folded j_def, folded e_def]
    have ij: "i \<le> j" using word_start_bounds [OF less.prems(1)] by (simp add: j_def)
    show ?thesis
    proof (cases "j = length s")
      case True
      then show ?thesis
        using round components_word_start [of i s] by (simp add: scanned_def j_def)
    next
      case False
      note start = word_start_char [OF less.prems(1) False [unfolded j_def], folded j_def]
      note word = drop_split_word [OF start(3,2), folded word_at_def e_def]
      have je: "j < e" using word(1) by (simp add: e_def)
      consider (long) "FS_NAME_CAPACITY \<le> length (word_at s j)"
        | (more) "\<not> FS_NAME_CAPACITY \<le> length (word_at s j)" "e < length s"
        | (last) "\<not> FS_NAME_CAPACITY \<le> length (word_at s j)" "\<not> e < length s"
        by blast
      then show ?thesis
      proof cases
        case long
        then show ?thesis
          using round False components_word_start [of i s] word(5) by (auto simp: scanned_def j_def)
      next
        case more
        have "scanned s rest (Suc e) (offs @ [j])
                (collect_loop (length s) (Suc e) (nulled (Suc e) s rest) (offs @ [j]))"
          by (rule less.hyps) (use more je ij less.prems i in auto)
        with more False round step show ?thesis by simp
      next
        case last
        have "components [] (drop (Suc e) s) = []" using last by simp
        then have "scanned s rest (Suc e) (offs @ [j]) (Inr (nulled (length s) s rest, offs @ [j]))"
          by (simp add: scanned_def)
        with last False round step show ?thesis by simp
      qed
    qed
  qed
qed

text \<open>At most one component per two bytes, so the offset table of 128 entries is enough.\<close>

lemma components_count: "2 * length (components cur s) \<le> length s + (if cur = [] then 1 else 2)"
  by (induction cur s rule: components.induct) (auto split: if_splits)

lemma components_nonempty: "w \<in> set (components cur s) \<Longrightarrow> w \<noteq> []"
  by (induction cur s rule: components.induct) (auto split: if_splits)

lemma components_no_slash:
  "w \<in> set (components cur s) \<Longrightarrow> CHR ''/'' \<notin> set cur \<Longrightarrow> CHR ''/'' \<notin> set w"
  by (induction cur s rule: components.induct) (auto split: if_splits)

lemma components_subset: "w \<in> set (components cur s) \<Longrightarrow> set w \<subseteq> set cur \<union> set s"
  by (induction cur s rule: components.induct) (auto split: if_splits)

definition path_byte :: "char \<Rightarrow> bool" where
  "path_byte c \<longleftrightarrow> c = CHR ''/'' \<or> valid_byte c"

lemma path_byte_NUL [simp]: "\<not> path_byte NUL" "\<not> valid_byte NUL"
  by (simp_all add: path_byte_def valid_byte_def)

lemma collect_length_Inr:
  "n \<le> FS_PATH_CAPACITY \<Longrightarrow>
   collect_length n s = Inr m \<longleftrightarrow>
     list_all path_byte (take (FS_PATH_CAPACITY - n) s) \<and> m = min FS_PATH_CAPACITY (n + length s)"
proof (induction s arbitrary: n)
  case Nil
  then show ?case by auto
next
  case (Cons c cs)
  show ?case
  proof (cases "n < FS_PATH_CAPACITY")
    case True
    then have "take (FS_PATH_CAPACITY - n) (c # cs) = c # take (FS_PATH_CAPACITY - Suc n) cs"
      by (metis Suc_diff_Suc take_Suc_Cons)
    with True Cons.IH [of "n + 1"] show ?thesis by (auto simp: path_byte_def)
  next
    case False
    with Cons.prems show ?thesis by auto
  qed
qed


text \<open>What a caller may pass as a path, and what \<open>collect\<close> returns for it.\<close>

definition path_input_ok :: "string \<Rightarrow> bool" where
  "path_input_ok s \<longleftrightarrow>
     s \<noteq> [] \<and> length s < FS_PATH_CAPACITY \<and> list_all path_byte s \<and>
     (\<forall>w\<in>set (components [] s). length w < FS_NAME_CAPACITY)"

definition tokens_of :: "string \<Rightarrow> fs_tokens \<Rightarrow> bool" where
  "tokens_of s t \<longleftrightarrow>
     length (tok_text t) = FS_PATH_CAPACITY \<and>
     map (token_at (tok_text t)) (tok_offsets t) = components [] s \<and>
     sorted_wrt (gap (tok_text t)) (tok_offsets t) \<and>
     (\<forall>o1\<in>set (tok_offsets t). o1 < length s) \<and>
     length (tok_offsets t) \<le> FS_TOKEN_LIMIT \<and>
     tok_absolute t = (hd s = CHR ''/'') \<and>
     tok_directory t = (last s = CHR ''/'' \<or>
       (components [] s \<noteq> [] \<and> last (components [] s) \<in> {''.'', ''..''}))"

lemma collect_buffer:
  assumes "length s < FS_PATH_CAPACITY"
  shows "blit (replicate FS_PATH_CAPACITY NUL) 0 (s @ [NUL]) =
           nulled 0 s (NUL # replicate (FS_PATH_CAPACITY - Suc (length s)) NUL)"
  by (simp add: blit_def nulled_def)

definition collect_spec :: "string \<Rightarrow> fs_error + fs_tokens \<Rightarrow> bool" where
  "collect_spec s r \<longleftrightarrow>
     (case r of
        Inr t \<Rightarrow> path_input_ok s \<and> tokens_of s t
      | Inl e \<Rightarrow> \<not> path_input_ok s \<and> e \<in> {FS_INVALID, FS_PATH_TOO_LONG, FS_NAME_TOO_LONG})"

lemma collect_rejected:
  assumes "\<not> (s \<noteq> [] \<and> length s < FS_PATH_CAPACITY \<and> list_all path_byte s)"
  shows "collect_spec s (collect (Some s))"
proof (cases "collect_length 0 s")
  case (Inl e)
  have "e = FS_INVALID" if "collect_length n cs = Inl e" for n cs
    using that by (induction n cs rule: collect_length.induct) (auto split: if_splits)
  with Inl assms show ?thesis by (auto simp: collect_def path_input_ok_def collect_spec_def)
next
  case (Inr m)
  then have m: "list_all path_byte (take FS_PATH_CAPACITY s)" "m = min FS_PATH_CAPACITY (length s)"
    using collect_length_Inr [of 0 s m] by auto
  with assms have "s = [] \<or> m = FS_PATH_CAPACITY"
    by (cases "length s < FS_PATH_CAPACITY") auto
  with Inr assms show ?thesis by (auto simp: collect_def path_input_ok_def collect_spec_def)
qed

lemma collect_directory:
  assumes "map (token_at buf) new = comps"
  shows "(new \<noteq> [] \<and> (c_equal (token_at buf (last new)) ''.'' \<or> c_equal (token_at buf (last new)) ''..''))
           \<longleftrightarrow> (comps \<noteq> [] \<and> last comps \<in> {''.'', ''..''})"
  using assms by (auto simp: last_map)

lemma collect_correct: "collect_spec s (collect (Some s))"
proof (cases "s \<noteq> [] \<and> length s < FS_PATH_CAPACITY \<and> list_all path_byte s")
  case False
  then show ?thesis by (rule collect_rejected)
next
  case True
  define rest where "rest = NUL # replicate (FS_PATH_CAPACITY - Suc (length s)) NUL"
  have len: "collect_length 0 s = Inr (length s)"
    using True collect_length_Inr [of 0 s "length s"] by (simp add: min_def)
  have "NUL \<notin> set s" using True by (auto simp: list_all_iff)
  then have scan: "scanned s rest 0 [] (collect_loop (length s) 0 (nulled 0 s rest) [])"
    using True by (intro collect_loop_scanned) (auto simp: rest_def)
  note unfold = collect_def collect_spec_def collect_buffer [folded rest_def] len
  show ?thesis
  proof (cases "\<exists>w\<in>set (components [] s). FS_NAME_CAPACITY \<le> length w")
    case long: True
    then have "\<not> path_input_ok s" by (fastforce simp: path_input_ok_def)
    with long scan True show ?thesis
      by (simp add: unfold scanned_def collect_buffer rest_def [symmetric])
  next
    case False
    then obtain new where
      new: "collect_loop (length s) 0 (nulled 0 s rest) [] = Inr (nulled (length s) s rest, new)"
        "map (token_at (nulled (length s) s rest)) new = components [] s"
        "sorted_wrt (gap (nulled (length s) s rest)) new" "\<forall>o1\<in>set new. o1 < length s"
      using scan by (auto simp: scanned_def)
    have "length new \<le> FS_TOKEN_LIMIT"
      using components_count [of "[]" s] new(2) True
      by (auto simp: path_limits dest: arg_cong [of _ _ length])
    moreover have "path_input_ok s" using False True by (auto simp: path_input_ok_def)
    ultimately show ?thesis
      using new True collect_directory [OF new(2)]
      by (simp add: unfold collect_buffer rest_def [symmetric] tokens_of_def hd_conv_nth last_conv_nth)
         (simp add: rest_def)
  qed
qed


section \<open>Canonical paths print a stack of names\<close>

definition print_path :: "string list \<Rightarrow> string" where
  "print_path stack = (if stack = [] then ''/'' else concat (map (\<lambda>n. CHR ''/'' # n) stack))"

text \<open>The lexical meaning of one component: stay, drop the last name, or add a name.\<close>

definition canon_step :: "string \<Rightarrow> string list \<Rightarrow> string list" where
  "canon_step name stack =
     (if name = ''.'' then stack else if name = ''..'' then butlast stack
      else stack @ [map upcase name])"

definition stack_ok :: "string list \<Rightarrow> bool" where
  "stack_ok stack \<longleftrightarrow> length stack \<le> FS_PATH_DEPTH \<and> (\<forall>n\<in>set stack. name83 n \<and> map upcase n = n)"

definition canonical_inv :: "canonical \<Rightarrow> string list \<Rightarrow> bool" where
  "canonical_inv path stack \<longleftrightarrow>
     stack_ok stack \<and> length (ctext path) = FS_PATH_CAPACITY \<and>
     length (previous path) = FS_PATH_DEPTH + 1 \<and> ccount path = length stack \<and>
     clength path = length (print_path stack) \<and> clength path < FS_PATH_CAPACITY \<and>
     take (Suc (clength path)) (ctext path) = print_path stack @ [NUL] \<and>
     (\<forall>k<length stack. previous path ! k = length (print_path (take k stack)))"

lemma of_char_upcase:
  "(of_char (upcase c) :: nat) =
     (if 97 \<le> (of_char c :: nat) \<and> of_char c \<le> (122 :: nat) then of_char c - 32 else of_char c)"
  by (auto simp: upcase_def less_eq_char_def of_char_of intro!: mod_less)

lemma valid_byte_code:
  "valid_byte c \<longleftrightarrow>
     (let n = (of_char c :: nat) in (97 \<le> n \<and> n \<le> 122) \<or> (65 \<le> n \<and> n \<le> 90) \<or> (48 \<le> n \<and> n \<le> 57) \<or>
        n = 46 \<or> n = 95 \<or> n = 45)"
  by (simp add: valid_byte_def less_eq_char_def Let_def of_char_eq_iff [symmetric, where ?'a = nat]
        del: of_char_eq_iff)

lemma upcase_valid [simp]: "valid_byte c \<Longrightarrow> valid_byte (upcase c)"
  by (auto simp: valid_byte_code of_char_upcase Let_def)

lemma upcase_idem [simp]: "upcase (upcase c) = upcase c"
  by (simp add: of_char_eq_iff [symmetric, where ?'a = nat] of_char_upcase del: of_char_eq_iff) arith

lemma upcase_dot [simp]: "upcase c = CHR ''.'' \<longleftrightarrow> c = CHR ''.''"
  by (simp add: of_char_eq_iff [symmetric, where ?'a = nat] of_char_upcase del: of_char_eq_iff) arith

lemma map_upcase_idem [simp]: "map upcase (map upcase s) = map upcase s"
  by simp

lemma name_char_upcase: "list_all name_char s \<Longrightarrow> list_all name_char (map upcase s)"
  by (auto simp: list_all_iff name_char_def)

lemma name83_upcase: "name83 s \<Longrightarrow> name83 (map upcase s)"
proof -
  have tw: "takeWhile (\<lambda>c. c \<noteq> CHR ''.'') (map upcase s) = map upcase (takeWhile (\<lambda>c. c \<noteq> CHR ''.'') s)"
    by (simp add: takeWhile_map comp_def)
  have dw: "dropWhile (\<lambda>c. c \<noteq> CHR ''.'') (map upcase s) = map upcase (dropWhile (\<lambda>c. c \<noteq> CHR ''.'') s)"
    by (simp add: dropWhile_map comp_def)
  show "name83 s \<Longrightarrow> name83 (map upcase s)"
    unfolding name83_def tw dw Let_def by (auto simp: name_char_upcase map_tl [symmetric])
qed

lemma name83_char:
  assumes "name83 s" shows "list_all valid_byte s"
proof -
  define b r where "b = takeWhile (\<lambda>c. c \<noteq> CHR ''.'') s" and "r = dropWhile (\<lambda>c. c \<noteq> CHR ''.'') s"
  then have "s = b @ r" by simp
  moreover have "r \<noteq> [] \<Longrightarrow> hd r = CHR ''.''"
    unfolding r_def using hd_dropWhile [of "\<lambda>c. c \<noteq> CHR ''.''" s] by blast
  ultimately show ?thesis
    using assms unfolding name83_def b_def [symmetric] r_def [symmetric] Let_def
    by (cases r) (auto simp: list_all_iff name_char_def)
qed

lemma name83_facts:
  assumes "name83 s"
  shows "s \<noteq> []" "s \<noteq> ''.''" "s \<noteq> ''..''" "NUL \<notin> set s" "CHR ''/'' \<notin> set s" "length s < FS_NAME_CAPACITY"
proof -
  show "s \<noteq> []" "s \<noteq> ''.''" "s \<noteq> ''..''"
    using assms by (auto simp: name83_def)
  show "NUL \<notin> set s" using name83_char [OF assms] by (auto simp: list_all_iff)
  show "CHR ''/'' \<notin> set s"
    using name83_char [OF assms] by (auto simp: list_all_iff valid_byte_def)
  define b r where "b = takeWhile (\<lambda>c. c \<noteq> CHR ''.'') s" and "r = dropWhile (\<lambda>c. c \<noteq> CHR ''.'') s"
  then have "length s = length b + length r" by (metis length_append takeWhile_dropWhile_id)
  moreover have "length b \<le> 8" "length r \<le> 4"
    using assms unfolding name83_def b_def [symmetric] r_def [symmetric] Let_def
    by (cases r; simp)+
  ultimately show "length s < FS_NAME_CAPACITY" by (simp add: path_limits)
qed

section \<open>The canonical path tracks the stack\<close>

lemma print_path_snoc:
  "print_path (stack @ [n]) = print_path stack @ (if stack = [] then [] else ''/'') @ n"
  by (simp add: print_path_def)

lemma print_path_nonempty: "0 < length (print_path stack)"
  by (cases stack) (auto simp: print_path_def)

lemma print_path_gt1: "stack_ok stack \<Longrightarrow> 1 < length (print_path stack) \<longleftrightarrow> stack \<noteq> []"
  using name83_facts(1) by (cases stack) (auto simp: print_path_def stack_ok_def)

lemma print_path_no_NUL: "stack_ok stack \<Longrightarrow> NUL \<notin> set (print_path stack)"
  using name83_facts(4) by (auto simp: print_path_def stack_ok_def)

lemma print_path_butlast:
  "stack \<noteq> [] \<Longrightarrow> \<exists>tail. print_path stack = print_path (butlast stack) @ tail"
  by (metis append_butlast_last_id print_path_snoc)

lemma canonical_inv_cstr: "canonical_inv path stack \<Longrightarrow> cstr (ctext path) = print_path stack"
  by (rule cstr_eqI) (auto simp: canonical_inv_def print_path_no_NUL)

lemma canonical_inv_take:
  assumes "canonical_inv path stack" and "print_path stack = p @ t"
  shows "take (length p) (ctext path) = p"
proof -
  have "take (Suc (clength path)) (ctext path) = p @ t @ [NUL]" and "clength path = length p + length t"
    using assms by (auto simp: canonical_inv_def)
  from take_takeD [OF this(1), of "length p"] this(2) show ?thesis by simp
qed

lemma canonical_inv_pop:
  assumes "canonical_inv path stack"
  shows "canonical_inv (canonical_pop path) (butlast stack)"
proof (cases "stack = []")
  case True
  have "take 2 (blit (ctext path) 1 [NUL]) = take 1 (ctext path) @ [NUL]"
    using take_blit [of 1 "[NUL]" "ctext path"] assms
    by (simp add: canonical_inv_def path_limits numeral_2_eq_2)
  moreover have "take 1 (ctext path) = ''/''"
    using canonical_inv_take [OF assms, of "''/''" "[]"] True by (simp add: print_path_def)
  ultimately show ?thesis
    using assms True
    by (auto simp: canonical_inv_def canonical_pop_def print_path_def buf_simps path_limits numeral_2_eq_2)
next
  case False
  define n where "n = length (print_path (butlast stack))"
  have prev: "previous path ! (length stack - 1) = n"
    using assms False by (auto simp: canonical_inv_def n_def butlast_conv_take)
  obtain tail where tail: "print_path stack = print_path (butlast stack) @ tail"
    using print_path_butlast [OF False] by blast
  then have nle: "n \<le> clength path" and clen: "clength path < length (ctext path)"
    using assms by (auto simp: canonical_inv_def n_def)
  have "take n (ctext path) = print_path (butlast stack)"
    using canonical_inv_take [OF assms tail] by (simp add: n_def)
  then have "take (Suc n) (blit (ctext path) n [NUL]) = print_path (butlast stack) @ [NUL]"
    using take_blit [of n "[NUL]" "ctext path"] nle clen by simp
  moreover have "stack_ok (butlast stack)"
    using assms by (auto simp: canonical_inv_def stack_ok_def dest: in_set_butlastD)
  ultimately show ?thesis
    using assms False prev nle clen
    by (auto simp: canonical_inv_def canonical_pop_def n_def [symmetric] buf_simps take_butlast)
qed

lemma canonical_push_text:
  assumes "canonical_inv path stack" and "slash = (if clength path > 1 then 1 else 0)"
    and "length n < FS_PATH_CAPACITY - clength path - slash"
  defines "q \<equiv> canonical_push path slash n"
  shows "length (ctext q) = FS_PATH_CAPACITY" and "clength q = length (print_path (stack @ [n]))"
    and "clength q < FS_PATH_CAPACITY" and "take (Suc (clength q)) (ctext q) = print_path (stack @ [n]) @ [NUL]"
proof -
  have inv: "clength path = length (print_path stack)" "length (ctext path) = FS_PATH_CAPACITY"
      "slash = (if stack = [] then 0 else 1)"
    using assms(1,2) print_path_gt1 [of stack] by (auto simp: canonical_inv_def)
  have pre: "take (clength path) (ctext path) = print_path stack"
    using canonical_inv_take [OF assms(1), of "print_path stack" "[]"] inv by simp
  define buf where "buf = (if stack = [] then ctext path else blit (ctext path) (clength path) ''/'')"
  define off where "off = clength path + slash"
  have q: "ctext q = blit buf off (n @ [NUL])" "clength q = off + length n"
    using inv by (auto simp: q_def canonical_push_def Let_def buf_def off_def)
  have buf: "length buf = FS_PATH_CAPACITY" and bound: "off + length (n @ [NUL]) \<le> length buf"
    and head: "take off buf = print_path stack @ (if stack = [] then [] else ''/'')"
    using assms(3) inv pre take_blit [of "clength path" "''/''" "ctext path"]
    by (auto simp: buf_def off_def buf_simps)
  show "length (ctext q) = FS_PATH_CAPACITY" using q buf bound by (simp add: buf_simps)
  show "clength q = length (print_path (stack @ [n]))"
    using q inv by (simp add: print_path_snoc off_def)
  show "clength q < FS_PATH_CAPACITY" using q buf bound by simp
  show "take (Suc (clength q)) (ctext q) = print_path (stack @ [n]) @ [NUL]"
    using q head take_blit [OF bound] by (simp add: print_path_snoc)
qed

lemma canonical_inv_push:
  assumes "canonical_inv path stack" and "slash = (if clength path > 1 then 1 else 0)"
    and "length n < FS_PATH_CAPACITY - clength path - slash"
    and "name83 n" and "map upcase n = n" and "ccount path \<noteq> FS_PATH_DEPTH"
  shows "canonical_inv (canonical_push path slash n) (stack @ [n])"
proof -
  note t = canonical_push_text [OF assms(1-3)]
  have frame: "previous (canonical_push path slash n) = (previous path)[ccount path := clength path]"
    "ccount (canonical_push path slash n) = ccount path + 1"
    by (auto simp: canonical_push_def Let_def)
  have "previous (canonical_push path slash n) ! k = length (print_path (take k (stack @ [n])))"
    if "k < Suc (length stack)" for k
    using that assms(1,6) by (auto simp: frame canonical_inv_def stack_ok_def less_Suc_eq nth_list_update)
  moreover have "stack_ok (stack @ [n])"
    using assms by (auto simp: canonical_inv_def stack_ok_def)
  ultimately show ?thesis
    using t assms(1) by (simp add: canonical_inv_def frame)
qed

end
