(* ===== verification/Rum_Path_Parse.thy ===== *)
theory Rum_Path_Parse
  imports Rum_Path
begin

text \<open>
  The meaning of \<open>apply_path\<close> and \<open>fs_path_parse\<close> (kernel/fs/path.c): the canonical text is the
  printed stack that the components of the base and of the input build, the token buffers are
  upper-cased in place without disturbing one another, and a canonical path parses to itself.
\<close>

section \<open>Tokens of a buffer under an in-place rewrite\<close>

lemma cstr_append: "NUL \<notin> set s \<Longrightarrow> cstr (s @ r) = s @ cstr r"
  by (induction s) (auto simp: cstr_def)

lemma cstr_take_Suc:
  assumes "length (cstr a) < length a" and "take (Suc (length (cstr a))) b = take (Suc (length (cstr a))) a"
  shows "cstr b = cstr a"
proof -
  have "take (Suc (length (cstr a))) a = cstr a @ [NUL]"
    using assms(1) nth_length_takeWhile [of "\<lambda>c. c \<noteq> NUL" a]
    by (simp add: cstr_def take_Suc_conv_app_nth takeWhile_eq_take [symmetric])
  with assms(2) show ?thesis by (intro cstr_eqI [OF cstr_no_NUL]) simp
qed

lemma token_at_length: "token_at buf off \<noteq> [] \<Longrightarrow> off + length (token_at buf off) \<le> length buf"
  using length_takeWhile_le [of "\<lambda>c. c \<noteq> NUL" "drop off buf"]
  by (cases "off \<le> length buf") (auto simp: token_at_def cstr_def)

lemma token_at_blit_before:
  assumes "gap buf o1 o2" and "o2 + length u \<le> length buf"
  shows "token_at (blit buf o2 u) o1 = token_at buf o1"
proof -
  have "take (Suc (length (token_at buf o1))) (drop o1 (blit buf o2 u)) =
        take (Suc (length (token_at buf o1))) (drop o1 buf)"
    using assms take_blit_before [of "Suc (o1 + length (token_at buf o1))" o2 buf u]
    by (simp add: take_drop gap_def add.commute)
  then show ?thesis
    using assms unfolding token_at_def gap_def by (intro cstr_take_Suc) auto
qed

lemma token_at_blit_after:
  "o1 + length u < o2 \<Longrightarrow> o1 + length u \<le> length buf \<Longrightarrow> token_at (blit buf o1 u) o2 = token_at buf o2"
  by (simp add: token_at_def drop_blit_after)

lemma token_at_blit_same:
  assumes "length u = length (token_at buf o1)" and "NUL \<notin> set u" and "o1 \<le> length buf"
  shows "token_at (blit buf o1 u) o1 = u"
proof -
  have "drop (o1 + length u) buf = dropWhile (\<lambda>c. c \<noteq> NUL) (drop o1 buf)"
    using assms(1) by (simp add: token_at_def cstr_def dropWhile_eq_drop add.commute)
  then have "cstr (drop (o1 + length u) buf) = []"
    using hd_dropWhile [of "\<lambda>c. c \<noteq> NUL" "drop o1 buf"]
    by (cases "dropWhile (\<lambda>c. c \<noteq> NUL) (drop o1 buf)") (auto simp: cstr_def)
  then show ?thesis
    using assms by (simp add: token_at_def blit_def cstr_append)
qed

lemma tokens_blit_head:
  assumes "sorted_wrt (gap buf) (o1 # offs)" and "u = map upcase (token_at buf o1)"
    and "o1 + length u \<le> length buf"
  shows "map (token_at (blit buf o1 u)) offs = map (token_at buf) offs"
    and "sorted_wrt (gap (blit buf o1 u)) offs"
proof -
  have tok: "token_at (blit buf o1 u) o2 = token_at buf o2" if "o2 \<in> set offs" for o2
    using assms that by (intro token_at_blit_after) (auto simp: gap_def)
  then show "map (token_at (blit buf o1 u)) offs = map (token_at buf) offs" by simp
  show "sorted_wrt (gap (blit buf o1 u)) offs"
    by (rule sorted_wrt_mono_rel [of _ "gap buf"]) (use assms tok in \<open>auto simp: gap_def\<close>)
qed

section \<open>Applying the tokens\<close>

text \<open>One accepted name: what the loop body does when no guard fires.\<close>

lemma apply_name_step:
  assumes "apply_tokens path tokens (off # offs) = (FS_OK, path', tokens')"
    and "token_at (tok_text tokens) off \<notin> {''.'', ''..''}"
  defines "u \<equiv> map upcase (token_at (tok_text tokens) off)"
    and "slash \<equiv> (if clength path > 1 then 1 else 0)"
  shows "name83 (token_at (tok_text tokens) off)" and "ccount path \<noteq> FS_PATH_DEPTH"
    and "length u < FS_PATH_CAPACITY - clength path - slash"
    and "off + length u \<le> length (tok_text tokens)"
    and "apply_tokens (canonical_push path slash u)
           (tokens\<lparr>tok_text := blit (tok_text tokens) off u\<rparr>) offs = (FS_OK, path', tokens')"
proof -
  have *: "name83 (token_at (tok_text tokens) off) \<and> ccount path \<noteq> FS_PATH_DEPTH \<and>
        length u < FS_PATH_CAPACITY - clength path - slash \<and>
        apply_tokens (canonical_push path slash u)
           (tokens\<lparr>tok_text := blit (tok_text tokens) off u\<rparr>) offs = (FS_OK, path', tokens')"
    using assms(1,2) fs_name_check_iff [of "token_at (tok_text tokens) off"]
    unfolding u_def slash_def by (auto simp: Let_def split: if_splits)
  then show "name83 (token_at (tok_text tokens) off)" "ccount path \<noteq> FS_PATH_DEPTH"
      "length u < FS_PATH_CAPACITY - clength path - slash"
      "apply_tokens (canonical_push path slash u)
         (tokens\<lparr>tok_text := blit (tok_text tokens) off u\<rparr>) offs = (FS_OK, path', tokens')"
    by auto
  show "off + length u \<le> length (tok_text tokens)"
    using * name83_facts(1) token_at_length [of "tok_text tokens" off] by (auto simp: u_def)
qed

lemma apply_tokens_sound:
  assumes "apply_tokens path tokens offs = (FS_OK, path', tokens')"
    and "canonical_inv path stack" and "sorted_wrt (gap (tok_text tokens)) offs"
  shows "canonical_inv path' (fold canon_step (map (token_at (tok_text tokens)) offs) stack)"
  using assms
proof (induction offs arbitrary: path tokens stack)
  case Nil
  then show ?case by simp
next
  case (Cons off offs)
  let ?name = "token_at (tok_text tokens) off"
  consider (dot) "?name = ''.''" | (dots) "?name = ''..''" | (plain) "?name \<notin> {''.'', ''..''}"
    by blast
  then show ?case
  proof cases
    case dot
    with Cons.prems have "apply_tokens path tokens offs = (FS_OK, path', tokens')" by simp
    from Cons.IH [OF this Cons.prems(2)] dot Cons.prems(3) show ?thesis
      by (simp add: canon_step_def)
  next
    case dots
    with Cons.prems have "apply_tokens (canonical_pop path) tokens offs = (FS_OK, path', tokens')"
      by simp
    from Cons.IH [OF this canonical_inv_pop [OF Cons.prems(2)]] dots Cons.prems(3) show ?thesis
      by (simp add: canon_step_def)
  next
    case plain
    note step = apply_name_step [OF Cons.prems(1) plain]
    note head = tokens_blit_head [OF Cons.prems(3) refl step(4)]
    have "canonical_inv (canonical_push path (if clength path > 1 then 1 else 0) (map upcase ?name))
            (stack @ [map upcase ?name])"
      using step Cons.prems(2) by (intro canonical_inv_push) (auto simp: name83_upcase)
    from Cons.IH [OF step(5) this] head plain show ?thesis by (simp add: canon_step_def)
  qed
qed

text \<open>Upper-casing in place: every token ends up normalised, earlier tokens are untouched.\<close>

definition norm_name :: "string \<Rightarrow> string" where
  "norm_name n = (if n \<in> {''.'', ''..''} then n else map upcase n)"

lemma apply_tokens_frame:
  assumes "apply_tokens path tokens offs = (FS_OK, path', tokens')"
    and "sorted_wrt (gap (tok_text tokens)) (o1 # offs)"
  shows "token_at (tok_text tokens') o1 = token_at (tok_text tokens) o1"
  using assms
proof (induction offs arbitrary: path tokens)
  case Nil
  then show ?case by simp
next
  case (Cons off offs)
  show ?case
  proof (cases "token_at (tok_text tokens) off \<in> {''.'', ''..''}")
    case True
    with Cons.prems Cons.IH [of _ tokens] show ?thesis by (auto split: if_splits)
  next
    case False
    note step = apply_name_step [OF Cons.prems(1) False]
    let ?u = "map upcase (token_at (tok_text tokens) off)"
    have keep: "token_at (blit (tok_text tokens) off ?u) o1 = token_at (tok_text tokens) o1"
      using Cons.prems(2) step(4) by (intro token_at_blit_before) auto
    have rest: "map (token_at (blit (tok_text tokens) off ?u)) offs = map (token_at (tok_text tokens)) offs"
      and sorted: "sorted_wrt (gap (blit (tok_text tokens) off ?u)) offs"
      using tokens_blit_head [OF _ refl step(4), of offs] Cons.prems(2) by auto
    have "sorted_wrt (gap (blit (tok_text tokens) off ?u)) (o1 # offs)"
      using Cons.prems(2) keep sorted by (auto simp: gap_def)
    with Cons.IH [OF step(5)] keep show ?thesis by simp
  qed
qed

lemma apply_tokens_shape:
  assumes "apply_tokens path tokens offs = (FS_OK, path', tokens')"
  shows "length (tok_text tokens') = length (tok_text tokens) \<and> tok_offsets tokens' = tok_offsets tokens \<and>
         tok_absolute tokens' = tok_absolute tokens \<and> tok_directory tokens' = tok_directory tokens"
  using assms
proof (induction offs arbitrary: path tokens)
  case Nil
  then show ?case by simp
next
  case (Cons off offs)
  show ?case
  proof (cases "token_at (tok_text tokens) off \<in> {''.'', ''..''}")
    case True
    with Cons.prems Cons.IH [of _ tokens] show ?thesis by (auto split: if_splits)
  next
    case False
    note step = apply_name_step [OF Cons.prems(1) False]
    from Cons.IH [OF step(5)] step(4) show ?thesis by (simp add: length_blit)
  qed
qed

lemma apply_tokens_names:
  assumes "apply_tokens path tokens offs = (FS_OK, path', tokens')"
    and "sorted_wrt (gap (tok_text tokens)) offs"
  shows "map (token_at (tok_text tokens')) offs = map norm_name (map (token_at (tok_text tokens)) offs)"
  using assms
proof (induction offs arbitrary: path tokens)
  case Nil
  then show ?case by simp
next
  case (Cons off offs)
  show ?case
  proof (cases "token_at (tok_text tokens) off \<in> {''.'', ''..''}")
    case True
    then obtain p where p: "apply_tokens p tokens offs = (FS_OK, path', tokens')"
      using Cons.prems(1) by (auto split: if_splits)
    from Cons.IH [OF p] apply_tokens_frame [OF p Cons.prems(2)] Cons.prems(2) True
    show ?thesis by (simp add: norm_name_def)
  next
    case False
    note step = apply_name_step [OF Cons.prems(1) False]
    note head = tokens_blit_head [OF Cons.prems(2) refl step(4)]
    let ?u = "map upcase (token_at (tok_text tokens) off)"
    have u: "token_at (blit (tok_text tokens) off ?u) off = ?u"
      using step(4) name83_facts(4) [OF name83_upcase [OF step(1)]] by (intro token_at_blit_same) auto
    have "sorted_wrt (gap (blit (tok_text tokens) off ?u)) (off # offs)"
      using Cons.prems(2) head(2) u by (auto simp: gap_def)
    with apply_tokens_frame [OF step(5), of off] Cons.IH [OF step(5)] head u False
    show ?thesis by (simp add: norm_name_def)
  qed
qed

section \<open>Which paths are accepted\<close>

lemma print_path_prefix: "length (print_path stack) \<le> length (print_path (stack @ rest))"
proof (induction rest rule: rev_induct)
  case (snoc n rest)
  then show ?case using print_path_snoc [of "stack @ rest" n] by simp
qed simp

lemma apply_tokens_complete:
  assumes "canonical_inv path stack" and "sorted_wrt (gap (tok_text tokens)) offs"
    and "\<forall>n\<in>set (map (token_at (tok_text tokens)) offs). name83 n"
    and "length stack + length offs \<le> FS_PATH_DEPTH"
    and "length (print_path (stack @ map (map upcase \<circ> token_at (tok_text tokens)) offs)) < FS_PATH_CAPACITY"
  shows "\<exists>path' tokens'. apply_tokens path tokens offs = (FS_OK, path', tokens')"
  using assms
proof (induction offs arbitrary: path tokens stack)
  case Nil
  then show ?case by simp
next
  case (Cons off offs)
  let ?name = "token_at (tok_text tokens) off"
  let ?u = "map upcase ?name"
  let ?slash = "if clength path > 1 then 1 else 0"
  have n83: "name83 ?name" using Cons.prems by simp
  note facts = name83_facts [OF n83]
  have fits: "off + length ?u \<le> length (tok_text tokens)"
    using token_at_length [OF facts(1)] by simp
  note head = tokens_blit_head [OF Cons.prems(2) refl fits]
  have "length (print_path (stack @ [?u])) < FS_PATH_CAPACITY"
    using Cons.prems(5) print_path_prefix [of "stack @ [?u]"] by (auto simp: comp_def intro: le_less_trans)
  then have guard: "length ?u < FS_PATH_CAPACITY - clength path - ?slash"
    using Cons.prems(1) print_path_gt1 [of stack] by (auto simp: canonical_inv_def print_path_snoc split: if_splits)
  have depth: "ccount path \<noteq> FS_PATH_DEPTH"
    using Cons.prems(1,4) by (auto simp: canonical_inv_def)
  have inv: "canonical_inv (canonical_push path ?slash ?u) (stack @ [?u])"
    using Cons.prems(1) guard depth n83 by (intro canonical_inv_push) (auto simp: name83_upcase)
  have same: "map (map upcase \<circ> token_at (blit (tok_text tokens) off ?u)) offs =
              map (map upcase \<circ> token_at (tok_text tokens)) offs"
    using head(1) by (metis map_map)
  have "\<exists>path' tokens'. apply_tokens (canonical_push path ?slash ?u)
          (tokens\<lparr>tok_text := blit (tok_text tokens) off ?u\<rparr>) offs = (FS_OK, path', tokens')"
    by (rule Cons.IH [OF inv]) (use head same Cons.prems in \<open>auto cong: map_cong\<close>)
  with guard depth facts n83 fs_name_check_iff [of ?name] show ?case by (auto simp: Let_def)
qed

section \<open>Parsing\<close>

text \<open>The lexical meaning of a path against a base, as a stack of names.\<close>

definition resolve :: "string \<Rightarrow> string \<Rightarrow> string list" where
  "resolve base input =
     fold canon_step (components [] input)
       (if hd input = CHR ''/'' then [] else fold canon_step (components [] base) [])"

lemma canonical_inv_root:
  "length buf = FS_PATH_CAPACITY \<Longrightarrow> take 2 buf = [CHR ''/'', NUL] \<Longrightarrow> canonical_inv (root_canonical buf) []"
  by (simp add: canonical_inv_def root_canonical_def stack_ok_def print_path_def path_limits numeral_2_eq_2)

lemma root_buffer: "canonical_inv (root_canonical ((replicate FS_PATH_CAPACITY NUL)[0 := CHR ''/''])) []"
  by (rule canonical_inv_root) (simp_all add: path_limits numeral_eq_Suc)

lemma root_restart:
  assumes "canonical_inv path stack"
  shows "canonical_inv (root_canonical ((ctext path)[1 := NUL])) []"
proof (rule canonical_inv_root)
  show "length ((ctext path)[1 := NUL]) = FS_PATH_CAPACITY"
    using assms by (simp add: canonical_inv_def)
  obtain t where "print_path stack = ''/'' @ t" by (cases stack) (auto simp: print_path_def)
  from canonical_inv_take [OF assms this] have "take 1 (ctext path) = ''/''" by simp
  moreover have "length (ctext path) = FS_PATH_CAPACITY" using assms by (simp add: canonical_inv_def)
  ultimately show "take 2 ((ctext path)[1 := NUL]) = [CHR ''/'', NUL]"
    by (cases "ctext path"; cases "tl (ctext path)") (auto simp: path_limits numeral_2_eq_2)
qed

text \<open>The intermediate results of a successful parse.\<close>

lemma fs_path_parse_stages:
  assumes "fs_path_parse (Some base) (Some input) = Inr r"
  obtains bt it p0 p1 where
    "collect (Some base) = Inr bt" "tok_absolute bt" "collect (Some input) = Inr it"
    "apply_path (root_canonical ((replicate FS_PATH_CAPACITY NUL)[0 := CHR ''/''])) bt =
       (FS_OK, p0, path_base r)"
    "apply_path (if tok_absolute it then root_canonical ((ctext p0)[1 := NUL]) else p0) it =
       (FS_OK, p1, path_input r)"
    "path_canonical r = ctext p1" "path_depth r = ccount p1"
  using assms unfolding fs_path_parse_def
  by (auto simp: Let_def split: sum.splits prod.splits if_splits)

lemma apply_path_collected:
  assumes "collect (Some s) = Inr t" and "apply_path p t = (FS_OK, p', t')" and "canonical_inv p stack"
  shows "canonical_inv p' (fold canon_step (components [] s) stack)"
    and "map (token_at (tok_text t')) (tok_offsets t') = map norm_name (components [] s)"
    and "length (tok_text t') = FS_PATH_CAPACITY" and "path_input_ok s"
    and "tok_absolute t' = (hd s = CHR ''/'')" and "tok_absolute t = (hd s = CHR ''/'')"
proof -
  have t: "path_input_ok s" "tokens_of s t"
    using collect_correct [of s] assms(1) by (auto simp: collect_spec_def)
  then show "path_input_ok s" by simp
  have s: "sorted_wrt (gap (tok_text t)) (tok_offsets t)"
      "map (token_at (tok_text t)) (tok_offsets t) = components [] s"
    using t by (auto simp: tokens_of_def)
  note app = assms(2) [unfolded apply_path_def]
  from apply_tokens_sound [OF app assms(3) s(1)] s(2)
  show "canonical_inv p' (fold canon_step (components [] s) stack)" by simp
  from apply_tokens_names [OF app s(1)] apply_tokens_shape [OF app] s(2)
  show "map (token_at (tok_text t')) (tok_offsets t') = map norm_name (components [] s)" by simp
  show "length (tok_text t') = FS_PATH_CAPACITY" "tok_absolute t' = (hd s = CHR ''/'')"
      "tok_absolute t = (hd s = CHR ''/'')"
    using apply_tokens_shape [OF app] t by (auto simp: tokens_of_def)
qed

definition parsed :: "string \<Rightarrow> string \<Rightarrow> fs_path \<Rightarrow> bool" where
  "parsed base input r \<longleftrightarrow>
     stack_ok (resolve base input) \<and>
     cstr (path_canonical r) = print_path (resolve base input) \<and>
     path_depth r = length (resolve base input) \<and>
     length (path_canonical r) = FS_PATH_CAPACITY \<and>
     length (print_path (resolve base input)) < FS_PATH_CAPACITY \<and>
     length (tok_text (path_base r)) = FS_PATH_CAPACITY \<and>
     length (tok_text (path_input r)) = FS_PATH_CAPACITY \<and>
     map (token_at (tok_text (path_base r))) (tok_offsets (path_base r)) = map norm_name (components [] base) \<and>
     map (token_at (tok_text (path_input r))) (tok_offsets (path_input r)) = map norm_name (components [] input)"

lemma fs_path_parse_parsed:
  assumes "fs_path_parse (Some base) (Some input) = Inr r"
  shows "parsed base input r"
proof -
  from assms obtain bt it p0 p1 where stages:
      "collect (Some base) = Inr bt" "tok_absolute bt" "collect (Some input) = Inr it"
      "apply_path (root_canonical ((replicate FS_PATH_CAPACITY NUL)[0 := CHR ''/''])) bt =
         (FS_OK, p0, path_base r)"
      "apply_path (if tok_absolute it then root_canonical ((ctext p0)[1 := NUL]) else p0) it =
         (FS_OK, p1, path_input r)"
      "path_canonical r = ctext p1" "path_depth r = ccount p1"
    by (rule fs_path_parse_stages)
  note b = apply_path_collected [OF stages(1,4) root_buffer]
  have abs: "tok_absolute it = (hd input = CHR ''/'')"
    using collect_correct [of input] stages(3) by (simp add: collect_spec_def tokens_of_def)
  have "canonical_inv (if tok_absolute it then root_canonical ((ctext p0)[1 := NUL]) else p0)
          (if hd input = CHR ''/'' then [] else fold canon_step (components [] base) [])"
    using b(1) root_restart [OF b(1)] abs by simp
  note i = apply_path_collected [OF stages(3,5) this]
  have "canonical_inv p1 (resolve base input)" using i(1) by (simp add: resolve_def)
  then show ?thesis
    using canonical_inv_cstr [of p1] b(2,3) i(2,3) stages(6,7)
    by (auto simp: parsed_def canonical_inv_def)
qed

section \<open>Canonical paths are fixed points\<close>

lemma components_print:
  "n \<noteq> [] \<Longrightarrow> CHR ''/'' \<notin> set n \<Longrightarrow> \<forall>m\<in>set ns. m \<noteq> [] \<and> CHR ''/'' \<notin> set m \<Longrightarrow>
     components [] (n @ concat (map ((#) (CHR ''/'')) ns)) = n # ns"
  by (induction ns arbitrary: n) (auto simp: components_last components_cons)

lemma components_print_path: "stack_ok stack \<Longrightarrow> components [] (print_path stack) = stack"
  using name83_facts(1,5)
  by (cases stack) (auto simp: print_path_def stack_ok_def intro!: components_print)

lemma path_input_ok_print_path:
  assumes "stack_ok stack" and "length (print_path stack) < FS_PATH_CAPACITY"
  shows "path_input_ok (print_path stack)"
proof -
  have "list_all path_byte (print_path stack)"
    using assms(1) name83_char
    by (auto simp: print_path_def stack_ok_def list_all_iff path_byte_def)
  then show ?thesis
    using assms print_path_nonempty [of stack] name83_facts(6)
    by (auto simp: path_input_ok_def components_print_path stack_ok_def)
qed

lemma fold_canon_step_plain:
  "\<forall>n\<in>set names. name83 n \<and> map upcase n = n \<Longrightarrow> fold canon_step names stack = stack @ names"
proof (induction names arbitrary: stack)
  case (Cons n names)
  then have "canon_step n stack = stack @ [n]"
    using name83_facts(2,3) [of n] by (simp add: canon_step_def)
  with Cons show ?case by simp
qed simp

lemma apply_path_stack:
  assumes "stack_ok stack" and "length (print_path stack) < FS_PATH_CAPACITY"
    and "collect (Some (print_path stack)) = Inr t" and "canonical_inv p []"
  shows "\<exists>p' t'. apply_path p t = (FS_OK, p', t')"
proof -
  have t: "tokens_of (print_path stack) t"
    using collect_correct [of "print_path stack"] assms(3) by (simp add: collect_spec_def)
  then have names: "map (token_at (tok_text t)) (tok_offsets t) = stack"
    using assms(1) by (simp add: tokens_of_def components_print_path)
  have upper: "map (map upcase \<circ> token_at (tok_text t)) (tok_offsets t) = stack"
    using names assms(1) by (metis map_map map_idI stack_ok_def)
  have "length (tok_offsets t) = length stack" using names by (metis length_map)
  with assms(1) have depth: "length [] + length (tok_offsets t) \<le> FS_PATH_DEPTH"
    by (simp add: stack_ok_def)
  have n83: "\<forall>n\<in>set (map (token_at (tok_text t)) (tok_offsets t)). name83 n"
    unfolding names using assms(1) by (simp add: stack_ok_def)
  have sorted: "sorted_wrt (gap (tok_text t)) (tok_offsets t)"
    using t by (simp add: tokens_of_def)
  show ?thesis unfolding apply_path_def
    by (rule apply_tokens_complete [OF assms(4) sorted n83 depth]) (simp only: upper append_Nil assms(2))
qed

lemma fs_path_parse_print:
  assumes "stack_ok stack" and "length (print_path stack) < FS_PATH_CAPACITY"
  shows "\<exists>r. fs_path_parse (Some ''/'') (Some (print_path stack)) = Inr r"
proof -
  have nil: "stack_ok []" "print_path [] = ''/''" "length (print_path []) < FS_PATH_CAPACITY"
    by (auto simp: stack_ok_def print_path_def path_limits)
  obtain bt where bt: "collect (Some ''/'') = Inr bt" "tok_absolute bt"
    using collect_correct [of "''/''"] path_input_ok_print_path [OF nil(1,3)] nil(2)
    by (auto simp: collect_spec_def tokens_of_def split: sum.splits)
  obtain it where it: "collect (Some (print_path stack)) = Inr it" "tok_absolute it"
    using collect_correct [of "print_path stack"] path_input_ok_print_path [OF assms]
    by (cases stack) (auto simp: collect_spec_def tokens_of_def print_path_def split: sum.splits)
  obtain p0 b' where p0: "apply_path (root_canonical ((replicate FS_PATH_CAPACITY NUL)[0 := CHR ''/''])) bt =
      (FS_OK, p0, b')"
    using apply_path_stack [OF nil(1,3) _ root_buffer] bt nil(2) by metis
  note inv = apply_path_collected(1) [OF bt(1) p0 root_buffer]
  obtain p1 i' where "apply_path (root_canonical ((ctext p0)[1 := NUL])) it = (FS_OK, p1, i')"
    using apply_path_stack [OF assms it(1) root_restart [OF inv]] by blast
  with bt it p0 show ?thesis by (simp add: fs_path_parse_def)
qed

lemma resolve_print_path: "stack_ok stack \<Longrightarrow> resolve base (print_path stack) = stack"
  using fold_canon_step_plain [of stack "[]"] components_print_path [of stack]
  by (cases stack) (auto simp: resolve_def stack_ok_def print_path_def)

section \<open>Errors of the parser\<close>

lemma name_check_loop_errors:
  "name_check_loop i base extension dot s \<in> {FS_OK, FS_INVALID, FS_NAME_TOO_LONG}"
  by (induction i base extension dot s rule: name_check_loop.induct) auto

lemma apply_tokens_errors:
  "fst (apply_tokens path tokens offs) \<in> {FS_OK, FS_INVALID, FS_NAME_TOO_LONG, FS_TOO_DEEP, FS_PATH_TOO_LONG}"
proof (induction path tokens offs rule: apply_tokens.induct)
  case (2 path tokens off offs)
  have "fs_name_check FS_NAMES_FAT83 (Some n) \<in> {FS_OK, FS_INVALID, FS_NAME_TOO_LONG}" for n
    using name_check_loop_errors by (simp add: fs_name_check_def)
  from this [of "token_at (tok_text tokens) off"] 2 show ?case by (auto simp: Let_def)
qed simp

lemma collect_errors: "collect s = Inl e \<Longrightarrow> e \<in> {FS_INVALID, FS_PATH_TOO_LONG, FS_NAME_TOO_LONG}"
proof (cases s)
  case None
  then show "collect s = Inl e \<Longrightarrow> ?thesis" by (simp add: collect_def)
next
  case (Some str)
  with collect_correct [of str] show "collect s = Inl e \<Longrightarrow> ?thesis" by (simp add: collect_spec_def)
qed

section \<open>Properties\<close>

text \<open>C13: a component name is accepted exactly when naming is FAT 8.3 and the name has one to
  eight name characters, optionally followed by a dot and one to three more.\<close>

theorem fs_name_check_shape:
  "fs_name_check naming name = FS_OK \<longleftrightarrow> naming = FS_NAMES_FAT83 \<and> name \<noteq> None \<and> name83 (the name)"
  by (cases name; cases "naming = FS_NAMES_FAT83") (simp_all add: fs_name_check_iff, simp_all add: fs_name_check_def)

text \<open>C12: tokenising succeeds exactly on nonempty paths of valid bytes that fit the buffer and
  whose components fit the name capacity. The tokens are then the nonempty components in order,
  at increasing offsets inside the 256-byte buffer and the 128-entry table; the depth guard of
  the tokeniser is never taken.\<close>

theorem collect_tokens: "collect_spec s (collect (Some s))"
  by (rule collect_correct)

text \<open>C1: a successful parse returns the canonical text of the stack of upper-cased 8.3 names that
  the base and the input denote (an absolute input restarts at the root, dots stay, double dots
  drop the last name), its depth, and the normalised tokens of both arguments; every buffer
  keeps its 256 bytes.\<close>

theorem fs_path_parse_refines:
  assumes "fs_path_parse (Some base) (Some input) = Inr r"
  shows "parsed base input r"
  using assms by (rule fs_path_parse_parsed)

theorem fs_path_parse_refines_witness:
  "\<exists>r. fs_path_parse (Some ''/a'') (Some ''b/../c.x'') = Inr r \<and> parsed ''/a'' ''b/../c.x'' r \<and>
       cstr (path_canonical r) = ''/A/C.X''"
proof -
  have "case fs_path_parse (Some ''/a'') (Some ''b/../c.x'') of
          Inr r \<Rightarrow> cstr (path_canonical r) = ''/A/C.X'' | Inl _ \<Rightarrow> False"
    by code_simp
  then obtain r where r: "fs_path_parse (Some ''/a'') (Some ''b/../c.x'') = Inr r"
      "cstr (path_canonical r) = ''/A/C.X''"
    by (cases "fs_path_parse (Some ''/a'') (Some ''b/../c.x'')") auto
  from fs_path_parse_refines [OF r(1)] r show ?thesis by blast
qed

text \<open>C11: a canonical path is a fixed point. Parsing the canonical text of any parse result
  succeeds and returns the same canonical text and depth, whatever the first base was.\<close>

theorem fs_path_parse_canonical:
  assumes "fs_path_parse (Some base) (Some input) = Inr r"
  shows "\<exists>r'. fs_path_parse (Some ''/'') (Some (cstr (path_canonical r))) = Inr r' \<and>
              cstr (path_canonical r') = cstr (path_canonical r) \<and> path_depth r' = path_depth r"
proof -
  have r: "stack_ok (resolve base input)" "cstr (path_canonical r) = print_path (resolve base input)"
      "length (print_path (resolve base input)) < FS_PATH_CAPACITY"
      "path_depth r = length (resolve base input)"
    using fs_path_parse_parsed [OF assms] by (auto simp: parsed_def)
  obtain r' where r': "fs_path_parse (Some ''/'') (Some (cstr (path_canonical r))) = Inr r'"
    using fs_path_parse_print [OF r(1,3)] r(2) by auto
  from fs_path_parse_parsed [OF this] r r' show ?thesis
    by (auto simp: parsed_def resolve_print_path)
qed

theorem fs_path_parse_canonical_witness:
  "\<exists>r'. fs_path_parse (Some ''/'') (Some ''/A/C'') = Inr r' \<and> cstr (path_canonical r') = ''/A/C'' \<and>
        path_depth r' = 2"
proof -
  have "case fs_path_parse (Some ''/a'') (Some ''./c/'') of
          Inr r \<Rightarrow> cstr (path_canonical r) = ''/A/C'' \<and> path_depth r = 2 | Inl _ \<Rightarrow> False"
    by code_simp
  then obtain r where r: "fs_path_parse (Some ''/a'') (Some ''./c/'') = Inr r"
      "cstr (path_canonical r) = ''/A/C''" "path_depth r = 2"
    by (cases "fs_path_parse (Some ''/a'') (Some ''./c/'')") auto
  from fs_path_parse_canonical [OF r(1)] r(2,3) show ?thesis by simp
qed

lemma fs_path_parse_error_set:
  assumes "fs_path_parse base input = Inl e"
  shows "e \<in> {FS_INVALID, FS_PATH_TOO_LONG, FS_NAME_TOO_LONG, FS_TOO_DEEP}"
proof -
  have "e \<in> {FS_INVALID, FS_PATH_TOO_LONG, FS_NAME_TOO_LONG, FS_TOO_DEEP}"
    if "apply_path p t = (e, q)" "e \<noteq> FS_OK" for p t q
    using apply_tokens_errors [of p t "tok_offsets t"] that by (auto simp: apply_path_def)
  then show ?thesis
    using assms collect_errors unfolding fs_path_parse_def
    by (fastforce simp: Let_def split: sum.splits prod.splits if_splits)
qed



end
