(* ===== verification/Rum_Layout.thy ===== *)
theory Rum_Layout
  imports Rum_Prelude
begin

text \<open>
  The address-space layout, \<open>kernel/include/rum/memory_layout.h\<close>: the constants the memory
  components share, and the two range predicates; the process limits of
  \<open>kernel/include/rum/process_limits.h\<close>.
\<close>

definition PAGE_SIZE :: nat where "PAGE_SIZE = 0x1000"
definition RUM_PAGE_TABLE_SPAN :: nat where "RUM_PAGE_TABLE_SPAN = 0x400000"
definition RUM_LOW_RESERVED_END :: nat where "RUM_LOW_RESERVED_END = 0x100000"
definition RUM_KERNEL_LOAD_BASE :: nat where "RUM_KERNEL_LOAD_BASE = 0x200000"
definition RUM_IDENTITY_END :: nat where "RUM_IDENTITY_END = 0x40000000"
definition RUM_HEAP_BASE :: nat where "RUM_HEAP_BASE = RUM_IDENTITY_END"
definition RUM_HEAP_END :: nat where "RUM_HEAP_END = 0x40400000"
definition RUM_KERNEL_ALIAS_BASE :: nat where "RUM_KERNEL_ALIAS_BASE = RUM_HEAP_END"
definition RUM_KERNEL_STACK_BASE :: nat where "RUM_KERNEL_STACK_BASE = 0x7FC00000"
definition RUM_KERNEL_STACK_END :: nat where "RUM_KERNEL_STACK_END = 0x80000000"
definition RUM_KERNEL_STACK_SIZE :: nat where "RUM_KERNEL_STACK_SIZE = 0x4000"
definition RUM_USER_BASE :: nat where "RUM_USER_BASE = RUM_KERNEL_STACK_END"
definition RUM_USER_PROGRAM_END :: nat where "RUM_USER_PROGRAM_END = 0xBFC00000"
definition RUM_USER_END :: nat where "RUM_USER_END = 0xC0000000"
definition RUM_USER_STACK_TOP :: nat where "RUM_USER_STACK_TOP = RUM_USER_END"
definition RUM_USER_STACK_SIZE :: nat where "RUM_USER_STACK_SIZE = 0x10000"
definition RUM_USER_STACK_BASE :: nat where
  "RUM_USER_STACK_BASE = RUM_USER_STACK_TOP - RUM_USER_STACK_SIZE"
definition RUM_USER_STACK_GUARD_BASE :: nat where
  "RUM_USER_STACK_GUARD_BASE = RUM_USER_STACK_BASE - PAGE_SIZE"

lemmas layout_defs =
  PAGE_SIZE_def RUM_PAGE_TABLE_SPAN_def RUM_LOW_RESERVED_END_def RUM_KERNEL_LOAD_BASE_def
  RUM_IDENTITY_END_def RUM_HEAP_BASE_def RUM_HEAP_END_def RUM_KERNEL_ALIAS_BASE_def
  RUM_KERNEL_STACK_BASE_def RUM_KERNEL_STACK_END_def RUM_KERNEL_STACK_SIZE_def RUM_USER_BASE_def
  RUM_USER_PROGRAM_END_def RUM_USER_END_def RUM_USER_STACK_TOP_def RUM_USER_STACK_SIZE_def
  RUM_USER_STACK_BASE_def RUM_USER_STACK_GUARD_BASE_def

definition RUM_PROCESS_LIMIT :: nat where "RUM_PROCESS_LIMIT = 16"
definition RUM_PROCESS_FILE_LIMIT :: nat where "RUM_PROCESS_FILE_LIMIT = 32"

lemma PAGE_SIZE_pos [simp]: "0 < PAGE_SIZE" "PAGE_SIZE \<noteq> 0"
  by (simp_all add: layout_defs)

definition memory_range_contains :: "nat \<Rightarrow> nat \<Rightarrow> nat \<Rightarrow> nat \<Rightarrow> bool" where
  "memory_range_contains base end1 address bytes \<longleftrightarrow>
     address \<ge> base \<and> address < end1 \<and> bytes \<le> end1 - address"

definition memory_kernel_mapping_range :: "nat \<Rightarrow> nat \<Rightarrow> bool" where
  "memory_kernel_mapping_range address bytes =
     memory_range_contains RUM_HEAP_BASE RUM_KERNEL_STACK_BASE address bytes"

lemma memory_range_contains_iff:
  "memory_range_contains base end1 address bytes \<longleftrightarrow>
     base \<le> address \<and> address < end1 \<and> address + bytes \<le> end1"
  by (auto simp: memory_range_contains_def)

end
