(* ===== verification/Rum_Pmm.thy ===== *)
theory Rum_Pmm
  imports Rum_Layout
begin

text \<open>
  The physical page allocator, \<open>kernel/mm/pmm.c\<close>: two bitmaps of 32-bit words (the pages it
  manages and the pages handed out), the counters and the rotating search cursor. Boot parsing
  reads the Multiboot structures from a byte memory. Every operation runs with interrupts off in
  the source, so it is one atomic step here. Addresses and counters are natural numbers; the
  guards of the source keep each of them below its machine bound.
\<close>

section \<open>Bitmaps\<close>

definition PMM_PHYSICAL_LIMIT :: nat where "PMM_PHYSICAL_LIMIT = RUM_IDENTITY_END"
definition PAGE_COUNT :: nat where "PAGE_COUNT = PMM_PHYSICAL_LIMIT div PAGE_SIZE"
definition BITMAP_WORDS :: nat where "BITMAP_WORDS = PAGE_COUNT div 32"
definition ADDRESS_SPACE_END :: nat where "ADDRESS_SPACE_END = 2 ^ 32"

type_synonym bitmap = "u32 list"

definition bitmap_bit :: "bitmap \<Rightarrow> nat \<Rightarrow> bool" where
  "bitmap_bit bm page \<longleftrightarrow> (bm ! (page div 32)) AND (push_bit (page mod 32) 1) \<noteq> 0"

definition bitmap_set :: "bitmap \<Rightarrow> nat \<Rightarrow> bool \<Rightarrow> bitmap" where
  "bitmap_set bm page v =
     (let mask = push_bit (page mod 32) 1; w = page div 32 in
      if v then bm[w := (bm ! w) OR mask] else bm[w := (bm ! w) AND NOT mask])"

text \<open>The interface of a bit table: what a test returns after an update.\<close>

locale bit_table =
  fixes test :: "'b \<Rightarrow> nat \<Rightarrow> bool" and put :: "'b \<Rightarrow> nat \<Rightarrow> bool \<Rightarrow> 'b" and bits :: "'b \<Rightarrow> nat"
  assumes bits_put [simp]: "bits (put b p v) = bits b"
    and test_put: "p < bits b \<Longrightarrow> q < bits b \<Longrightarrow> test (put b p v) q = (if q = p then v else test b q)"
begin

lemma bits_fill [simp]: "bits (fold (\<lambda>p b. put b p v) ps b) = bits b"
  by (induction ps arbitrary: b) auto

lemma test_fill:
  "\<forall>p\<in>set ps. p < bits b \<Longrightarrow> q < bits b \<Longrightarrow>
     test (fold (\<lambda>p b. put b p v) ps b) q = (if q \<in> set ps then v else test b q)"
  by (induction ps arbitrary: b) (auto simp: test_put)

end

sublocale bit_table \<subseteq> marks: bit_marks test "\<lambda>b p. put b p True" bits
  by unfold_locales (auto simp: test_put)

lemma word_bit_mask: "(w :: u32) AND (push_bit n 1) \<noteq> 0 \<longleftrightarrow> bit w n"
  by (simp add: and_exp_eq_0_iff_not_bit push_bit_eq_mult)

lemma bitmap_bit_iff: "bitmap_bit bm page = bit (bm ! (page div 32)) (page mod 32)"
  unfolding bitmap_bit_def by (rule word_bit_mask)

interpretation bm: bit_table bitmap_bit bitmap_set "\<lambda>bm. 32 * length bm"
proof
  show "32 * length (bitmap_set b p v) = 32 * length b" for b p v
    by (simp add: bitmap_set_def Let_def)
  fix p q :: nat and b :: bitmap and v :: bool
  assume "p < 32 * length b" and "q < 32 * length b"
  then have "p div 32 < length b" "q div 32 < length b" by auto
  moreover have "q = p \<longleftrightarrow> q div 32 = p div 32 \<and> q mod 32 = p mod 32"
    by (metis div_mult_mod_eq)
  ultimately show "bitmap_bit (bitmap_set b p v) q = (if q = p then v else bitmap_bit b q)"
    by (auto simp: bitmap_bit_iff bitmap_set_def Let_def nth_list_update bit_simps)
qed

section \<open>Boot structures\<close>

record multiboot_info =
  mb_flags :: nat
  cmdline :: nat
  mods_count :: nat
  mods_addr :: nat
  symbols :: "nat list"
  mmap_length :: nat
  mmap_addr :: nat
  drives_length :: nat
  drives_addr :: nat
  config_table :: nat
  boot_loader_name :: nat
  apm_table :: nat
  vbe_control_info :: nat
  vbe_mode_info :: nat
  vbe_interface_seg :: nat
  vbe_interface_off :: nat
  vbe_interface_len :: nat
  framebuffer_addr :: nat
  framebuffer_pitch :: nat
  framebuffer_height :: nat
  framebuffer_type :: nat
  framebuffer_color_info :: nat

text \<open>The packed wire layout. The last field is the address of the six colour bytes.\<close>

definition read_multiboot_info :: "memory \<Rightarrow> nat \<Rightarrow> multiboot_info" where
  "read_multiboot_info mem a =
     \<lparr> mb_flags = rd mem a 4, cmdline = rd mem (a + 16) 4, mods_count = rd mem (a + 20) 4,
       mods_addr = rd mem (a + 24) 4,
       symbols = [rd mem (a + 28) 4, rd mem (a + 32) 4, rd mem (a + 36) 4, rd mem (a + 40) 4],
       mmap_length = rd mem (a + 44) 4, mmap_addr = rd mem (a + 48) 4,
       drives_length = rd mem (a + 52) 4, drives_addr = rd mem (a + 56) 4,
       config_table = rd mem (a + 60) 4, boot_loader_name = rd mem (a + 64) 4,
       apm_table = rd mem (a + 68) 4, vbe_control_info = rd mem (a + 72) 4,
       vbe_mode_info = rd mem (a + 76) 4, vbe_interface_seg = rd mem (a + 82) 2,
       vbe_interface_off = rd mem (a + 84) 2, vbe_interface_len = rd mem (a + 86) 2,
       framebuffer_addr = rd mem (a + 88) 8, framebuffer_pitch = rd mem (a + 96) 4,
       framebuffer_height = rd mem (a + 104) 4, framebuffer_type = rd mem (a + 109) 1,
       framebuffer_color_info = a + 110 \<rparr>"

definition SIZEOF_INFO :: nat where "SIZEOF_INFO = 116"
definition SIZEOF_MMAP_ENTRY :: nat where "SIZEOF_MMAP_ENTRY = 24"
definition SIZEOF_MODULE :: nat where "SIZEOF_MODULE = 16"

record multiboot_mmap_entry =
  e_size :: nat
  e_address :: nat
  e_length :: nat
  e_type :: nat

definition read_mmap_entry :: "memory \<Rightarrow> nat \<Rightarrow> multiboot_mmap_entry" where
  "read_mmap_entry mem a =
     \<lparr> e_size = rd mem a 4, e_address = rd mem (a + 4) 8, e_length = rd mem (a + 12) 8,
       e_type = rd mem (a + 20) 4 \<rparr>"

definition info_flag :: "multiboot_info \<Rightarrow> nat \<Rightarrow> bool" where
  "info_flag info n \<longleftrightarrow> mb_flags info AND push_bit n 1 \<noteq> 0"

section \<open>Marking ranges\<close>

definition pmm_range :: "nat \<Rightarrow> nat \<Rightarrow> bool \<Rightarrow> bitmap \<Rightarrow> bitmap" where
  "pmm_range start end0 usable managed =
     (if start \<ge> PMM_PHYSICAL_LIMIT then managed
      else
        (let end1 = (if end0 > PMM_PHYSICAL_LIMIT then PMM_PHYSICAL_LIMIT else end0);
             first = (if usable then (start + PAGE_SIZE - 1) div PAGE_SIZE else start div PAGE_SIZE);
             last = (if usable then end1 div PAGE_SIZE else (end1 + PAGE_SIZE - 1) div PAGE_SIZE)
         in fold (\<lambda>page bm. bitmap_set bm page usable) [first..<last] managed))"

definition reserve :: "nat \<Rightarrow> nat \<Rightarrow> bitmap \<Rightarrow> bool \<times> bitmap" where
  "reserve address bytes managed =
     (if address \<ge> ADDRESS_SPACE_END \<or> bytes > ADDRESS_SPACE_END - address then (False, managed)
      else if bytes \<noteq> 0 then (True, pmm_range address (address + bytes) False managed)
      else (True, managed))"

function string_size :: "memory \<Rightarrow> nat \<Rightarrow> nat \<Rightarrow> nat option" where
  "string_size mem address len =
     (if len < PAGE_SIZE \<and> address + len < ADDRESS_SPACE_END then
        (if mem (address + len) = 0 then Some (len + 1) else string_size mem address (len + 1))
      else None)"
  by pat_completeness auto
termination by (relation "measure (\<lambda>(_, _, len). PAGE_SIZE - len)") auto

declare string_size.simps [simp del]

definition reserve_string :: "memory \<Rightarrow> nat \<Rightarrow> bitmap \<Rightarrow> bool \<times> bitmap" where
  "reserve_string mem address managed =
     (if address = 0 then (True, managed)
      else (case string_size mem address 0 of
              Some n \<Rightarrow> reserve address n managed
            | None \<Rightarrow> (False, managed)))"

text \<open>The loop of \<open>map_pass\<close>, over the map at \<open>base\<close> of \<open>len\<close> bytes.\<close>

function map_pass_loop :: "memory \<Rightarrow> nat \<Rightarrow> nat \<Rightarrow> bool \<Rightarrow> nat \<Rightarrow> bitmap \<Rightarrow> bool \<times> bitmap" where
  "map_pass_loop mem base len available offset managed =
     (if offset < len then
        (if len - offset < SIZEOF_MMAP_ENTRY then (False, managed)
         else
           (let entry = read_mmap_entry mem (base + offset);
                stride = e_size entry + 4
            in if e_size entry < 20 \<or> stride > len - offset \<or>
                  e_length entry > UINT64_MAX - e_address entry then (False, managed)
               else
                 map_pass_loop mem base len available (offset + stride)
                   (if e_length entry \<noteq> 0 \<and> (e_type entry = 1) = available
                    then pmm_range (e_address entry) (e_address entry + e_length entry) available managed
                    else managed)))
      else (True, managed))"
  by pat_completeness auto
termination by (relation "measure (\<lambda>(_, _, len, _, offset, _). len - offset)") auto

declare map_pass_loop.simps [simp del]

definition map_pass :: "memory \<Rightarrow> multiboot_info \<Rightarrow> bool \<Rightarrow> bitmap \<Rightarrow> bool \<times> bitmap" where
  "map_pass mem info available managed =
     map_pass_loop mem (mmap_addr info) (mmap_length info) available 0 managed"

fun reserve_modules :: "memory \<Rightarrow> nat \<Rightarrow> nat list \<Rightarrow> bitmap \<Rightarrow> bool \<times> bitmap" where
  "reserve_modules mem base [] managed = (True, managed)"
| "reserve_modules mem base (i # is) managed =
     (let a = base + i * SIZEOF_MODULE; start = rd mem a 4; end1 = rd mem (a + 4) 4 in
      if end1 < start then (False, managed)
      else and_then (and_then (reserve start (end1 - start) managed) (reserve_string mem (rd mem (a + 8) 4)))
             (reserve_modules mem base is))"

fun reserve_sections :: "memory \<Rightarrow> nat \<Rightarrow> nat \<Rightarrow> nat list \<Rightarrow> bitmap \<Rightarrow> bool \<times> bitmap" where
  "reserve_sections mem base stride [] managed = (True, managed)"
| "reserve_sections mem base stride (i # is) managed =
     (let address = rd mem (base + i * stride + 12) 4; bytes = rd mem (base + i * stride + 20) 4 in
      and_then (if address \<noteq> 0 then reserve address bytes managed else (True, managed))
        (reserve_sections mem base stride is))"

section \<open>Boot reservations\<close>

text \<open>The blocks of \<open>reserve_boot_data\<close>, one per Multiboot feature, and their sequence.\<close>

definition reserve_module_table :: "memory \<Rightarrow> multiboot_info \<Rightarrow> bitmap \<Rightarrow> bool \<times> bitmap" where
  "reserve_module_table mem info managed =
     (if info_flag info 3 then
        (let bytes = mods_count info * SIZEOF_MODULE in
         if bytes \<noteq> 0 \<and> mods_addr info = 0 then (False, managed)
         else and_then (reserve (mods_addr info) bytes managed)
                (reserve_modules mem (mods_addr info) [0..<mods_count info]))
      else (True, managed))"

definition reserve_symbols :: "memory \<Rightarrow> multiboot_info \<Rightarrow> bitmap \<Rightarrow> bool \<times> bitmap" where
  "reserve_symbols mem info managed =
     (if mb_flags info AND 0x30 = 0x30 then (False, managed)
      else
        (let s0 = symbols info ! 0; s1 = symbols info ! 1; s2 = symbols info ! 2 in
         and_then (if info_flag info 4 then reserve s2 (s0 + s1) managed else (True, managed))
           (\<lambda>m. if info_flag info 5 then
                   (let bytes = s0 * s1 in
                    if bytes \<noteq> 0 \<and> (s2 = 0 \<or> s1 < 40) then (False, m)
                    else and_then (reserve s2 bytes m) (reserve_sections mem s2 s1 [0..<s0]))
                 else (True, m))))"

definition reserve_config :: "memory \<Rightarrow> multiboot_info \<Rightarrow> bitmap \<Rightarrow> bool \<times> bitmap" where
  "reserve_config mem info managed =
     (if info_flag info 8 \<and> config_table info \<noteq> 0 then
        (if config_table info + 2 > ADDRESS_SPACE_END then (False, managed)
         else reserve (config_table info) (rd mem (config_table info) 2 + 2) managed)
      else (True, managed))"

definition reserve_vbe :: "multiboot_info \<Rightarrow> bitmap \<Rightarrow> bool \<times> bitmap" where
  "reserve_vbe info managed =
     (if info_flag info 11 then
        and_then (and_then (reserve (vbe_control_info info) 512 managed) (reserve (vbe_mode_info info) 256))
          (reserve (vbe_interface_seg info * 16 + vbe_interface_off info) (vbe_interface_len info))
      else (True, managed))"

definition reserve_framebuffer :: "memory \<Rightarrow> multiboot_info \<Rightarrow> bitmap \<Rightarrow> bool \<times> bitmap" where
  "reserve_framebuffer mem info managed =
     (if info_flag info 12 then
        (let bytes = framebuffer_pitch info * framebuffer_height info in
         if bytes > UINT64_MAX - framebuffer_addr info then (False, managed)
         else
           (let m = (if bytes \<noteq> 0 then pmm_range (framebuffer_addr info) (framebuffer_addr info + bytes) False managed
                     else managed)
            in if framebuffer_type info = 0
               then reserve (rd mem (framebuffer_color_info info) 4) (rd mem (framebuffer_color_info info + 4) 2 * 3) m
               else (True, m)))
      else (True, managed))"

definition reserve_boot_data :: "memory \<Rightarrow> nat \<Rightarrow> multiboot_info \<Rightarrow> bitmap \<Rightarrow> bool \<times> bitmap" where
  "reserve_boot_data mem address info managed =
     and_then (reserve address SIZEOF_INFO managed) (\<lambda>m.
     and_then (reserve (mmap_addr info) (mmap_length info) m) (\<lambda>m.
     and_then (if info_flag info 2 then reserve_string mem (cmdline info) m else (True, m)) (\<lambda>m.
     and_then (if info_flag info 9 then reserve_string mem (boot_loader_name info) m else (True, m)) (\<lambda>m.
     and_then (reserve_module_table mem info m) (\<lambda>m.
     and_then (reserve_symbols mem info m) (\<lambda>m.
     and_then (if info_flag info 7 then reserve (drives_addr info) (drives_length info) m else (True, m)) (\<lambda>m.
     and_then (reserve_config mem info m) (\<lambda>m.
     and_then (if info_flag info 10 then reserve (apm_table info) 20 m else (True, m)) (\<lambda>m.
     and_then (reserve_vbe info m)
       (reserve_framebuffer mem info))))))))))"

section \<open>State and initialisation\<close>

record pmm_statistics =
  usable_pages :: nat
  managed_pages :: nat
  free_pages :: nat
  limit :: nat

record pmm =
  managed :: bitmap
  allocated :: bitmap
  statistics :: pmm_statistics
  next_page :: nat
  ready :: bool

definition zero_statistics :: pmm_statistics where
  "zero_statistics = \<lparr> usable_pages = 0, managed_pages = 0, free_pages = 0, limit = 0 \<rparr>"

definition count_usable :: "bitmap \<Rightarrow> pmm_statistics \<Rightarrow> pmm_statistics" where
  "count_usable bm st =
     fold (\<lambda>page st. if bitmap_bit bm page
                     then st\<lparr>usable_pages := usable_pages st + 1, limit := (page + 1) * PAGE_SIZE\<rparr>
                     else st) [0..<PAGE_COUNT] st"

definition count_managed :: "bitmap \<Rightarrow> pmm_statistics \<Rightarrow> pmm_statistics" where
  "count_managed bm st =
     fold (\<lambda>page st. if bitmap_bit bm page then st\<lparr>managed_pages := managed_pages st + 1\<rparr> else st)
       [0..<limit st div PAGE_SIZE] st"

definition pmm_initialize :: "memory \<Rightarrow> nat \<Rightarrow> nat \<Rightarrow> nat \<Rightarrow> pmm \<Rightarrow> bool \<times> pmm" where
  "pmm_initialize mem address kernel_start kernel_end s =
     (let info = read_multiboot_info mem address;
          zero = s\<lparr>ready := False, statistics := zero_statistics,
                   managed := replicate BITMAP_WORDS 0, allocated := replicate BITMAP_WORDS 0\<rparr>
      in if address = 0 \<or> address + SIZEOF_INFO > ADDRESS_SPACE_END \<or>
            \<not> info_flag info 6 \<or> mmap_addr info = 0 \<or> mmap_length info = 0 \<or>
            mmap_addr info + mmap_length info > ADDRESS_SPACE_END \<or>
            kernel_end < kernel_start \<or> kernel_end > PMM_PHYSICAL_LIMIT then (False, zero)
         else
           (let (ok, m) = and_then (map_pass mem info True (managed zero)) (map_pass mem info False)
            in if \<not> ok then (False, zero\<lparr>managed := m\<rparr>)
               else if \<exists>page\<in>set [kernel_start div PAGE_SIZE..<(kernel_end + PAGE_SIZE - 1) div PAGE_SIZE].
                         \<not> bitmap_bit m page then (False, zero\<lparr>managed := m\<rparr>)
               else
                 (let st = count_usable m zero_statistics;
                      (ok1, m1) =
                        (if limit st = 0 then (False, m)
                         else and_then (and_then (reserve 0 RUM_LOW_RESERVED_END m)
                                  (reserve kernel_start (kernel_end - kernel_start)))
                                (reserve_boot_data mem address info))
                  in if \<not> ok1 then (False, zero\<lparr>managed := m1, statistics := st\<rparr>)
                     else
                       (let st1 = count_managed m1 st in
                        (True, zero\<lparr>managed := m1, statistics := st1\<lparr>free_pages := managed_pages st1\<rparr>,
                                    next_page := RUM_LOW_RESERVED_END div PAGE_SIZE, ready := True\<rparr>)))))"

section \<open>Allocation and release\<close>

definition pages :: "pmm \<Rightarrow> nat" where
  "pages s = limit (statistics s) div PAGE_SIZE"

definition page_free :: "pmm \<Rightarrow> nat \<Rightarrow> bool" where
  "page_free s page \<longleftrightarrow> bitmap_bit (managed s) page \<and> \<not> bitmap_bit (allocated s) page"

definition set_free_pages :: "nat \<Rightarrow> pmm \<Rightarrow> pmm" where
  "set_free_pages n s = s\<lparr>statistics := (statistics s)\<lparr>free_pages := n\<rparr>\<rparr>"

fun allocate_loop :: "nat \<Rightarrow> nat \<Rightarrow> pmm \<Rightarrow> nat \<times> pmm" where
  "allocate_loop n_pages 0 s = (0, s)"
| "allocate_loop n_pages (Suc n) s =
     (let page = next_page s; s1 = s\<lparr>next_page := (next_page s + 1) mod n_pages\<rparr> in
      if page_free s1 page
      then (page * PAGE_SIZE,
            set_free_pages (free_pages (statistics s1) - 1)
              (s1\<lparr>allocated := bitmap_set (allocated s1) page True\<rparr>))
      else allocate_loop n_pages n s1)"

definition pmm_allocate_page :: "pmm \<Rightarrow> nat \<times> pmm" where
  "pmm_allocate_page s =
     (if ready s \<and> free_pages (statistics s) \<noteq> 0 then allocate_loop (pages s) (pages s) s else (0, s))"

definition pmm_is_managed :: "pmm \<Rightarrow> nat \<Rightarrow> bool" where
  "pmm_is_managed s physical \<longleftrightarrow>
     ready s \<and> physical mod PAGE_SIZE = 0 \<and> physical < limit (statistics s) \<and>
     bitmap_bit (managed s) (physical div PAGE_SIZE)"

fun contiguous_loop :: "nat \<Rightarrow> nat \<Rightarrow> nat list \<Rightarrow> pmm \<Rightarrow> nat \<times> pmm" where
  "contiguous_loop count run [] s = (0, s)"
| "contiguous_loop count run (page # ps) s =
     (let run1 = (if page_free s page then run + 1 else 0) in
      if run1 = count then
        (let first = page + 1 - count in
         (first * PAGE_SIZE,
          set_free_pages (free_pages (statistics s) - count)
            (s\<lparr>allocated := fold (\<lambda>i bm. bitmap_set bm i True) [first..<page + 1] (allocated s)\<rparr>)))
      else contiguous_loop count run1 ps s)"

definition pmm_allocate_contiguous :: "nat \<Rightarrow> pmm \<Rightarrow> nat \<times> pmm" where
  "pmm_allocate_contiguous count s =
     (if ready s \<and> count \<noteq> 0 \<and> count \<le> free_pages (statistics s)
      then contiguous_loop count 0 [RUM_LOW_RESERVED_END div PAGE_SIZE..<pages s] s
      else (0, s))"

definition pmm_free_contiguous :: "nat \<Rightarrow> nat \<Rightarrow> pmm \<Rightarrow> bool \<times> pmm" where
  "pmm_free_contiguous physical count s =
     (let first = physical div PAGE_SIZE;
          valid = (ready s \<and> count \<noteq> 0 \<and> physical mod PAGE_SIZE = 0 \<and> physical < limit (statistics s) \<and>
                   count \<le> (limit (statistics s) - physical) div PAGE_SIZE \<and>
                   (\<forall>i\<in>set [0..<count]. bitmap_bit (managed s) (first + i) \<and> bitmap_bit (allocated s) (first + i)))
      in if valid then
           (let s1 = set_free_pages (free_pages (statistics s) + count)
                       (s\<lparr>allocated := fold (\<lambda>i bm. bitmap_set bm (first + i) False) [0..<count] (allocated s)\<rparr>)
            in (True, if first < next_page s1 then s1\<lparr>next_page := first\<rparr> else s1))
         else (False, s))"

definition pmm_is_allocated :: "pmm \<Rightarrow> nat \<Rightarrow> bool" where
  "pmm_is_allocated s physical \<longleftrightarrow> pmm_is_managed s physical \<and> bitmap_bit (allocated s) (physical div PAGE_SIZE)"

definition pmm_free_page :: "nat \<Rightarrow> pmm \<Rightarrow> bool \<times> pmm" where
  "pmm_free_page physical s =
     (if pmm_is_allocated s physical then
        (let page = physical div PAGE_SIZE;
             s1 = set_free_pages (free_pages (statistics s) + 1)
                    (s\<lparr>allocated := bitmap_set (allocated s) page False\<rparr>)
         in (True, if page < next_page s1 then s1\<lparr>next_page := page\<rparr> else s1))
      else (False, s))"

definition pmm_stats :: "pmm \<Rightarrow> pmm_statistics" where
  "pmm_stats s = (if ready s then statistics s else zero_statistics)"

section \<open>Sets of pages and the invariant\<close>

definition page_set :: "bitmap \<Rightarrow> nat set" where
  "page_set bm = {p. p < PAGE_COUNT \<and> bitmap_bit bm p}"

definition free_set :: "pmm \<Rightarrow> nat set" where
  "free_set s = page_set (managed s) - page_set (allocated s)"

definition pmm_inv :: "pmm \<Rightarrow> bool" where
  "pmm_inv s \<longleftrightarrow>
     ready s \<and> length (managed s) = BITMAP_WORDS \<and> length (allocated s) = BITMAP_WORDS \<and>
     limit (statistics s) mod PAGE_SIZE = 0 \<and> limit (statistics s) \<le> PMM_PHYSICAL_LIMIT \<and>
     page_set (managed s) \<subseteq> {RUM_LOW_RESERVED_END div PAGE_SIZE..<pages s} \<and>
     page_set (allocated s) \<subseteq> page_set (managed s) \<and>
     free_pages (statistics s) = card (free_set s) \<and>
     managed_pages (statistics s) = card (page_set (managed s)) \<and>
     (page_set (managed s) \<noteq> {} \<longrightarrow> next_page s < pages s)"

lemmas pmm_consts = PMM_PHYSICAL_LIMIT_def PAGE_COUNT_def BITMAP_WORDS_def ADDRESS_SPACE_END_def layout_defs

lemma bitmap_bits [simp]: "32 * BITMAP_WORDS = PAGE_COUNT"
  by (simp add: pmm_consts)

lemma finite_page_set [simp]: "finite (page_set bm)"
  by (simp add: page_set_def)

lemma finite_free_set [simp]: "finite (free_set s)"
  by (simp add: free_set_def)

lemma page_set_fill:
  assumes "length bm = BITMAP_WORDS" and "set ps \<subseteq> {..<PAGE_COUNT}"
  shows "page_set (fold (\<lambda>p bm. bitmap_set bm p v) ps bm) =
           (if v then page_set bm \<union> set ps else page_set bm - set ps)"
    and "length (fold (\<lambda>p bm. bitmap_set bm p v) ps bm) = BITMAP_WORDS"
proof -
  show "page_set (fold (\<lambda>p bm. bitmap_set bm p v) ps bm) =
          (if v then page_set bm \<union> set ps else page_set bm - set ps)"
    using bm.test_fill [of ps bm _ v] assms
    by (auto simp: page_set_def subset_iff split: if_splits)
  show "length (fold (\<lambda>p bm. bitmap_set bm p v) ps bm) = BITMAP_WORDS"
    using bm.bits_fill [of v ps bm] assms(1) by (simp del: bm.bits_fill bitmap_bits)
qed

lemma page_set_put:
  assumes "length bm = BITMAP_WORDS" and "p < PAGE_COUNT"
  shows "page_set (bitmap_set bm p v) = (if v then insert p (page_set bm) else page_set bm - {p})"
    and "length (bitmap_set bm p v) = BITMAP_WORDS"
  using page_set_fill [of bm "[p]" v] assms by auto

lemma page_free_iff: "p < PAGE_COUNT \<Longrightarrow> page_free s p \<longleftrightarrow> p \<in> free_set s"
  by (auto simp: page_free_def free_set_def page_set_def)

text \<open>The counters are bounded by the page count, far below the range of their C type.\<close>

lemma pmm_inv_bounds:
  assumes "pmm_inv s"
  shows "pages s \<le> PAGE_COUNT" and "free_pages (statistics s) \<le> managed_pages (statistics s)"
    and "managed_pages (statistics s) \<le> PAGE_COUNT"
proof -
  show "pages s \<le> PAGE_COUNT"
    using assms by (auto simp: pmm_inv_def pages_def PAGE_COUNT_def intro: div_le_mono)
  show "free_pages (statistics s) \<le> managed_pages (statistics s)"
    using assms by (auto simp: pmm_inv_def free_set_def intro: card_mono)
  have "card (page_set (managed s)) \<le> card {..<PAGE_COUNT}"
    by (intro card_mono) (auto simp: page_set_def)
  then show "managed_pages (statistics s) \<le> PAGE_COUNT" using assms by (simp add: pmm_inv_def)
qed

text \<open>Marking pages as handed out or returned, with the counter moved by their number.\<close>

definition mark :: "nat list \<Rightarrow> bool \<Rightarrow> nat \<Rightarrow> pmm \<Rightarrow> pmm" where
  "mark ps v cursor s =
     set_free_pages (if v then free_pages (statistics s) - length ps else free_pages (statistics s) + length ps)
       (s\<lparr>allocated := fold (\<lambda>p bm. bitmap_set bm p v) ps (allocated s), next_page := cursor\<rparr>)"

lemma mark_frame [simp]:
  "managed (mark ps v c s) = managed s" "ready (mark ps v c s) = ready s" "next_page (mark ps v c s) = c"
  "limit (statistics (mark ps v c s)) = limit (statistics s)"
  "managed_pages (statistics (mark ps v c s)) = managed_pages (statistics s)"
  "pages (mark ps v c s) = pages s"
  by (simp_all add: mark_def set_free_pages_def pages_def)

lemma mark_sets:
  assumes "pmm_inv s" and "distinct ps" and "set ps \<subseteq> (if v then free_set s else page_set (allocated s))"
  shows "page_set (allocated (mark ps v c s)) =
           (if v then page_set (allocated s) \<union> set ps else page_set (allocated s) - set ps)"
    and "free_set (mark ps v c s) = (if v then free_set s - set ps else free_set s \<union> set ps)"
    and "c < pages s \<Longrightarrow> pmm_inv (mark ps v c s)"
proof -
  have len: "length (allocated s) = BITMAP_WORDS" using assms(1) by (simp add: pmm_inv_def)
  have "set ps \<subseteq> {..<PAGE_COUNT}"
    using assms(3) by (auto simp: free_set_def page_set_def split: if_splits)
  note fill = page_set_fill [OF len this, of v]
  show alloc: "page_set (allocated (mark ps v c s)) =
           (if v then page_set (allocated s) \<union> set ps else page_set (allocated s) - set ps)"
    using fill(1) by (simp add: mark_def set_free_pages_def)
  have sub: "page_set (allocated s) \<subseteq> page_set (managed s)" using assms(1) by (simp add: pmm_inv_def)
  show free: "free_set (mark ps v c s) = (if v then free_set s - set ps else free_set s \<union> set ps)"
    using alloc sub assms(3) by (cases v) (auto simp: free_set_def)
  have "card (free_set s \<union> set ps) = card (free_set s) + length ps" if "\<not> v"
    using that assms(2,3) by (subst card_Un_disjoint) (auto simp: free_set_def distinct_card)
  moreover have "card (free_set s - set ps) = card (free_set s) - length ps" if v
    using that assms(2,3) by (subst card_Diff_subset) (auto simp: distinct_card)
  ultimately have count: "free_pages (statistics (mark ps v c s)) = card (free_set (mark ps v c s))"
    using assms(1) free by (simp add: mark_def set_free_pages_def pmm_inv_def)
  show "c < pages s \<Longrightarrow> pmm_inv (mark ps v c s)"
    using assms(1,3) count alloc fill(2)
    by (auto simp: pmm_inv_def free_set_def mark_def set_free_pages_def pages_def split: if_splits)
qed

section \<open>Single pages\<close>

lemma allocate_loop_cases:
  assumes "0 < m" and "next_page s < m"
  shows "(\<exists>k<n. \<exists>p. p = (next_page s + k) mod m \<and> page_free s p \<and>
            allocate_loop m n s = (p * PAGE_SIZE, mark [p] True ((p + 1) mod m) s)) \<or>
         ((\<forall>k<n. \<not> page_free s ((next_page s + k) mod m)) \<and>
          (\<exists>c<m. allocate_loop m n s = (0, s\<lparr>next_page := c\<rparr>)))"
  using assms(2)
proof (induction n arbitrary: s)
  case 0
  then show ?case by (auto intro: exI [of _ "next_page s"])
next
  case (Suc n)
  define s1 where "s1 = s\<lparr>next_page := (next_page s + 1) mod m\<rparr>"
  have free: "page_free s1 p = page_free s p" for p by (simp add: s1_def page_free_def)
  have step: "allocate_loop m (Suc n) s =
      (if page_free s (next_page s)
       then (next_page s * PAGE_SIZE, mark [next_page s] True ((next_page s + 1) mod m) s)
       else allocate_loop m n s1)"
    using free by (simp add: s1_def [symmetric] Let_def) (simp add: s1_def mark_def set_free_pages_def)
  have rot: "(next_page s1 + k) mod m = (next_page s + Suc k) mod m" for k
    by (simp add: s1_def mod_add_left_eq)
  show ?case
  proof (cases "page_free s (next_page s)")
    case True
    with step Suc.prems show ?thesis by (intro disjI1 exI [of _ 0]) auto
  next
    case False
    have marks: "mark [p] True c s1 = mark [p] True c s" for p c by (simp add: s1_def mark_def set_free_pages_def)
    have upd: "s1\<lparr>next_page := c\<rparr> = s\<lparr>next_page := c\<rparr>" for c by (simp add: s1_def)
    have "next_page s1 < m" using assms(1) by (simp add: s1_def)
    from Suc.IH [OF this] False step Suc.prems show ?thesis
      unfolding free rot marks upd by (auto simp: less_Suc_eq_0_disj)
  qed
qed

lemma rotate_reaches:
  assumes "c < m" and "p < m"
  shows "\<exists>k<m. (c + k) mod m = (p :: nat)"
proof (cases "c \<le> p")
  case True
  with assms show ?thesis by (intro exI [of _ "p - c"]) auto
next
  case False
  with assms have "c + (p + m - c) = p + m" by simp
  then have "(c + (p + m - c)) mod m = p" using assms by (simp add: mod_add_self2)
  with False assms show ?thesis by (intro exI [of _ "p + m - c"]) auto
qed

lemma free_set_low:
  assumes "pmm_inv s" and "p \<in> free_set s"
  shows "RUM_LOW_RESERVED_END div PAGE_SIZE \<le> p" "p < pages s" "p < PAGE_COUNT"
    "p * PAGE_SIZE < limit (statistics s)" "RUM_LOW_RESERVED_END \<le> p * PAGE_SIZE"
proof -
  show *: "RUM_LOW_RESERVED_END div PAGE_SIZE \<le> p" "p < pages s" "p < PAGE_COUNT"
    using assms by (auto simp: pmm_inv_def free_set_def page_set_def)
  then show "p * PAGE_SIZE < limit (statistics s)"
    by (simp add: pages_def div_less_iff_less_mult less_mult_imp_div_less layout_defs)
  show "RUM_LOW_RESERVED_END \<le> p * PAGE_SIZE" using *(1) by (simp add: layout_defs)
qed

lemma pmm_allocate_page_cases:
  assumes "pmm_inv s"
  shows "free_set s = {} \<and> pmm_allocate_page s = (0, s) \<or>
         (\<exists>p\<in>free_set s. \<exists>c<pages s. pmm_allocate_page s = (p * PAGE_SIZE, mark [p] True c s))"
proof (cases "free_set s = {}")
  case True
  then show ?thesis using assms by (simp add: pmm_allocate_page_def pmm_inv_def)
next
  case False
  then obtain p where p: "p \<in> free_set s" by blast
  have m: "next_page s < pages s" "pages s \<le> PAGE_COUNT" "0 < pages s"
    using assms p pmm_inv_bounds(1) [OF assms] by (auto simp: pmm_inv_def free_set_def)
  have free: "free_pages (statistics s) \<noteq> 0" and ready: "ready s"
    using assms False by (auto simp: pmm_inv_def card_eq_0_iff)
  obtain k where k: "k < pages s" "(next_page s + k) mod pages s = p"
    using rotate_reaches [OF m(1), of p] free_set_low(2) [OF assms p] by blast
  have "page_free s p" using page_free_iff [of p s] free_set_low(3) [OF assms p] p by simp
  with k have "\<not> (\<forall>k<pages s. \<not> page_free s ((next_page s + k) mod pages s))" by auto
  then obtain q where q: "page_free s q" "\<exists>j. q = (next_page s + j) mod pages s"
      "allocate_loop (pages s) (pages s) s = (q * PAGE_SIZE, mark [q] True ((q + 1) mod pages s) s)"
    using allocate_loop_cases [OF m(3,1), of "pages s"] by blast
  then have "q < pages s" using m(3) by auto
  then have "q \<in> free_set s" using page_free_iff [of q s] m(2) q(1) by simp
  then show ?thesis
    using q(3) m(3) free ready unfolding pmm_allocate_page_def
    by (intro disjI2 bexI [of _ q] exI [of _ "(q + 1) mod pages s"]) simp_all
qed

lemma pmm_free_page_eq:
  assumes "pmm_inv s"
  shows "pmm_free_page a s =
     (if pmm_is_allocated s a
      then (True, mark [a div PAGE_SIZE] False (min (a div PAGE_SIZE) (next_page s)) s) else (False, s))"
  by (auto simp: pmm_free_page_def Let_def mark_def set_free_pages_def min_def)

lemma pmm_is_allocated_iff:
  assumes "pmm_inv s"
  shows "pmm_is_allocated s a \<longleftrightarrow> a mod PAGE_SIZE = 0 \<and> a div PAGE_SIZE \<in> page_set (allocated s)"
proof -
  have "a div PAGE_SIZE \<in> page_set (allocated s) \<Longrightarrow> a < limit (statistics s)"
    if "a mod PAGE_SIZE = 0"
    using assms that by (force simp: pmm_inv_def pages_def layout_defs)
  moreover have "a div PAGE_SIZE < PAGE_COUNT" if "a < limit (statistics s)"
    using that assms by (auto simp: pmm_inv_def PMM_PHYSICAL_LIMIT_def PAGE_COUNT_def layout_defs)
  ultimately show ?thesis
    using assms by (auto simp: pmm_is_allocated_def pmm_is_managed_def pmm_inv_def page_set_def)
qed

section \<open>Contiguous runs\<close>

definition run_at :: "pmm \<Rightarrow> nat \<Rightarrow> nat \<Rightarrow> bool" where
  "run_at s first count \<longleftrightarrow> (\<forall>p. first \<le> p \<and> p < first + count \<longrightarrow> page_free s p)"

text \<open>The run counter at position \<open>i\<close>: \<open>run\<close> free pages end just before \<open>i\<close>, the page before
  them is not free (or is below the start \<open>lo\<close>), and no complete run has been passed.\<close>

definition run_state :: "pmm \<Rightarrow> nat \<Rightarrow> nat \<Rightarrow> nat \<Rightarrow> nat \<Rightarrow> bool" where
  "run_state s lo count i run \<longleftrightarrow>
     run < count \<and> lo + run \<le> i \<and> run_at s (i - run) run \<and>
     (lo + run < i \<longrightarrow> \<not> page_free s (i - run - 1)) \<and>
     (\<forall>f. lo \<le> f \<and> f + count \<le> i \<longrightarrow> \<not> run_at s f count)"

lemma run_at_extend: "run_at s (i - run) run \<Longrightarrow> run \<le> i \<Longrightarrow> page_free s i \<Longrightarrow> run_at s (i - run) (Suc run)"
  unfolding run_at_def by (metis add_Suc_right le_add_diff_inverse2 less_Suc_eq)

lemma run_state_reset:
  assumes "run_state s lo count i run" and "\<not> page_free s i"
  shows "run_state s lo count (Suc i) 0"
proof -
  have "\<not> run_at s f count" if "lo \<le> f" "f + count \<le> Suc i" for f
  proof (cases "f + count = Suc i")
    case True
    then have "f \<le> i \<and> i < f + count" using assms(1) by (auto simp: run_state_def)
    then show ?thesis using assms(2) unfolding run_at_def by blast
  next
    case False
    then show ?thesis using assms(1) that by (simp add: run_state_def)
  qed
  then show ?thesis using assms by (simp add: run_state_def run_at_def)
qed

lemma run_state_grow:
  assumes "run_state s lo count i run" and "page_free s i" and "Suc run \<noteq> count"
  shows "run_state s lo count (Suc i) (Suc run)"
proof -
  have "\<not> run_at s f count" if "lo \<le> f" "f + count \<le> Suc i" for f
  proof (cases "f + count = Suc i")
    case True
    then have "f \<le> i - run - 1" "i - run - 1 < f + count" "lo + run < i"
      using assms(1,3) that(1) by (auto simp: run_state_def)
    moreover have "\<not> page_free s (i - run - 1)" using assms(1) calculation(3) by (simp add: run_state_def)
    ultimately show ?thesis unfolding run_at_def by blast
  next
    case False
    then show ?thesis using assms(1) that by (simp add: run_state_def)
  qed
  moreover have "run_at s (i - run) (Suc run)"
    using run_at_extend assms(1,2) by (simp add: run_state_def)
  ultimately show ?thesis using assms by (simp add: run_state_def)
qed

text \<open>The result of a search below \<open>n\<close>: the lowest complete run is taken, or there is none.\<close>

definition run_result :: "pmm \<Rightarrow> nat \<Rightarrow> nat \<Rightarrow> nat \<Rightarrow> nat \<times> pmm \<Rightarrow> bool" where
  "run_result s lo count n r \<longleftrightarrow>
     (\<exists>f. lo \<le> f \<and> f + count \<le> n \<and> run_at s f count \<and>
          (\<forall>g. lo \<le> g \<and> g < f \<longrightarrow> \<not> run_at s g count) \<and>
          r = (f * PAGE_SIZE, mark [f..<f + count] True (next_page s) s)) \<or>
     ((\<forall>f. lo \<le> f \<and> f + count \<le> n \<longrightarrow> \<not> run_at s f count) \<and> r = (0, s))"

lemma contiguous_loop_found:
  assumes "run_state s lo count i run" and "page_free s i" and "Suc run = count" and "i < n"
  shows "run_result s lo count n (contiguous_loop count run (i # ps) s)"
proof -
  have f: "i + 1 - count = i - run" "i - run + count = Suc i" "lo \<le> i - run"
    using assms by (auto simp: run_state_def)
  have "contiguous_loop count run (i # ps) s =
          ((i - run) * PAGE_SIZE, mark [i - run..<i - run + count] True (next_page s) s)"
    using assms(2,3) f by (simp add: mark_def set_free_pages_def Let_def)
  moreover have "run_at s (i - run) count"
    using run_at_extend [of s i run] assms by (simp add: run_state_def)
  moreover have "\<forall>g. lo \<le> g \<and> g < i - run \<longrightarrow> \<not> run_at s g count"
    using assms(1) f by (auto simp: run_state_def)
  ultimately show ?thesis using f assms(4) unfolding run_result_def by (intro disjI1 exI [of _ "i - run"]) simp
qed

lemma contiguous_loop_result:
  "run_state s lo count i run \<Longrightarrow> i \<le> n \<Longrightarrow> run_result s lo count n (contiguous_loop count run [i..<n] s)"
proof (induction "n - i" arbitrary: i run)
  case 0
  then show ?case by (auto simp: run_result_def run_state_def)
next
  case (Suc d)
  then have i: "i < n" and d: "d = n - Suc i" by auto
  then have list: "[i..<n] = i # [Suc i..<n]" by (simp add: upt_conv_Cons)
  show ?case
  proof (cases "page_free s i \<and> Suc run = count")
    case True
    then show ?thesis using contiguous_loop_found Suc.prems(1) i by (simp add: list)
  next
    case False
    then have "run_state s lo count (Suc i) (if page_free s i then Suc run else 0)"
      using run_state_reset run_state_grow Suc.prems(1) by auto
    from Suc.hyps(1) [OF d this] i have
      "run_result s lo count n (contiguous_loop count (if page_free s i then Suc run else 0) [Suc i..<n] s)"
      by simp
    moreover have "count \<noteq> 0" using Suc.prems(1) by (simp add: run_state_def)
    ultimately show ?thesis using False by (auto simp: list Let_def split: if_splits)
  qed
qed

lemma pmm_allocate_contiguous_result:
  assumes "pmm_inv s" and "0 < count" and "count \<le> free_pages (statistics s)"
  shows "run_result s (RUM_LOW_RESERVED_END div PAGE_SIZE) count (pages s) (pmm_allocate_contiguous count s)"
proof (cases "RUM_LOW_RESERVED_END div PAGE_SIZE \<le> pages s")
  case True
  have "run_state s (RUM_LOW_RESERVED_END div PAGE_SIZE) count (RUM_LOW_RESERVED_END div PAGE_SIZE) 0"
    using assms(2) by (auto simp: run_state_def run_at_def)
  from contiguous_loop_result [OF this True] assms show ?thesis
    by (simp add: pmm_allocate_contiguous_def pmm_inv_def)
next
  case False
  then show ?thesis using assms(2) by (auto simp: run_result_def pmm_allocate_contiguous_def)
qed

lemma run_at_free_set:
  assumes "pmm_inv s" and "f + count \<le> pages s"
  shows "run_at s f count \<longleftrightarrow> {f..<f + count} \<subseteq> free_set s"
  using page_free_iff [of _ s] pmm_inv_bounds(1) [OF assms(1)] assms(2)
  by (fastforce simp: run_at_def subset_iff)

lemma pmm_free_contiguous_eq:
  assumes "pmm_inv s"
  defines "ps \<equiv> \<lambda>a n. {a div PAGE_SIZE..<a div PAGE_SIZE + n}"
  shows "pmm_free_contiguous a n s =
     (if 0 < n \<and> a mod PAGE_SIZE = 0 \<and> ps a n \<subseteq> page_set (allocated s)
      then (True, mark [a div PAGE_SIZE..<a div PAGE_SIZE + n] False (min (a div PAGE_SIZE) (next_page s)) s)
      else (False, s))"
proof -
  let ?f = "a div PAGE_SIZE"
  have sub: "page_set (allocated s) \<subseteq> {..<pages s}"
    using assms(1) by (auto simp: pmm_inv_def)
  have lim: "limit (statistics s) = pages s * PAGE_SIZE"
    using assms(1) by (auto simp: pmm_inv_def pages_def)
  have bits: "(\<forall>i\<in>set [0..<n]. bitmap_bit (managed s) (?f + i) \<and> bitmap_bit (allocated s) (?f + i)) \<longleftrightarrow>
              ps a n \<subseteq> page_set (allocated s)" if "?f + n \<le> pages s"
  proof -
    have "?f + i < PAGE_COUNT" if "i < n" for i
      using that \<open>?f + n \<le> pages s\<close> pmm_inv_bounds(1) [OF assms(1)] by simp
    then have "(bitmap_bit (managed s) (?f + i) \<and> bitmap_bit (allocated s) (?f + i)) =
               (?f + i \<in> page_set (allocated s))" if "i < n" for i
      using assms(1) that by (auto simp: pmm_inv_def page_set_def)
    then show ?thesis by (auto simp: ps_def window_subset)
  qed
  have range: "a < limit (statistics s) \<and> n \<le> (limit (statistics s) - a) div PAGE_SIZE \<longleftrightarrow> ?f + n \<le> pages s"
    if "0 < n" "a mod PAGE_SIZE = 0"
    using that unfolding lim by (auto simp: layout_defs)
  have fits: "ps a n \<subseteq> page_set (allocated s) \<Longrightarrow> 0 < n \<Longrightarrow> ?f + n \<le> pages s"
    using sub unfolding ps_def window_subset by (auto dest!: spec [of _ "n - 1"])
  have fold: "fold (\<lambda>i bm. bitmap_set bm (?f + i) False) [0..<n] bm =
              fold (\<lambda>p bm. bitmap_set bm p False) [?f..<?f + n] bm" for bm
    by (simp add: map_add_upt [symmetric] fold_map comp_def add.commute)
  have "ready s" using assms(1) by (simp add: pmm_inv_def)
  then show ?thesis
    using range bits fits unfolding pmm_free_contiguous_def Let_def fold
    by (auto simp: mark_def set_free_pages_def min_def)
qed

section \<open>The frame interface\<close>

text \<open>What the components above rely on: a pool of frames, the frames handed out, and a pair of
  operations that move one frame between them. Zero stands for exhaustion.\<close>

locale frame_allocator =
  fixes inv :: "'s \<Rightarrow> bool" and pool :: "'s \<Rightarrow> nat set" and taken :: "'s \<Rightarrow> nat set"
    and alloc :: "'s \<Rightarrow> nat \<times> 's" and release :: "nat \<Rightarrow> 's \<Rightarrow> bool \<times> 's"
  assumes pool_nonzero: "inv s \<Longrightarrow> 0 \<notin> pool s"
    and taken_pool: "inv s \<Longrightarrow> taken s \<subseteq> pool s"
    and alloc_law: "inv s \<Longrightarrow> alloc s = (a, s') \<Longrightarrow>
      inv s' \<and> pool s' = pool s \<and>
      (if taken s = pool s then a = 0 \<and> taken s' = taken s
       else a \<in> pool s - taken s \<and> taken s' = insert a (taken s))"
    and release_law: "inv s \<Longrightarrow> release a s = (ok, s') \<Longrightarrow>
      inv s' \<and> pool s' = pool s \<and> ok = (a \<in> taken s) \<and> taken s' = taken s - {a}"
begin

lemma alloc_fresh:
  "inv s \<Longrightarrow> alloc s = (a, s') \<Longrightarrow> a \<noteq> 0 \<Longrightarrow> a \<in> pool s \<and> a \<notin> taken s \<and> taken s' = insert a (taken s)"
  using alloc_law [of s a s'] by (auto split: if_splits)

lemma alloc_zero: "inv s \<Longrightarrow> alloc s = (0, s') \<Longrightarrow> taken s' = taken s \<and> taken s = pool s"
  using alloc_law [of s 0 s'] pool_nonzero [of s] by (auto split: if_splits)

lemma alloc_release:
  assumes "inv s" and "alloc s = (a, s1)" and "a \<noteq> 0" and "release a s1 = (ok, s2)"
  shows "ok \<and> inv s2 \<and> taken s2 = taken s \<and> pool s2 = pool s"
  using alloc_law [OF assms(1,2)] alloc_fresh [OF assms(1-3)] release_law [OF _ assms(4)] by auto

lemma release_alloc_succeeds:
  assumes "inv s" and "a \<in> taken s" and "release a s = (ok, s1)" and "alloc s1 = (b, s2)"
  shows "b \<noteq> 0"
proof -
  have s1: "inv s1" "pool s1 = pool s" "taken s1 = taken s - {a}"
    using release_law [OF assms(1,3)] by auto
  then have "taken s1 \<noteq> pool s1" using assms(2) taken_pool [OF assms(1)] by auto
  with alloc_law [OF s1(1) assms(4)] pool_nonzero [OF s1(1)] show ?thesis by auto
qed

end

definition frames :: "nat set \<Rightarrow> nat set" where
  "frames ps = (\<lambda>p. p * PAGE_SIZE) ` ps"

lemma inj_frame: "inj (\<lambda>p. p * PAGE_SIZE)" by (simp add: inj_def)

lemma frames_simps [simp]:
  "p * PAGE_SIZE \<in> frames ps \<longleftrightarrow> p \<in> ps" "frames (insert p ps) = insert (p * PAGE_SIZE) (frames ps)"
  "frames (ps - {p}) = frames ps - {p * PAGE_SIZE}" "frames ps = frames qs \<longleftrightarrow> ps = qs"
  "frames ps \<subseteq> frames qs \<longleftrightarrow> ps \<subseteq> qs"
  using inj_frame
  by (auto simp: frames_def inj_image_eq_iff inj_image_mem_iff inj_image_subset_iff image_set_diff)

lemma frames_iff: "a \<in> frames ps \<longleftrightarrow> a mod PAGE_SIZE = 0 \<and> a div PAGE_SIZE \<in> ps"
  using PAGE_SIZE_pos by (auto simp: frames_def image_iff intro!: bexI [of _ "a div PAGE_SIZE"])

lemma free_set_empty: "pmm_inv s \<Longrightarrow> free_set s = {} \<longleftrightarrow> page_set (allocated s) = page_set (managed s)"
  by (auto simp: pmm_inv_def free_set_def)

interpretation fr: frame_allocator pmm_inv "\<lambda>s. frames (page_set (managed s))"
  "\<lambda>s. frames (page_set (allocated s))" pmm_allocate_page pmm_free_page
proof
  fix s s' :: pmm and a :: nat and ok :: bool
  assume inv: "pmm_inv s"
  show "0 \<notin> frames (page_set (managed s))"
    using inv by (auto simp: pmm_inv_def frames_def layout_defs)
  show "frames (page_set (allocated s)) \<subseteq> frames (page_set (managed s))"
    using inv by (simp add: pmm_inv_def)
  show "pmm_inv s' \<and> frames (page_set (managed s')) = frames (page_set (managed s)) \<and>
      (if frames (page_set (allocated s)) = frames (page_set (managed s))
       then a = 0 \<and> frames (page_set (allocated s')) = frames (page_set (allocated s))
       else a \<in> frames (page_set (managed s)) - frames (page_set (allocated s)) \<and>
            frames (page_set (allocated s')) = insert a (frames (page_set (allocated s))))"
    if "pmm_allocate_page s = (a, s')"
    using pmm_allocate_page_cases [OF inv] that mark_sets [OF inv, of "[_]" True] free_set_empty [OF inv]
    by (auto simp: inv free_set_def insert_absorb)
  show "pmm_inv s' \<and> frames (page_set (managed s')) = frames (page_set (managed s)) \<and>
      ok = (a \<in> frames (page_set (allocated s))) \<and>
      frames (page_set (allocated s')) = frames (page_set (allocated s)) - {a}"
    if "pmm_free_page a s = (ok, s')"
  proof (cases "a \<in> frames (page_set (allocated s))")
    case True
    then have p: "a div PAGE_SIZE \<in> page_set (allocated s)" "a = a div PAGE_SIZE * PAGE_SIZE"
      by (auto simp: frames_iff)
    then have "min (a div PAGE_SIZE) (next_page s) < pages s" using inv by (auto simp: pmm_inv_def)
    with that True p mark_sets [OF inv, of "[a div PAGE_SIZE]" False] show ?thesis
      by (auto simp: pmm_free_page_eq [OF inv] pmm_is_allocated_iff [OF inv] frames_iff)
  next
    case False
    with that inv show ?thesis
      by (auto simp: pmm_free_page_eq [OF inv] pmm_is_allocated_iff [OF inv] frames_iff)
  qed
qed

end
