(* ===== verification/Rum_Pmm_Props.thy ===== *)
theory Rum_Pmm_Props
  imports Rum_Pmm
begin

text \<open>
  Properties of the page allocator at run time: single pages, contiguous runs and their release,
  with a small concrete allocator state on which each is instantiated.
\<close>

section \<open>A concrete state\<close>

text \<open>Pages 256, 257 and 258 are managed and free; the memory window ends at page 259.\<close>

definition pmm_sample :: pmm where
  "pmm_sample =
     \<lparr> managed = fold (\<lambda>p bm. bitmap_set bm p True) [256..<259] (replicate BITMAP_WORDS 0),
       allocated = replicate BITMAP_WORDS 0,
       statistics = \<lparr> usable_pages = 259, managed_pages = 3, free_pages = 3, limit = 259 * PAGE_SIZE \<rparr>,
       next_page = 256, ready = True \<rparr>"

lemma page_set_zero [simp]: "page_set (replicate BITMAP_WORDS 0) = {}"
proof -
  have "p div 32 < BITMAP_WORDS" if "p < PAGE_COUNT" for p
    using that by (simp add: pmm_consts)
  then show ?thesis by (auto simp: page_set_def bitmap_bit_iff)
qed

lemma pmm_sample_sets:
  "page_set (managed pmm_sample) = {256, 257, 258}" "page_set (allocated pmm_sample) = {}"
  "free_set pmm_sample = {256, 257, 258}"
proof -
  have "set [256..<259] \<subseteq> {..<PAGE_COUNT}" by (simp add: pmm_consts)
  from page_set_fill(1) [OF _ this, of "replicate BITMAP_WORDS 0" True]
  have "page_set (managed pmm_sample) = set [256..<259]" by (simp add: pmm_sample_def)
  also have "set [256..<259] = {256, 257, 258 :: nat}" by (auto simp: upt_conv_Cons)
  finally show *: "page_set (managed pmm_sample) = {256, 257, 258}" .
  show "page_set (allocated pmm_sample) = {}" by (simp add: pmm_sample_def)
  with * show "free_set pmm_sample = {256, 257, 258}" by (simp add: free_set_def)
qed

lemma pages_sample: "pages pmm_sample = 259"
  by (simp add: pages_def pmm_sample_def)

lemma pmm_sample_inv: "pmm_inv pmm_sample"
proof -
  have "set [256..<259] \<subseteq> {..<PAGE_COUNT}" by (simp add: pmm_consts)
  from page_set_fill(2) [OF _ this, of "replicate BITMAP_WORDS 0" True]
  have "length (managed pmm_sample) = BITMAP_WORDS" by (simp add: pmm_sample_def)
  then show ?thesis
    using pmm_sample_sets pages_sample
    by (auto simp: pmm_inv_def) (simp_all add: pmm_sample_def pmm_consts)
qed

section \<open>Properties\<close>

text \<open>C9: allocating a page keeps the allocator well formed and the managed pool unchanged. It
  returns zero exactly when no managed page is free; otherwise the page-aligned address of a
  managed page above the first megabyte and below the memory limit that was free, and that page
  is the only one whose state changes.\<close>

theorem pmm_allocate_page_correct:
  assumes "pmm_inv s" and "pmm_allocate_page s = (a, s')"
  shows "pmm_inv s' \<and> page_set (managed s') = page_set (managed s) \<and>
         (if free_set s = {} then a = 0 \<and> s' = s
          else a mod PAGE_SIZE = 0 \<and> RUM_LOW_RESERVED_END \<le> a \<and> a < limit (statistics s) \<and>
               a div PAGE_SIZE \<in> free_set s \<and>
               page_set (allocated s') = insert (a div PAGE_SIZE) (page_set (allocated s)))"
proof (cases "free_set s = {}")
  case True
  with pmm_allocate_page_cases [OF assms(1)] assms show ?thesis by auto
next
  case False
  then obtain p c where p: "p \<in> free_set s" "c < pages s" "a = p * PAGE_SIZE" "s' = mark [p] True c s"
    using pmm_allocate_page_cases [OF assms(1)] assms(2) by auto
  with mark_sets [OF assms(1), of "[p]" True c] free_set_low [OF assms(1) p(1)] False
  show ?thesis by simp
qed

theorem pmm_allocate_page_correct_witness:
  "\<exists>a s'. pmm_allocate_page pmm_sample = (a, s') \<and> pmm_inv s' \<and> a div PAGE_SIZE \<in> {256, 257, 258} \<and>
          page_set (allocated s') = {a div PAGE_SIZE}"
proof -
  obtain a s' where e: "pmm_allocate_page pmm_sample = (a, s')" by fastforce
  from pmm_allocate_page_correct [OF pmm_sample_inv e] e show ?thesis
    by (simp add: pmm_sample_sets)
qed

text \<open>C16: a contiguous allocation that is not larger than the number of free pages takes the lowest
  run of free pages above the first megabyte and marks exactly that run; it returns zero and
  changes nothing exactly when there is no such run.\<close>

theorem pmm_allocate_contiguous_correct:
  assumes "pmm_inv s" and "0 < n" and "n \<le> free_pages (statistics s)"
    and "pmm_allocate_contiguous n s = (a, s')"
  shows "pmm_inv s' \<and>
         ((\<exists>f. a = f * PAGE_SIZE \<and> {f..<f + n} \<subseteq> free_set s \<and> a \<noteq> 0 \<and>
               (\<forall>g<f. \<not> {g..<g + n} \<subseteq> free_set s) \<and>
               page_set (allocated s') = page_set (allocated s) \<union> {f..<f + n}) \<or>
          (\<forall>g. \<not> {g..<g + n} \<subseteq> free_set s) \<and> a = 0 \<and> s' = s)"
proof -
  let ?lo = "RUM_LOW_RESERVED_END div PAGE_SIZE"
  note res = pmm_allocate_contiguous_result [OF assms(1-3)]
  have window: "?lo \<le> g \<and> g + n \<le> pages s" if "{g..<g + n} \<subseteq> free_set s" for g
  proof -
    have "g \<in> free_set s" "g + (n - 1) \<in> free_set s"
      using that assms(2) window_subset [of g n "free_set s"] by (auto dest: spec [of _ 0])
    then show ?thesis using free_set_low(1,2) [OF assms(1)] assms(2) by fastforce
  qed
  have none: "\<not> {g..<g + n} \<subseteq> free_set s" if "?lo \<le> g \<and> g + n \<le> pages s \<longrightarrow> \<not> run_at s g n" for g
    using that window [of g] run_at_free_set [OF assms(1), of g n] by blast
  show ?thesis
  proof (cases "\<exists>f. ?lo \<le> f \<and> f + n \<le> pages s \<and> run_at s f n")
    case False
    then show ?thesis using res assms(1,4) none by (auto simp: run_result_def)
  next
    case True
    then obtain f where f: "?lo \<le> f" "f + n \<le> pages s" "run_at s f n"
        "\<forall>g. ?lo \<le> g \<and> g < f \<longrightarrow> \<not> run_at s g n"
        "a = f * PAGE_SIZE" "s' = mark [f..<f + n] True (next_page s) s"
      using res assms(4) by (auto simp: run_result_def)
    have sub: "{f..<f + n} \<subseteq> free_set s" using run_at_free_set [OF assms(1) f(2)] f(3) by simp
    have "f \<in> page_set (managed s)" using sub assms(2) by (auto simp: free_set_def subset_iff)
    then have "next_page s < pages s" using assms(1) by (auto simp: pmm_inv_def)
    with mark_sets [OF assms(1), of "[f..<f + n]" True] sub f(6)
    have "pmm_inv s' \<and> page_set (allocated s') = page_set (allocated s) \<union> {f..<f + n}" by simp
    moreover have "a \<noteq> 0" using f(1,5) by (simp add: layout_defs)
    ultimately show ?thesis using f(4,5) sub none by auto
  qed
qed

theorem pmm_allocate_contiguous_correct_witness:
  "\<exists>a s'. pmm_allocate_contiguous 2 pmm_sample = (a, s') \<and> a = 256 * PAGE_SIZE \<and> pmm_inv s'"
proof -
  obtain a s' where e: "pmm_allocate_contiguous 2 pmm_sample = (a, s')" by fastforce
  have n: "2 \<le> free_pages (statistics pmm_sample)" by (simp add: pmm_sample_def)
  have run: "{256..<256 + 2} \<subseteq> free_set pmm_sample" by (auto simp: pmm_sample_sets)
  have low: "g = 256" if "{g..<g + 2} \<subseteq> free_set pmm_sample" "\<forall>h<g. \<not> {h..<h + 2} \<subseteq> free_set pmm_sample" for g
  proof -
    have "256 \<le> g" using that(1) by (auto simp: pmm_sample_sets subset_iff dest: spec [of _ g])
    moreover have "\<not> 256 < g" using that(2) run by blast
    ultimately show ?thesis by simp
  qed
  have "0 < (2 :: nat)" by simp
  note c = pmm_allocate_contiguous_correct [OF pmm_sample_inv this n e]
  then have "a = 256 * PAGE_SIZE" using run low by metis
  with c e show ?thesis by blast
qed

text \<open>C17: releasing a run succeeds exactly when it is nonempty, page-aligned and every page of it
  is handed out; then exactly these pages become free, and otherwise nothing changes.\<close>

theorem pmm_free_contiguous_correct:
  assumes "pmm_inv s" and "pmm_free_contiguous a n s = (ok, s')"
  shows "pmm_inv s' \<and>
         ok = (0 < n \<and> a mod PAGE_SIZE = 0 \<and>
               {a div PAGE_SIZE..<a div PAGE_SIZE + n} \<subseteq> page_set (allocated s)) \<and>
         (if ok then page_set (allocated s') = page_set (allocated s) - {a div PAGE_SIZE..<a div PAGE_SIZE + n}
          else s' = s)"
proof (cases "0 < n \<and> a mod PAGE_SIZE = 0 \<and> {a div PAGE_SIZE..<a div PAGE_SIZE + n} \<subseteq> page_set (allocated s)")
  case True
  then have "a div PAGE_SIZE \<in> page_set (managed s)" using assms(1) by (auto simp: pmm_inv_def subset_iff)
  then have "min (a div PAGE_SIZE) (next_page s) < pages s" using assms(1) by (auto simp: pmm_inv_def)
  with mark_sets [OF assms(1), of "[a div PAGE_SIZE..<a div PAGE_SIZE + n]" False] True assms
  show ?thesis by (auto simp: pmm_free_contiguous_eq [OF assms(1)])
next
  case False
  with assms show ?thesis by (simp add: pmm_free_contiguous_eq [OF assms(1)])
qed

theorem pmm_free_contiguous_correct_witness:
  "\<exists>s'. pmm_free_contiguous (256 * PAGE_SIZE) 2 (mark [256, 257] True 256 pmm_sample) = (True, s') \<and>
        pmm_inv s' \<and> page_set (allocated s') = {}"
proof -
  let ?s = "mark [256, 257] True 256 pmm_sample"
  have inv: "pmm_inv ?s" and al: "page_set (allocated ?s) = {256, 257}"
    using mark_sets [OF pmm_sample_inv, of "[256, 257]" True 256] pages_sample by (auto simp: pmm_sample_sets)
  obtain ok s' where e: "pmm_free_contiguous (256 * PAGE_SIZE) 2 ?s = (ok, s')" by fastforce
  have "{256..<258 :: nat} = {256, 257}" by auto
  with pmm_free_contiguous_correct [OF inv e] e show ?thesis by (auto simp: al)
qed

text \<open>C18: allocating a page and releasing it restores the set of allocated pages, and the release
  is accepted.\<close>

theorem pmm_allocate_free_page:
  assumes "pmm_inv s" and "pmm_allocate_page s = (a, s1)" and "a \<noteq> 0" and "pmm_free_page a s1 = (ok, s2)"
  shows "ok \<and> pmm_inv s2 \<and> page_set (allocated s2) = page_set (allocated s)"
  using fr.alloc_release [OF assms] by simp

theorem pmm_allocate_free_page_witness:
  "\<exists>a s1 s2. pmm_allocate_page pmm_sample = (a, s1) \<and> pmm_free_page a s1 = (True, s2) \<and> pmm_inv s2 \<and>
             page_set (allocated s2) = {}"
proof -
  obtain a s1 ok s2 where e: "pmm_allocate_page pmm_sample = (a, s1)" "pmm_free_page a s1 = (ok, s2)"
    by fastforce
  have "a \<noteq> 0" using pmm_allocate_page_cases [OF pmm_sample_inv] e(1)
    by (auto simp: pmm_sample_sets)
  from pmm_allocate_free_page [OF pmm_sample_inv e(1) this e(2)] e show ?thesis
    by (auto simp: pmm_sample_sets)
qed

end
