(* ===== verification/Rum_Pmm_Boot.thy ===== *)
theory Rum_Pmm_Boot
  imports Rum_Pmm_Props
begin

text \<open>
  What \<open>pmm_initialize\<close> establishes. The memory map and the Multiboot structures are read from
  an arbitrary memory; the managed pages after a successful start are exactly the whole pages of
  available entries minus every page that a reserved entry, low memory, the kernel image or any
  boot structure touches.
\<close>

section \<open>Pages and byte ranges\<close>

definition overlaps :: "nat \<Rightarrow> nat \<Rightarrow> nat \<Rightarrow> bool" where
  "overlaps p s e \<longleftrightarrow> s < (p + 1) * PAGE_SIZE \<and> p * PAGE_SIZE < e"

definition inside :: "nat \<Rightarrow> nat \<Rightarrow> nat \<Rightarrow> bool" where
  "inside p s e \<longleftrightarrow> s \<le> p * PAGE_SIZE \<and> (p + 1) * PAGE_SIZE \<le> e"

definition covered :: "(nat \<times> nat) list \<Rightarrow> nat set" where
  "covered R = {p. \<exists>(a, b)\<in>set R. a < b \<and> overlaps p a b}"

lemma covered_simps [simp]:
  "covered [] = {}" "covered (R @ Q) = covered R \<union> covered Q"
  "covered ((a, b) # R) = {p. a < b \<and> overlaps p a b} \<union> covered R"
  by (auto simp: covered_def)

lemma page_limit: "p < PAGE_COUNT \<longleftrightarrow> (p + 1) * PAGE_SIZE \<le> PMM_PHYSICAL_LIMIT"
  by (auto simp: pmm_consts)

lemma round_down_le: "s div PAGE_SIZE \<le> p \<longleftrightarrow> s < (p + 1) * PAGE_SIZE"
  by (metis PAGE_SIZE_pos(1) Suc_eq_plus1 div_less_iff_less_mult less_Suc_eq_le)

lemma less_round_down: "p < e div PAGE_SIZE \<longleftrightarrow> (p + 1) * PAGE_SIZE \<le> e"
  by (metis PAGE_SIZE_pos(1) Suc_eq_plus1 less_eq_Suc_le less_eq_div_iff_mult_less_eq)

lemma round_up_le: "(s + PAGE_SIZE - 1) div PAGE_SIZE \<le> p \<longleftrightarrow> s \<le> p * PAGE_SIZE"
  unfolding round_down_le add_mult_distrib using PAGE_SIZE_pos(1) by (intro iffI; linarith)

lemma less_round_up: "p < (e + PAGE_SIZE - 1) div PAGE_SIZE \<longleftrightarrow> p * PAGE_SIZE < e"
  using round_up_le [of e p] by linarith

lemmas round_simps = round_up_le less_round_up round_down_le less_round_down

lemma pmm_range_pages:
  assumes "length m = BITMAP_WORDS" and "s < e"
  shows "length (pmm_range s e v m) = BITMAP_WORDS"
    and "page_set (pmm_range s e v m) =
           (if v then page_set m \<union> {p. p < PAGE_COUNT \<and> inside p s e} else page_set m - {p. overlaps p s e})"
proof -
  define e1 where "e1 = (if e > PMM_PHYSICAL_LIMIT then PMM_PHYSICAL_LIMIT else e)"
  define ps where "ps = (if v then [(s + PAGE_SIZE - 1) div PAGE_SIZE..<e1 div PAGE_SIZE]
                         else [s div PAGE_SIZE..<(e1 + PAGE_SIZE - 1) div PAGE_SIZE])"
  have range: "pmm_range s e v m = (if s \<ge> PMM_PHYSICAL_LIMIT then m else fold (\<lambda>p bm. bitmap_set bm p v) ps m)"
    by (simp add: pmm_range_def e1_def ps_def Let_def)
  have e1: "e1 \<le> PMM_PHYSICAL_LIMIT" by (simp add: e1_def)
  have ps: "set ps = {p. p < PAGE_COUNT \<and> (if v then inside p s e1 else overlaps p s e1)}"
    using e1 by (auto simp: ps_def round_simps inside_def overlaps_def page_limit)
       (simp_all add: PMM_PHYSICAL_LIMIT_def layout_defs)
  have mem: "p \<in> set ps \<longleftrightarrow> (if v then inside p s e else overlaps p s e)"
    if "p < PAGE_COUNT" "s < PMM_PHYSICAL_LIMIT" for p
    using that PAGE_SIZE_pos(1) by (auto simp: ps e1_def inside_def overlaps_def page_limit simp del: PAGE_SIZE_pos)
  have far: "\<not> inside p s e" "\<not> overlaps p s e" if "p < PAGE_COUNT" "s \<ge> PMM_PHYSICAL_LIMIT" for p
    using that PAGE_SIZE_pos(1) by (auto simp: inside_def overlaps_def page_limit simp del: PAGE_SIZE_pos)
  have "set ps \<subseteq> {..<PAGE_COUNT}" by (auto simp: ps)
  note fill = page_set_fill [OF assms(1) this, of v]
  show "length (pmm_range s e v m) = BITMAP_WORDS" using fill(2) assms(1) by (simp add: range)
  show "page_set (pmm_range s e v m) =
          (if v then page_set m \<union> {p. p < PAGE_COUNT \<and> inside p s e} else page_set m - {p. overlaps p s e})"
  proof (cases "s \<ge> PMM_PHYSICAL_LIMIT")
    case True
    then show ?thesis using far by (auto simp: range page_set_def)
  next
    case False
    have "page_set (pmm_range s e v m) = (if v then page_set m \<union> set ps else page_set m - set ps)"
      using fill(1) False by (simp add: range)
    then show ?thesis using mem False ps by (auto simp: page_set_def split: if_splits)
  qed
qed

section \<open>Reservations cut their pages\<close>

definition cuts :: "bool \<times> bitmap \<Rightarrow> bitmap \<Rightarrow> (nat \<times> nat) list \<Rightarrow> bool" where
  "cuts r m R \<longleftrightarrow>
     (length m = BITMAP_WORDS \<longrightarrow> fst r \<longrightarrow>
        length (snd r) = BITMAP_WORDS \<and> page_set (snd r) = page_set m - covered R)"

lemma cuts_and_then [inv_intros]:
  "cuts r m R \<Longrightarrow> (\<And>m1. cuts (f m1) m1 Q) \<Longrightarrow> cuts (and_then r f) m (R @ Q)"
  by (auto simp: cuts_def and_then_def)

lemma cuts_reserve [inv_intros]: "cuts (reserve a n m) m [(a, a + n)]"
  using pmm_range_pages [of m a "a + n" False] by (auto simp: cuts_def reserve_def)

lemma cuts_skip [inv_intros]: "cuts (True, m) m []"
  by (simp add: cuts_def)

lemma cuts_refuse: "cuts (False, m) m R"
  by (simp add: cuts_def)

lemma cuts_if: "cuts x m R \<Longrightarrow> cuts y m Q \<Longrightarrow> cuts (if c then x else y) m (if c then R else Q)"
  by simp

lemma cuts_when [inv_intros]: "cuts x m R \<Longrightarrow> cuts (if c then x else (True, m)) m (if c then R else [])"
  by (simp add: cuts_skip)

definition string_region :: "memory \<Rightarrow> nat \<Rightarrow> (nat \<times> nat) list" where
  "string_region mem a =
     (if a = 0 then [] else case string_size mem a 0 of Some n \<Rightarrow> [(a, a + n)] | None \<Rightarrow> [])"

lemma cuts_reserve_string [inv_intros]: "cuts (reserve_string mem a m) m (string_region mem a)"
  by (auto simp: reserve_string_def string_region_def cuts_skip cuts_refuse cuts_reserve split: option.split)

definition module_region :: "memory \<Rightarrow> nat \<Rightarrow> nat \<Rightarrow> (nat \<times> nat) list" where
  "module_region mem base i =
     (let a = base + i * SIZEOF_MODULE in
      (rd mem a 4, rd mem a 4 + (rd mem (a + 4) 4 - rd mem a 4)) # string_region mem (rd mem (a + 8) 4))"

lemma cuts_reserve_modules [inv_intros]:
  "cuts (reserve_modules mem base is m) m (concat (map (module_region mem base) is))"
proof (induction "is" arbitrary: m)
  case (Cons i "is")
  let ?a = "base + i * SIZEOF_MODULE"
  have step: "cuts (and_then (reserve (rd mem ?a 4) (rd mem (?a + 4) 4 - rd mem ?a 4) m)
      (reserve_string mem (rd mem (?a + 8) 4))) m (module_region mem base i)"
    using cuts_and_then [OF cuts_reserve cuts_reserve_string] by (fastforce simp: module_region_def Let_def)
  show ?case
    using cuts_and_then [OF step Cons.IH] by (auto simp: Let_def cuts_refuse)
qed (simp add: cuts_skip)

definition section_region :: "memory \<Rightarrow> nat \<Rightarrow> nat \<Rightarrow> nat \<Rightarrow> (nat \<times> nat) list" where
  "section_region mem base stride i =
     (let a = rd mem (base + i * stride + 12) 4; n = rd mem (base + i * stride + 20) 4 in
      if a \<noteq> 0 then [(a, a + n)] else [])"

lemma cuts_reserve_sections [inv_intros]:
  "cuts (reserve_sections mem base stride is m) m (concat (map (section_region mem base stride) is))"
proof (induction "is" arbitrary: m)
  case (Cons i "is")
  let ?a = "rd mem (base + i * stride + 12) 4"
  show ?case
    using cuts_and_then [OF cuts_when [OF cuts_reserve, of "?a \<noteq> 0" ?a] Cons.IH]
    by (simp add: Let_def section_region_def)
qed (simp add: cuts_skip)

text \<open>The regions of the boot structures that the flags announce.\<close>

definition module_table_regions :: "memory \<Rightarrow> multiboot_info \<Rightarrow> (nat \<times> nat) list" where
  "module_table_regions mem info =
     (if info_flag info 3
      then (mods_addr info, mods_addr info + mods_count info * SIZEOF_MODULE) #
           concat (map (module_region mem (mods_addr info)) [0..<mods_count info])
      else [])"

definition symbol_regions :: "memory \<Rightarrow> multiboot_info \<Rightarrow> (nat \<times> nat) list" where
  "symbol_regions mem info =
     (let s0 = symbols info ! 0; s1 = symbols info ! 1; s2 = symbols info ! 2 in
      (if info_flag info 4 then [(s2, s2 + (s0 + s1))] else []) @
      (if info_flag info 5
       then (s2, s2 + s0 * s1) # concat (map (section_region mem s2 s1) [0..<s0]) else []))"

definition config_regions :: "memory \<Rightarrow> multiboot_info \<Rightarrow> (nat \<times> nat) list" where
  "config_regions mem info =
     (if info_flag info 8 \<and> config_table info \<noteq> 0
      then [(config_table info, config_table info + (rd mem (config_table info) 2 + 2))] else [])"

definition vbe_regions :: "multiboot_info \<Rightarrow> (nat \<times> nat) list" where
  "vbe_regions info =
     (let seg = vbe_interface_seg info * 16 + vbe_interface_off info in
      if info_flag info 11
      then [(vbe_control_info info, vbe_control_info info + 512), (vbe_mode_info info, vbe_mode_info info + 256),
            (seg, seg + vbe_interface_len info)]
      else [])"

definition framebuffer_regions :: "memory \<Rightarrow> multiboot_info \<Rightarrow> (nat \<times> nat) list" where
  "framebuffer_regions mem info =
     (let palette = rd mem (framebuffer_color_info info) 4 in
      if info_flag info 12
      then (framebuffer_addr info, framebuffer_addr info + framebuffer_pitch info * framebuffer_height info) #
           (if framebuffer_type info = 0
            then [(palette, palette + rd mem (framebuffer_color_info info + 4) 2 * 3)] else [])
      else [])"

definition boot_regions :: "memory \<Rightarrow> nat \<Rightarrow> multiboot_info \<Rightarrow> (nat \<times> nat) list" where
  "boot_regions mem address info =
     [(address, address + SIZEOF_INFO)] @ [(mmap_addr info, mmap_addr info + mmap_length info)] @
     (if info_flag info 2 then string_region mem (cmdline info) else []) @
     (if info_flag info 9 then string_region mem (boot_loader_name info) else []) @
     module_table_regions mem info @ symbol_regions mem info @
     (if info_flag info 7 then [(drives_addr info, drives_addr info + drives_length info)] else []) @
     config_regions mem info @
     (if info_flag info 10 then [(apm_table info, apm_table info + 20)] else []) @
     vbe_regions info @ framebuffer_regions mem info"

lemma cuts_module_table [inv_intros]: "cuts (reserve_module_table mem info m) m (module_table_regions mem info)"
  using cuts_and_then [OF cuts_reserve cuts_reserve_modules]
  by (auto simp: reserve_module_table_def module_table_regions_def Let_def cuts_skip cuts_refuse)

lemma cuts_symbols [inv_intros]: "cuts (reserve_symbols mem info m) m (symbol_regions mem info)"
proof -
  let ?s0 = "symbols info ! 0" and ?s1 = "symbols info ! 1" and ?s2 = "symbols info ! 2"
  have elf: "cuts (if info_flag info 5 then
                     (if ?s0 * ?s1 \<noteq> 0 \<and> (?s2 = 0 \<or> ?s1 < 40) then (False, m1)
                      else and_then (reserve ?s2 (?s0 * ?s1) m1) (reserve_sections mem ?s2 ?s1 [0..<?s0]))
                   else (True, m1)) m1
      (if info_flag info 5
       then (?s2, ?s2 + ?s0 * ?s1) # concat (map (section_region mem ?s2 ?s1) [0..<?s0]) else [])" for m1
    using cuts_and_then [OF cuts_reserve cuts_reserve_sections, of ?s2 "?s0 * ?s1" m1 mem ?s2 ?s1 "[0..<?s0]"]
    by (intro cuts_when) (simp only: cuts_refuse append.simps split: if_split, simp)
  show ?thesis
  proof (cases "mb_flags info AND 0x30 = 0x30")
    case True
    then show ?thesis by (simp add: reserve_symbols_def cuts_refuse)
  next
    case False
    show ?thesis
      unfolding reserve_symbols_def symbol_regions_def Let_def
      by (simp only: False if_False) (rule cuts_and_then [OF cuts_when [OF cuts_reserve] elf])
  qed
qed

lemma cuts_config [inv_intros]: "cuts (reserve_config mem info m) m (config_regions mem info)"
  using cuts_reserve [of "config_table info" "rd mem (config_table info) 2 + 2" m]
  by (auto simp: reserve_config_def config_regions_def cuts_skip cuts_refuse)

lemma cuts_vbe [inv_intros]: "cuts (reserve_vbe info m) m (vbe_regions info)"
  using cuts_and_then [OF cuts_and_then [OF cuts_reserve cuts_reserve] cuts_reserve]
  by (simp add: reserve_vbe_def vbe_regions_def Let_def cuts_skip)

lemma cuts_framebuffer [inv_intros]: "cuts (reserve_framebuffer mem info m) m (framebuffer_regions mem info)"
proof -
  let ?a = "framebuffer_addr info" and ?n = "framebuffer_pitch info * framebuffer_height info"
  let ?m = "if ?n \<noteq> 0 then pmm_range ?a (?a + ?n) False m else m"
  have fb: "cuts (True, ?m) m [(?a, ?a + ?n)]"
    using pmm_range_pages [of m ?a "?a + ?n" False] by (auto simp: cuts_def)
  have "cuts (and_then (True, ?m) (\<lambda>m1. reserve p n m1)) m ([(?a, ?a + ?n)] @ [(p, p + n)])" for p n
    by (rule cuts_and_then [OF fb cuts_reserve])
  with fb show ?thesis
    by (auto simp: reserve_framebuffer_def framebuffer_regions_def Let_def cuts_skip cuts_refuse and_then_def)
qed

lemma cuts_boot_data: "cuts (reserve_boot_data mem address info m) m (boot_regions mem address info)"
  unfolding reserve_boot_data_def boot_regions_def by (intro inv_intros)

section \<open>The memory map\<close>

text \<open>The entries of a map, read in order with the stride each of them gives.\<close>

function mmap_entries :: "memory \<Rightarrow> nat \<Rightarrow> nat \<Rightarrow> nat \<Rightarrow> multiboot_mmap_entry list" where
  "mmap_entries mem base len offset =
     (if offset < len
      then (let e = read_mmap_entry mem (base + offset) in e # mmap_entries mem base len (offset + (e_size e + 4)))
      else [])"
  by pat_completeness auto
termination by (relation "measure (\<lambda>(_, _, len, offset). len - offset)") auto

declare mmap_entries.simps [simp del]

definition entry_end :: "multiboot_mmap_entry \<Rightarrow> nat" where
  "entry_end e = e_address e + e_length e"

definition available_pages :: "multiboot_mmap_entry list \<Rightarrow> nat set" where
  "available_pages es =
     {p. p < PAGE_COUNT \<and> (\<exists>e\<in>set es. e_type e = 1 \<and> e_length e \<noteq> 0 \<and> inside p (e_address e) (entry_end e))}"

definition reserved_pages :: "multiboot_mmap_entry list \<Rightarrow> nat set" where
  "reserved_pages es =
     {p. \<exists>e\<in>set es. e_type e \<noteq> 1 \<and> e_length e \<noteq> 0 \<and> overlaps p (e_address e) (entry_end e)}"

lemma entry_pages_Cons:
  "available_pages (e # es) =
     (if e_type e = 1 \<and> e_length e \<noteq> 0 then {p. p < PAGE_COUNT \<and> inside p (e_address e) (entry_end e)} else {}) \<union>
     available_pages es"
  "reserved_pages (e # es) =
     (if e_type e \<noteq> 1 \<and> e_length e \<noteq> 0 then {p. overlaps p (e_address e) (entry_end e)} else {}) \<union> reserved_pages es"
  "available_pages [] = {}" "reserved_pages [] = {}"
  by (auto simp: available_pages_def reserved_pages_def)

lemma map_pass_loop_pages:
  assumes "map_pass_loop mem base len available offset m = (True, m')" and "length m = BITMAP_WORDS"
  shows "length m' = BITMAP_WORDS \<and>
         page_set m' = (if available then page_set m \<union> available_pages (mmap_entries mem base len offset)
                        else page_set m - reserved_pages (mmap_entries mem base len offset))"
  using assms
proof (induction mem base len available offset m rule: map_pass_loop.induct)
  case (1 mem base len available offset m)
  show ?case
  proof (cases "offset < len")
    case False
    with 1 show ?thesis
      by (simp add: map_pass_loop.simps [of mem base] mmap_entries.simps [of mem base] entry_pages_Cons)
  next
    case True
    let ?e = "read_mmap_entry mem (base + offset)"
    let ?m1 = "if e_length ?e \<noteq> 0 \<and> (e_type ?e = 1) = available
               then pmm_range (e_address ?e) (entry_end ?e) available m else m"
    have ok: "\<not> len - offset < SIZEOF_MMAP_ENTRY" "\<not> (e_size ?e < 20 \<or> e_size ?e + 4 > len - offset \<or>
          e_length ?e > UINT64_MAX - e_address ?e)"
        "map_pass_loop mem base len available (offset + (e_size ?e + 4)) ?m1 = (True, m')"
      using 1(2) True unfolding map_pass_loop.simps [of mem base len available offset] entry_end_def Let_def
      by (auto split: if_splits)
    have m1: "length ?m1 = BITMAP_WORDS"
        "page_set ?m1 = (if e_length ?e \<noteq> 0 \<and> (e_type ?e = 1) = available
           then (if available then page_set m \<union> {p. p < PAGE_COUNT \<and> inside p (e_address ?e) (entry_end ?e)}
                 else page_set m - {p. overlaps p (e_address ?e) (entry_end ?e)}) else page_set m)"
      using 1(3) pmm_range_pages [of m "e_address ?e" "entry_end ?e" available] by (auto simp: entry_end_def)
    note IH = 1(1) [OF True ok(1) refl refl ok(2), folded entry_end_def, OF ok(3) m1(1)]
    have es: "mmap_entries mem base len offset = ?e # mmap_entries mem base len (offset + (e_size ?e + 4))"
      using True by (simp add: mmap_entries.simps [of mem base len offset] Let_def)
    show ?thesis using IH unfolding es entry_pages_Cons m1(2) by (auto split: if_splits)
  qed
qed

definition map_entries :: "memory \<Rightarrow> multiboot_info \<Rightarrow> multiboot_mmap_entry list" where
  "map_entries mem info = mmap_entries mem (mmap_addr info) (mmap_length info) 0"

lemma map_passes_pages:
  assumes "and_then (map_pass mem info True (replicate BITMAP_WORDS 0)) (map_pass mem info False) = (True, m)"
  shows "length m = BITMAP_WORDS"
    and "page_set m = available_pages (map_entries mem info) - reserved_pages (map_entries mem info)"
proof -
  obtain m1 where p1: "map_pass mem info True (replicate BITMAP_WORDS 0) = (True, m1)"
    and p2: "map_pass mem info False m1 = (True, m)"
    using assms by (auto simp: and_then_True)
  note a = map_pass_loop_pages [OF p1 [unfolded map_pass_def]]
  then have "length m1 = BITMAP_WORDS" by simp
  note b = map_pass_loop_pages [OF p2 [unfolded map_pass_def] this]
  show "length m = BITMAP_WORDS"
    and "page_set m = available_pages (map_entries mem info) - reserved_pages (map_entries mem info)"
    using a b by (simp_all add: map_entries_def)
qed

section \<open>Counting\<close>

lemma count_usable_fold:
  defines "f \<equiv> \<lambda>bm page st. if bitmap_bit bm page
                     then st\<lparr>usable_pages := usable_pages st + 1, limit := (page + 1) * PAGE_SIZE\<rparr> else st"
  shows "let st = fold (f bm) [0..<n] zero_statistics in
         usable_pages st = card {p. p < n \<and> bitmap_bit bm p} \<and> managed_pages st = 0 \<and>
         (\<exists>k\<le>n. limit st = k * PAGE_SIZE \<and> (\<forall>p<n. bitmap_bit bm p \<longrightarrow> p < k))"
proof (induction n)
  case 0
  then show ?case by (simp add: zero_statistics_def)
next
  case (Suc n)
  have "{p. p < Suc n \<and> bitmap_bit bm p} =
        (if bitmap_bit bm n then insert n {p. p < n \<and> bitmap_bit bm p} else {p. p < n \<and> bitmap_bit bm p})"
    by (auto simp: less_Suc_eq)
  with Suc show ?case
    by (auto simp: Let_def f_def less_Suc_eq intro: exI [of _ "Suc n"])
qed

lemma count_managed_fold:
  "fold (\<lambda>page st. if bitmap_bit bm page then st\<lparr>managed_pages := managed_pages st + 1\<rparr> else st) [0..<n] st =
     st\<lparr>managed_pages := managed_pages st + card {p. p < n \<and> bitmap_bit bm p}\<rparr>"
proof (induction n)
  case (Suc n)
  have "{p. p < Suc n \<and> bitmap_bit bm p} =
        (if bitmap_bit bm n then insert n {p. p < n \<and> bitmap_bit bm p} else {p. p < n \<and> bitmap_bit bm p})"
    by (auto simp: less_Suc_eq)
  with Suc show ?case by simp
qed simp

section \<open>Initialisation\<close>

definition usable_set :: "memory \<Rightarrow> multiboot_info \<Rightarrow> nat set" where
  "usable_set mem info = available_pages (map_entries mem info) - reserved_pages (map_entries mem info)"

definition permanent_regions :: "memory \<Rightarrow> nat \<Rightarrow> nat \<Rightarrow> nat \<Rightarrow> (nat \<times> nat) list" where
  "permanent_regions mem address kernel_start kernel_end =
     [(0, RUM_LOW_RESERVED_END)] @ [(kernel_start, kernel_end)] @
     boot_regions mem address (read_multiboot_info mem address)"

lemma pmm_initialize_stages:
  assumes "pmm_initialize mem address ks ke s = (True, s')"
  obtains m m1 st where
    "ks \<le> ke" "ke \<le> PMM_PHYSICAL_LIMIT"
    "and_then (map_pass mem (read_multiboot_info mem address) True (replicate BITMAP_WORDS 0))
       (map_pass mem (read_multiboot_info mem address) False) = (True, m)"
    "\<forall>p\<in>set [ks div PAGE_SIZE..<(ke + PAGE_SIZE - 1) div PAGE_SIZE]. bitmap_bit m p"
    "st = count_usable m zero_statistics"
    "and_then (and_then (reserve 0 RUM_LOW_RESERVED_END m) (reserve ks (ke - ks)))
       (reserve_boot_data mem address (read_multiboot_info mem address)) = (True, m1)"
    "s' = s\<lparr>ready := True, managed := m1, allocated := replicate BITMAP_WORDS 0,
            statistics := (count_managed m1 st)\<lparr>free_pages := managed_pages (count_managed m1 st)\<rparr>,
            next_page := RUM_LOW_RESERVED_END div PAGE_SIZE\<rparr>"
  using assms unfolding pmm_initialize_def Let_def
  by (auto split: if_splits prod.splits)

lemma reserved_low: "p \<notin> covered [(0, RUM_LOW_RESERVED_END)] \<Longrightarrow> RUM_LOW_RESERVED_END div PAGE_SIZE \<le> p"
  by (auto simp: overlaps_def layout_defs)

lemma pmm_initialize_inv:
  assumes "pmm_initialize mem address ks ke s = (True, s')"
  shows "pmm_inv s' \<and> page_set (allocated s') = {} \<and>
         usable_pages (statistics s') = card (usable_set mem (read_multiboot_info mem address)) \<and>
         page_set (managed s') =
           usable_set mem (read_multiboot_info mem address) - covered (permanent_regions mem address ks ke)"
proof -
  let ?info = "read_multiboot_info mem address"
  from assms obtain m m1 st where st:
    "ks \<le> ke" "and_then (map_pass mem ?info True (replicate BITMAP_WORDS 0)) (map_pass mem ?info False) = (True, m)"
    "st = count_usable m zero_statistics"
    "and_then (and_then (reserve 0 RUM_LOW_RESERVED_END m) (reserve ks (ke - ks)))
       (reserve_boot_data mem address ?info) = (True, m1)"
    "s' = s\<lparr>ready := True, managed := m1, allocated := replicate BITMAP_WORDS 0,
            statistics := (count_managed m1 st)\<lparr>free_pages := managed_pages (count_managed m1 st)\<rparr>,
            next_page := RUM_LOW_RESERVED_END div PAGE_SIZE\<rparr>"
    by (rule pmm_initialize_stages)
  note m = map_passes_pages [OF st(2), folded usable_set_def]
  have "cuts (True, m1) m (([(0, 0 + RUM_LOW_RESERVED_END)] @ [(ks, ks + (ke - ks))]) @ boot_regions mem address ?info)"
    unfolding st(4) [symmetric] by (intro inv_intros cuts_boot_data)
  then have m1: "length m1 = BITMAP_WORDS"
      "page_set m1 = usable_set mem ?info - covered (permanent_regions mem address ks ke)"
    using m st(1) by (auto simp: cuts_def permanent_regions_def)
  obtain k where k: "k \<le> PAGE_COUNT" "limit st = k * PAGE_SIZE" "\<forall>p<PAGE_COUNT. bitmap_bit m p \<longrightarrow> p < k"
      "usable_pages st = card (page_set m)" "managed_pages st = 0"
    using count_usable_fold [of m PAGE_COUNT] by (auto simp: st(3) count_usable_def Let_def page_set_def)
  have sub: "page_set m1 \<subseteq> {RUM_LOW_RESERVED_END div PAGE_SIZE..<k}"
  proof
    fix p assume p: "p \<in> page_set m1"
    then have "p \<in> page_set m" using m1(2) m(2) by simp
    then have "p < k" using k(3) by (simp add: page_set_def)
    moreover have "p \<notin> covered [(0, RUM_LOW_RESERVED_END)]"
      using p m1(2) by (simp add: permanent_regions_def)
    ultimately show "p \<in> {RUM_LOW_RESERVED_END div PAGE_SIZE..<k}" using reserved_low by simp
  qed
  have "{p. p < k \<and> bitmap_bit m1 p} = page_set m1"
    using k(1) sub by (auto simp: page_set_def)
  then have cm: "count_managed m1 st = st\<lparr>managed_pages := card (page_set m1)\<rparr>"
    using count_managed_fold [of m1 "limit st div PAGE_SIZE" st] k(2,5) by (simp add: count_managed_def)
  have "k * PAGE_SIZE \<le> PMM_PHYSICAL_LIMIT" using k(1) by (auto simp: pmm_consts)
  then have "pmm_inv s'"
    using m1(1) sub k(2) by (auto simp: st(5) cm pmm_inv_def pages_def free_set_def)
  then show ?thesis using m1(2) m(2) k(4) by (simp add: st(5) cm)
qed

section \<open>Properties\<close>

text \<open>A boot image: information at \<open>0x9000\<close> announcing only a memory map at \<open>0x9100\<close> with one
  available entry for the first three megabytes; the kernel occupies one page at two megabytes.\<close>

definition boot_memory :: memory where
  "boot_memory a =
     (if a = 0x9000 then 0x40 else if a = 0x902C then 24 else if a = 0x9030 then 0 else if a = 0x9031 then 0x91
      else if a = 0x9100 then 20 else if a = 0x910E then 0x30 else if a = 0x9114 then 1 else 0)"

lemma boot_info:
  "info_flag (read_multiboot_info boot_memory 0x9000) n = (n = 6)"
  "mmap_addr (read_multiboot_info boot_memory 0x9000) = 0x9100"
  "mmap_length (read_multiboot_info boot_memory 0x9000) = 24"
  "mb_flags (read_multiboot_info boot_memory 0x9000) = 64"
proof -
  show f: "mb_flags (read_multiboot_info boot_memory 0x9000) = 64"
    by (simp add: read_multiboot_info_def rd_def boot_memory_def upt_rec)
  show "mmap_addr (read_multiboot_info boot_memory 0x9000) = 0x9100"
    "mmap_length (read_multiboot_info boot_memory 0x9000) = 24"
    by (simp_all add: read_multiboot_info_def rd_def boot_memory_def upt_rec)
  have "bit (64 :: nat) n = (n = 6)"
    using bit_exp_iff [of 6 n, where ?'a = nat] by auto
  then show "info_flag (read_multiboot_info boot_memory 0x9000) n = (n = 6)"
    by (simp add: info_flag_def f push_bit_eq_mult and_exp_eq_0_iff_not_bit)
qed

lemma boot_entry:
  "read_mmap_entry boot_memory 0x9100 = \<lparr> e_size = 20, e_address = 0, e_length = 0x300000, e_type = 1 \<rparr>"
  by (simp add: read_mmap_entry_def rd_def boot_memory_def upt_rec)

lemma boot_map_pass:
  "map_pass boot_memory (read_multiboot_info boot_memory 0x9000) v m =
     (True, if v then pmm_range 0 0x300000 True m else m)"
  by (simp add: map_pass_def boot_info map_pass_loop.simps boot_entry SIZEOF_MMAP_ENTRY_def)

lemma boot_data_accepted:
  "\<exists>m'. reserve_boot_data boot_memory 0x9000 (read_multiboot_info boot_memory 0x9000) m = (True, m')"
  by (simp add: reserve_boot_data_def boot_info and_then_def reserve_def ADDRESS_SPACE_END_def SIZEOF_INFO_def
      reserve_module_table_def reserve_symbols_def reserve_config_def reserve_vbe_def reserve_framebuffer_def)

lemma boot_accepted: "\<exists>s'. pmm_initialize boot_memory 0x9000 0x200000 0x201000 s = (True, s')"
proof -
  let ?info = "read_multiboot_info boot_memory 0x9000"
  define m where "m = pmm_range 0 0x300000 True (replicate BITMAP_WORDS 0)"
  have pages: "page_set m = {p. p < PAGE_COUNT \<and> inside p 0 0x300000}"
    using pmm_range_pages(2) [of "replicate BITMAP_WORDS 0" 0 "0x300000" True] by (simp add: m_def)
  have bit: "bitmap_bit m p" if "p < 768" for p
  proof -
    have "p \<in> page_set m" using that by (simp add: pages inside_def pmm_consts)
    then show ?thesis by (simp add: page_set_def)
  qed
  have maps: "and_then (map_pass boot_memory ?info True (replicate BITMAP_WORDS 0)) (map_pass boot_memory ?info False)
              = (True, m)"
    by (simp add: boot_map_pass and_then_def m_def)
  have kernel: "\<forall>p\<in>set [0x200000 div PAGE_SIZE..<(0x201000 + PAGE_SIZE - 1) div PAGE_SIZE]. bitmap_bit m p"
    using bit by (simp add: layout_defs)
  obtain k where k: "limit (count_usable m zero_statistics) = k * PAGE_SIZE"
      "\<forall>p<PAGE_COUNT. bitmap_bit m p \<longrightarrow> p < k"
    using count_usable_fold [of m PAGE_COUNT] by (auto simp: count_usable_def Let_def)
  have "k \<noteq> 0" using k(2) bit [of 0] by (auto simp: pmm_consts)
  then have limit: "limit (count_usable m zero_statistics) \<noteq> 0" using k(1) by simp
  obtain m1 where res: "and_then (and_then (reserve 0 RUM_LOW_RESERVED_END m) (reserve 0x200000 (0x201000 - 0x200000)))
       (reserve_boot_data boot_memory 0x9000 ?info) = (True, m1)"
    using boot_data_accepted by (auto simp: and_then_def reserve_def pmm_consts)
  show ?thesis
    unfolding pmm_initialize_def Let_def using kernel limit res
    by (simp add: maps boot_info SIZEOF_INFO_def ADDRESS_SPACE_END_def PMM_PHYSICAL_LIMIT_def RUM_IDENTITY_END_def)
qed

text \<open>C15: when initialisation succeeds, the allocator is well formed with nothing handed out, and it
  manages exactly the whole pages of available memory-map entries that no reserved entry touches
  (reserved entries win over available ones) and that do not touch low memory, the kernel image
  or any boot structure announced by the Multiboot flags.\<close>

theorem pmm_initialize_correct:
  assumes "pmm_initialize mem address ks ke s = (True, s')"
  shows "pmm_inv s' \<and> page_set (allocated s') = {} \<and>
         usable_pages (statistics s') = card (usable_set mem (read_multiboot_info mem address)) \<and>
         page_set (managed s') =
           usable_set mem (read_multiboot_info mem address) - covered (permanent_regions mem address ks ke)"
  using assms by (rule pmm_initialize_inv)

theorem pmm_initialize_correct_witness:
  "\<exists>s'. pmm_initialize boot_memory 0x9000 0x200000 0x201000 pmm_sample = (True, s') \<and> pmm_inv s' \<and>
        page_set (managed s') =
          usable_set boot_memory (read_multiboot_info boot_memory 0x9000) -
          covered (permanent_regions boot_memory 0x9000 0x200000 0x201000)"
proof -
  obtain s' where e: "pmm_initialize boot_memory 0x9000 0x200000 0x201000 pmm_sample = (True, s')"
    using boot_accepted by blast
  from pmm_initialize_correct [OF e] e show ?thesis by blast
qed

end
