(* ===== verification/Rum_Paging.thy ===== *)
theory Rum_Paging
  imports Rum_Pmm
begin

text \<open>
  Two-level paging, \<open>arch/i386/paging.c\<close>: physical memory as bytes, the page allocator, the
  registered address spaces and the control registers. Physical frames below one gigabyte are
  identity mapped, so the code's pointers into directories, tables and frames are physical
  addresses. Cached translations (\<open>invlpg\<close>) are hardware state and are not modelled. A call of
  \<open>cpu_halt\<close>, which never returns, sets \<open>halted\<close>; \<open>running\<close> keeps later statements from executing.
  Creation and destruction of address spaces allocate from the kernel heap, which maps pages
  through this component; they are in the theory of address spaces above the heap.
\<close>

section \<open>Constants and state\<close>

definition PRESENT :: u32 where "PRESENT = 1"
definition PAGING_WRITABLE :: u32 where "PAGING_WRITABLE = 2"
definition USER :: u32 where "USER = 4"
definition CACHE_DISABLE :: u32 where "CACHE_DISABLE = 0x10"
definition FRAME_MASK :: u32 where "FRAME_MASK = 0xFFFFF000"
definition ENTRIES :: nat where "ENTRIES = 1024"
definition KERNEL_ENTRIES :: nat where "KERNEL_ENTRIES = RUM_USER_BASE div RUM_PAGE_TABLE_SPAN"
definition USER_ENTRIES :: nat where "USER_ENTRIES = RUM_USER_END div RUM_PAGE_TABLE_SPAN"
definition PRIVATE_TABLE_WORDS :: nat where
  "PRIVATE_TABLE_WORDS = (USER_ENTRIES - KERNEL_ENTRIES + 31) div 32"
definition RUM_PROCESS_USER_BYTES :: nat where "RUM_PROCESS_USER_BYTES = 0x01000000"
definition USER_PAGE_LIMIT :: nat where "USER_PAGE_LIMIT = RUM_PROCESS_USER_BYTES div PAGE_SIZE"
definition STACK_PAGES :: nat where "STACK_PAGES = RUM_KERNEL_STACK_SIZE div PAGE_SIZE"
definition RUM_KERNEL_STACK_SLOTS :: nat where "RUM_KERNEL_STACK_SLOTS = RUM_PROCESS_LIMIT + 2"

definition RUM_KERNEL_STACK_STRIDE :: nat where
  "RUM_KERNEL_STACK_STRIDE = PAGE_SIZE + RUM_KERNEL_STACK_SIZE"
definition RUM_KERNEL_STACK_GUARD :: "nat \<Rightarrow> nat" where
  "RUM_KERNEL_STACK_GUARD slot = RUM_KERNEL_STACK_BASE + slot * RUM_KERNEL_STACK_STRIDE"
definition RUM_KERNEL_STACK_SLOT_BASE :: "nat \<Rightarrow> nat" where
  "RUM_KERNEL_STACK_SLOT_BASE slot = RUM_KERNEL_STACK_GUARD slot + PAGE_SIZE"

lemmas paging_consts =
  ENTRIES_def KERNEL_ENTRIES_def USER_ENTRIES_def PRIVATE_TABLE_WORDS_def USER_PAGE_LIMIT_def
  RUM_PROCESS_USER_BYTES_def STACK_PAGES_def RUM_PROCESS_LIMIT_def RUM_KERNEL_STACK_SLOTS_def
  RUM_KERNEL_STACK_STRIDE_def RUM_KERNEL_STACK_GUARD_def RUM_KERNEL_STACK_SLOT_BASE_def layout_defs

record paging_space =
  directory_physical :: nat
  user_pages :: nat
  user_tables :: nat
  private_tables :: "u32 list"

text \<open>A space pointer: null, the address of the static kernel space, or a heap address. The
  registry list after the kernel space is an association list in link order.\<close>

datatype space_ref = Space_Null | Space_Kernel | Space_At nat

record machine =
  phys :: memory
  pm :: pmm
  kernel_space :: paging_space
  spaces :: "(nat \<times> paging_space) list"
  active_space :: space_ref
  enabled :: bool
  private_spaces :: nat
  cr0 :: u32
  cr3 :: nat
  cr4 :: u32
  halted :: bool

definition running :: "(machine \<Rightarrow> machine) \<Rightarrow> machine \<Rightarrow> machine" where
  "running f s = (if halted s then s else f s)"

definition cpu_halt :: "machine \<Rightarrow> machine" where
  "cpu_halt s = s\<lparr>halted := True\<rparr>"

text \<open>\<open>if (!pmm_free_page(frame)) cpu_halt();\<close>\<close>

definition free_or_halt :: "nat \<Rightarrow> machine \<Rightarrow> machine" where
  "free_or_halt frame s =
     (let (ok, p) = pmm_free_page frame (pm s); s1 = s\<lparr>pm := p\<rparr> in if ok then s1 else cpu_halt s1)"

definition allocate_frame :: "machine \<Rightarrow> nat \<times> machine" where
  "allocate_frame s = (let (frame, p) = pmm_allocate_page (pm s) in (frame, s\<lparr>pm := p\<rparr>))"

definition zero_page :: "nat \<Rightarrow> machine \<Rightarrow> machine" where
  "zero_page frame s = s\<lparr>phys := wr (phys s) frame (replicate PAGE_SIZE 0)\<rparr>"

definition set_word :: "nat \<Rightarrow> u32 \<Rightarrow> machine \<Rightarrow> machine" where
  "set_word address v s = s\<lparr>phys := wr32 (phys s) address v\<rparr>"

section \<open>Spaces, directories and tables\<close>

definition known_space :: "machine \<Rightarrow> space_ref \<Rightarrow> bool" where
  "known_space s r \<longleftrightarrow>
     enabled s \<and> (case r of Space_Null \<Rightarrow> False | Space_Kernel \<Rightarrow> True | Space_At p \<Rightarrow> p \<in> set (map fst (spaces s)))"

text \<open>The object behind a known pointer; callers check \<open>known_space\<close> first.\<close>

definition space_of :: "machine \<Rightarrow> space_ref \<Rightarrow> paging_space" where
  "space_of s r =
     (case r of
        Space_At p \<Rightarrow> (case map_of (spaces s) p of Some x \<Rightarrow> x | None \<Rightarrow> kernel_space s)
      | _ \<Rightarrow> kernel_space s)"

definition put_space :: "space_ref \<Rightarrow> paging_space \<Rightarrow> machine \<Rightarrow> machine" where
  "put_space r x s =
     (case r of
        Space_At p \<Rightarrow> s\<lparr>spaces := map (\<lambda>(q, y). if q = p then (q, x) else (q, y)) (spaces s)\<rparr>
      | Space_Kernel \<Rightarrow> s\<lparr>kernel_space := x\<rparr>
      | Space_Null \<Rightarrow> s)"

definition dir_index :: "nat \<Rightarrow> nat" where "dir_index virtual = virtual div 2 ^ 22"
definition page_index :: "nat \<Rightarrow> nat" where "page_index virtual = virtual div 2 ^ 12 mod 1024"

definition entry_at :: "nat \<Rightarrow> nat \<Rightarrow> nat" where "entry_at base i = base + 4 * i"

definition directory_entry :: "machine \<Rightarrow> paging_space \<Rightarrow> nat \<Rightarrow> u32" where
  "directory_entry s space index = rd32 (phys s) (entry_at (directory_physical space) index)"

definition frame_of :: "u32 \<Rightarrow> nat" where "frame_of entry = unat (entry AND FRAME_MASK)"

definition table_entry :: "machine \<Rightarrow> u32 \<Rightarrow> nat \<Rightarrow> u32" where
  "table_entry s entry i = rd32 (phys s) (entry_at (frame_of entry) i)"

definition present :: "u32 \<Rightarrow> bool" where "present entry \<longleftrightarrow> entry AND PRESENT \<noteq> 0"

definition private_table_owned :: "paging_space \<Rightarrow> nat \<Rightarrow> bool" where
  "private_table_owned space index \<longleftrightarrow>
     KERNEL_ENTRIES \<le> index \<and> index < USER_ENTRIES \<and> bitmap_bit (private_tables space) (index - KERNEL_ENTRIES)"

definition private_table_set :: "nat \<Rightarrow> bool \<Rightarrow> paging_space \<Rightarrow> paging_space" where
  "private_table_set index owned space =
     space\<lparr>private_tables := bitmap_set (private_tables space) (index - KERNEL_ENTRIES) owned\<rparr>"

definition user_page_range :: "nat \<Rightarrow> nat \<Rightarrow> bool" where
  "user_page_range virtual n \<longleftrightarrow>
     n \<noteq> 0 \<and> virtual mod PAGE_SIZE = 0 \<and>
     (let end1 = virtual + n * PAGE_SIZE in
      (RUM_USER_BASE \<le> virtual \<and> end1 \<le> RUM_USER_PROGRAM_END) \<or>
      (RUM_USER_STACK_BASE \<le> virtual \<and> end1 \<le> RUM_USER_STACK_TOP))"

definition private_table_valid :: "machine \<Rightarrow> paging_space \<Rightarrow> nat \<Rightarrow> bool" where
  "private_table_valid s space index \<longleftrightarrow>
     (let entry = directory_entry s space index in
      private_table_owned space index \<and> entry AND (FRAME_MASK OR 0x67) = entry \<and>
      entry AND (PRESENT OR PAGING_WRITABLE OR USER) = PRESENT OR PAGING_WRITABLE OR USER)"

text \<open>The address of the table entry of a present user page, or the null pointer.\<close>

definition user_entry :: "machine \<Rightarrow> paging_space \<Rightarrow> nat \<Rightarrow> nat option" where
  "user_entry s space virtual =
     (let index = dir_index virtual in
      if \<not> private_table_valid s space index then None
      else
        (let address = entry_at (frame_of (directory_entry s space index)) (page_index virtual);
             entry = rd32 (phys s) address
         in if entry AND (PRESENT OR USER) = PRESENT OR USER then Some address else None))"

definition publish_kernel_entry :: "nat \<Rightarrow> u32 \<Rightarrow> machine \<Rightarrow> machine" where
  "publish_kernel_entry index entry s =
     fold (\<lambda>space s. set_word (entry_at (directory_physical space) index) entry s)
       (kernel_space s # map snd (spaces s)) s"

definition kernel_table_valid :: "machine \<Rightarrow> nat \<Rightarrow> bool" where
  "kernel_table_valid s index \<longleftrightarrow>
     (let entry = directory_entry s (kernel_space s) index in
      entry AND (FRAME_MASK OR 0x63) = entry \<and>
      entry AND (PRESENT OR PAGING_WRITABLE OR USER) = PRESENT OR PAGING_WRITABLE)"

definition table_empty :: "machine \<Rightarrow> nat \<Rightarrow> bool" where
  "table_empty s base \<longleftrightarrow> (\<forall>i\<in>set [0..<ENTRIES]. rd32 (phys s) (entry_at base i) = 0)"

definition reload_directory :: "paging_space \<Rightarrow> machine \<Rightarrow> machine" where
  "reload_directory space s = s\<lparr>cr3 := directory_physical space\<rparr>"

definition reclaim_empty_kernel_table :: "nat \<Rightarrow> machine \<Rightarrow> machine" where
  "reclaim_empty_kernel_table index s =
     (let entry = directory_entry s (kernel_space s) index in
      if \<not> present entry then s
      else if \<not> table_empty s (frame_of entry) then s
      else
        (let s1 = publish_kernel_entry index 0 s;
             s2 = reload_directory (space_of s1 (active_space s1)) s1
         in free_or_halt (frame_of entry) s2))"

section \<open>Starting paging\<close>

text \<open>The section boundaries are linker symbols.\<close>

record sections =
  text_start :: nat
  text_end :: nat
  rodata_start :: nat
  rodata_end :: nat

definition read_only :: "sections \<Rightarrow> nat \<Rightarrow> bool" where
  "read_only sec physical \<longleftrightarrow>
     (text_start sec \<le> physical \<and> physical < text_end sec) \<or>
     (rodata_start sec \<le> physical \<and> physical < rodata_end sec)"

definition initialize_rollback :: "machine \<Rightarrow> machine" where
  "initialize_rollback s =
     (let s1 = fold (\<lambda>i s. let e = directory_entry s (kernel_space s) i in
                            if present e then s\<lparr>pm := snd (pmm_free_page (frame_of e) (pm s))\<rparr> else s)
                 [0..<ENTRIES] s;
          s2 = s1\<lparr>pm := snd (pmm_free_page (directory_physical (kernel_space s1)) (pm s1))\<rparr>
      in s2\<lparr>kernel_space := (kernel_space s2)\<lparr>directory_physical := 0\<rparr>\<rparr>)"

definition identity_flags :: "sections \<Rightarrow> nat \<Rightarrow> u32" where
  "identity_flags sec physical =
     PRESENT OR (if read_only sec physical then 0 else PAGING_WRITABLE) OR
     (if 0xA0000 \<le> physical \<and> physical < 0x100000 then CACHE_DISABLE else 0)"

function identity_loop :: "sections \<Rightarrow> nat \<Rightarrow> nat \<Rightarrow> machine \<Rightarrow> bool \<times> machine" where
  "identity_loop sec lim physical s =
     (if physical < lim then
        (let index = dir_index physical;
             (ok, s1) =
               (if \<not> present (directory_entry s (kernel_space s) index) then
                  (let (frame, s1) = allocate_frame s in
                   if frame = 0 then (False, initialize_rollback s1)
                   else (True, set_word (entry_at (directory_physical (kernel_space s1)) index)
                                 (word_of_nat frame OR PRESENT OR PAGING_WRITABLE) (zero_page frame s1)))
                else (True, s))
         in if \<not> ok then (False, s1)
            else
              identity_loop sec lim (physical + PAGE_SIZE)
                (set_word (entry_at (frame_of (directory_entry s1 (kernel_space s1) index)) (page_index physical))
                   (word_of_nat physical OR identity_flags sec physical) s1))
      else (True, s))"
  by pat_completeness auto
termination by (relation "measure (\<lambda>(_, lim, physical, _). lim - physical)") (auto simp: layout_defs)

declare identity_loop.simps [simp del]

definition paging_initialize :: "sections \<Rightarrow> machine \<Rightarrow> bool \<times> machine" where
  "paging_initialize sec s =
     (if enabled s then (False, s)
      else if cr0 s AND 0x80000000 \<noteq> 0 then (False, s)
      else
        (let lim = limit (pmm_stats (pm s)) in
         if lim = 0 then (False, s)
         else
           (let (frame, s1) = allocate_frame s;
                s2 = s1\<lparr>kernel_space := (kernel_space s1)\<lparr>directory_physical := frame\<rparr>\<rparr>
            in if frame = 0 then (False, s2)
               else
                 (let (ok, s3) = identity_loop sec lim PAGE_SIZE (zero_page frame s2) in
                  if \<not> ok then (False, s3)
                  else
                    (let s4 = reload_directory (kernel_space s3) (s3\<lparr>cr4 := cr4 s3 AND NOT 0xB0\<rparr>) in
                     (True, s4\<lparr>cr0 := cr0 s4 OR 0x80010000, active_space := Space_Kernel, enabled := True\<rparr>))))))"

section \<open>Queries\<close>

definition paging_kernel_space :: "machine \<Rightarrow> space_ref" where
  "paging_kernel_space s = (if enabled s then Space_Kernel else Space_Null)"

definition paging_active_space :: "machine \<Rightarrow> space_ref" where
  "paging_active_space s = (if enabled s then active_space s else Space_Null)"

definition paging_directory_address :: "machine \<Rightarrow> space_ref \<Rightarrow> nat" where
  "paging_directory_address s r = (if known_space s r then directory_physical (space_of s r) else 0)"

record paging_statistics =
  st_spaces :: nat
  st_directory_pages :: nat
  st_shared_table_pages :: nat
  st_kernel_directory :: nat
  st_active_directory :: nat
  st_private_table_pages :: nat
  st_user_pages :: nat

definition paging_stats :: "machine \<Rightarrow> paging_statistics" where
  "paging_stats s =
     (if enabled s then
        \<lparr> st_spaces = private_spaces s + 1, st_directory_pages = private_spaces s + 1,
          st_shared_table_pages =
            length (filter (\<lambda>i. present (directory_entry s (kernel_space s) i)) [0..<KERNEL_ENTRIES]),
          st_kernel_directory = directory_physical (kernel_space s),
          st_active_directory = directory_physical (space_of s (active_space s)),
          st_private_table_pages = sum_list (map (user_tables \<circ> snd) (spaces s)),
          st_user_pages = sum_list (map (user_pages \<circ> snd) (spaces s)) \<rparr>
      else \<lparr> st_spaces = 0, st_directory_pages = 0, st_shared_table_pages = 0, st_kernel_directory = 0,
             st_active_directory = 0, st_private_table_pages = 0, st_user_pages = 0 \<rparr>)"

record paging_space_statistics =
  ss_directory :: nat
  ss_private_table_pages :: nat
  ss_user_pages :: nat
  ss_kernel :: bool

definition paging_space_stats :: "machine \<Rightarrow> space_ref \<Rightarrow> paging_space_statistics option" where
  "paging_space_stats s r =
     (if known_space s r then
        Some \<lparr> ss_directory = directory_physical (space_of s r), ss_private_table_pages = user_tables (space_of s r),
               ss_user_pages = user_pages (space_of s r), ss_kernel = (r = Space_Kernel) \<rparr>
      else None)"

definition paging_switch_space :: "space_ref \<Rightarrow> machine \<Rightarrow> bool \<times> machine" where
  "paging_switch_space r s =
     (if known_space s r then (True, (reload_directory (space_of s r) s)\<lparr>active_space := r\<rparr>) else (False, s))"

definition paging_translate :: "machine \<Rightarrow> space_ref \<Rightarrow> nat \<Rightarrow> nat option" where
  "paging_translate s r virtual =
     (if \<not> known_space s r then None
      else
        (let entry = directory_entry s (space_of s r) (dir_index virtual) in
         if present entry then
           (let entry1 = table_entry s entry (page_index virtual) in
            if present entry1 then Some (frame_of entry1 OR virtual mod PAGE_SIZE) else None)
         else None))"

section \<open>Kernel mappings\<close>

definition new_kernel_table :: "nat \<Rightarrow> machine \<Rightarrow> nat \<times> machine" where
  "new_kernel_table index s =
     (let (frame, s1) = allocate_frame s in
      if frame \<noteq> 0
      then (frame, publish_kernel_entry index (word_of_nat frame OR PRESENT OR PAGING_WRITABLE) (zero_page frame s1))
      else (0, s1))"

definition paging_map_page :: "space_ref \<Rightarrow> nat \<Rightarrow> nat \<Rightarrow> u32 \<Rightarrow> machine \<Rightarrow> bool \<times> machine" where
  "paging_map_page r virtual physical flags s =
     (if \<not> enabled s \<or> r \<noteq> Space_Kernel \<or> \<not> memory_kernel_mapping_range virtual PAGE_SIZE \<or>
         virtual mod PAGE_SIZE \<noteq> 0 \<or> flags AND NOT PAGING_WRITABLE \<noteq> 0 then (False, s)
      else if pmm_is_allocated (pm s) physical then
        (let index = dir_index virtual;
             s1 = (if \<not> present (directory_entry s (kernel_space s) index) then snd (new_kernel_table index s) else s);
             entry = directory_entry s1 (kernel_space s1) index
         in if present entry then
              (let address = entry_at (frame_of entry) (page_index virtual) in
               if \<not> present (rd32 (phys s1) address)
               then (True, set_word address (word_of_nat physical OR PRESENT OR flags) s1)
               else (False, s1))
            else (False, s1))
      else (False, s))"

text \<open>The result is the frame that was mapped, when there was one.\<close>

definition paging_unmap_page :: "space_ref \<Rightarrow> nat \<Rightarrow> machine \<Rightarrow> nat option \<times> machine" where
  "paging_unmap_page r virtual s =
     (if \<not> enabled s \<or> r \<noteq> Space_Kernel \<or> \<not> memory_kernel_mapping_range virtual PAGE_SIZE \<or>
         virtual mod PAGE_SIZE \<noteq> 0 then (None, s)
      else
        (let index = dir_index virtual; dentry = directory_entry s (kernel_space s) index in
         if present dentry then
           (let address = entry_at (frame_of dentry) (page_index virtual); entry = rd32 (phys s) address in
            if present entry
            then (Some (frame_of entry), reclaim_empty_kernel_table index (set_word address 0 s))
            else (None, s))
         else (None, s)))"

section \<open>Kernel-entry stacks\<close>

definition kernel_stack_range :: "nat \<Rightarrow> nat option" where
  "kernel_stack_range slot =
     (if slot \<ge> RUM_KERNEL_STACK_SLOTS then None
      else
        (let address = RUM_KERNEL_STACK_SLOT_BASE slot in
         if address < RUM_KERNEL_STACK_BASE \<or> address > RUM_KERNEL_STACK_END - RUM_KERNEL_STACK_SIZE then None
         else Some address))"

fun stack_map_loop :: "nat \<Rightarrow> nat \<Rightarrow> nat list \<Rightarrow> machine \<Rightarrow> nat \<times> machine" where
  "stack_map_loop base index [] s = (STACK_PAGES, s)"
| "stack_map_loop base index (mapped # rest) s =
     (let (frame, s1) = allocate_frame s in
      if frame = 0 then (mapped, s1)
      else
        (let s2 = zero_page frame s1; address = base + mapped * PAGE_SIZE in
         stack_map_loop base index rest
           (set_word (entry_at (frame_of (directory_entry s2 (kernel_space s2) index)) (page_index address))
              (word_of_nat frame OR PRESENT OR PAGING_WRITABLE) s2)))"

definition stack_unmap_page :: "nat \<Rightarrow> nat \<Rightarrow> nat \<Rightarrow> machine \<Rightarrow> machine" where
  "stack_unmap_page base index page s =
     running (\<lambda>s.
       let address = base + page * PAGE_SIZE;
           slot = entry_at (frame_of (directory_entry s (kernel_space s) index)) (page_index address);
           entry = rd32 (phys s) slot
       in free_or_halt (frame_of entry) (set_word slot 0 s)) s"

definition paging_kernel_stack_allocate :: "nat \<Rightarrow> machine \<Rightarrow> bool \<times> machine" where
  "paging_kernel_stack_allocate slot s =
     (case (if enabled s then kernel_stack_range slot else None) of
        None \<Rightarrow> (False, s)
      | Some base \<Rightarrow>
          (let index = dir_index base;
               guard = RUM_KERNEL_STACK_GUARD slot;
               existing = directory_entry s (kernel_space s) index;
               valid = (paging_translate s Space_Kernel guard = None \<and>
                        (existing = 0 \<or> kernel_table_valid s index) \<and>
                        (existing = 0 \<or>
                          (table_entry s existing (page_index guard) = 0 \<and>
                           (\<forall>page\<in>set [0..<STACK_PAGES]. table_entry s existing (page_index base + page) = 0))))
           in if \<not> valid then (False, s)
              else
                (let created = (existing = 0);
                     (frame, s1) = (if created then new_kernel_table index s else (1, s))
                 in if frame = 0 then (False, s1)
                    else
                      (let (mapped, s2) = stack_map_loop base index [0..<STACK_PAGES] s1 in
                       if mapped = STACK_PAGES then (True, s2)
                       else
                         (let s3 = fold (stack_unmap_page base index) (rev [0..<mapped]) s2 in
                          (False, if created then running (reclaim_empty_kernel_table index) s3 else s3))))))"

definition paging_kernel_stack_release :: "nat \<Rightarrow> machine \<Rightarrow> bool \<times> machine" where
  "paging_kernel_stack_release slot s =
     (case (if enabled s then kernel_stack_range slot else None) of
        None \<Rightarrow> (False, s)
      | Some base \<Rightarrow>
          (let index = dir_index base;
               valid = (kernel_table_valid s index \<and>
                        paging_translate s Space_Kernel (RUM_KERNEL_STACK_GUARD slot) = None \<and>
                        (\<forall>page\<in>set [0..<STACK_PAGES].
                           let entry = table_entry s (directory_entry s (kernel_space s) index) (page_index base + page) in
                           entry AND (FRAME_MASK OR 0x63) = entry \<and>
                           entry AND (PRESENT OR PAGING_WRITABLE OR USER) = PRESENT OR PAGING_WRITABLE \<and>
                           pmm_is_allocated (pm s) (frame_of entry)))
           in if valid
              then (True, running (reclaim_empty_kernel_table index)
                            (fold (stack_unmap_page base index) [0..<STACK_PAGES] s))
              else (False, s)))"

section \<open>User pages\<close>

definition ensure_user_table :: "space_ref \<Rightarrow> nat \<Rightarrow> machine \<Rightarrow> bool \<times> machine" where
  "ensure_user_table r index s =
     (let space = space_of s r in
      if directory_entry s space index \<noteq> 0 then (private_table_valid s space index, s)
      else
        (let (frame, s1) = allocate_frame s in
         if frame = 0 then (False, s1)
         else
           (let s2 = set_word (entry_at (directory_physical space) index)
                       (word_of_nat frame OR PRESENT OR PAGING_WRITABLE OR USER) (zero_page frame s1);
                space1 = private_table_set index True (space_of s2 r)
            in (True, put_space r (space1\<lparr>user_tables := user_tables space1 + 1\<rparr>) s2))))"

definition reclaim_user_table :: "space_ref \<Rightarrow> nat \<Rightarrow> machine \<Rightarrow> machine" where
  "reclaim_user_table r index s =
     running (\<lambda>s.
       let space = space_of s r; dentry = directory_entry s space index in
       if \<not> private_table_owned space index then s
       else if \<exists>i\<in>set [0..<ENTRIES]. present (table_entry s dentry i) then s
       else
         (let s1 = set_word (entry_at (directory_physical space) index) 0 s;
              space1 = private_table_set index False (space_of s1 r);
              s2 = put_space r (space1\<lparr>user_tables := user_tables space1 - 1\<rparr>) s1
          in free_or_halt (frame_of dentry) s2)) s"

definition reclaim_empty_user_tables :: "space_ref \<Rightarrow> nat \<Rightarrow> nat \<Rightarrow> machine \<Rightarrow> machine" where
  "reclaim_empty_user_tables r virtual n s =
     (let first = dir_index virtual; last = dir_index (virtual + n * PAGE_SIZE - 1) in
      fold (reclaim_user_table r) [first..<last + 1] s)"

text \<open>Clearing one mapped user page. A null entry pointer would fault in the kernel.\<close>

definition user_unmap_page :: "space_ref \<Rightarrow> nat \<Rightarrow> nat \<Rightarrow> machine \<Rightarrow> machine" where
  "user_unmap_page r virtual i s =
     running (\<lambda>s.
       case user_entry s (space_of s r) (virtual + i * PAGE_SIZE) of
         None \<Rightarrow> cpu_halt s
       | Some address \<Rightarrow>
           (let entry = rd32 (phys s) address;
                s1 = free_or_halt (frame_of entry) (set_word address 0 s)
            in running (\<lambda>s. let space = space_of s r in put_space r (space\<lparr>user_pages := user_pages space - 1\<rparr>) s) s1)) s"

fun user_map_loop :: "space_ref \<Rightarrow> nat \<Rightarrow> u32 \<Rightarrow> nat \<Rightarrow> nat list \<Rightarrow> machine \<Rightarrow> nat \<times> machine" where
  "user_map_loop r virtual flags n [] s = (n, s)"
| "user_map_loop r virtual flags n (mapped # rest) s =
     (let address = virtual + mapped * PAGE_SIZE;
          index = dir_index address;
          (ok, s1) = ensure_user_table r index s
      in if \<not> ok then (mapped, s1)
         else
           (let (physical, s2) = allocate_frame s1 in
            if physical = 0 then (mapped, s2)
            else
              (let s3 = zero_page physical s2;
                   slot = entry_at (frame_of (directory_entry s3 (space_of s3 r) index)) (page_index address);
                   s4 = set_word slot (word_of_nat physical OR PRESENT OR USER OR flags) s3;
                   space = space_of s4 r
               in user_map_loop r virtual flags n rest (put_space r (space\<lparr>user_pages := user_pages space + 1\<rparr>) s4))))"

definition user_range_free :: "machine \<Rightarrow> paging_space \<Rightarrow> nat \<Rightarrow> nat \<Rightarrow> bool" where
  "user_range_free s space virtual n \<longleftrightarrow>
     (\<forall>i\<in>set [0..<n].
        let address = virtual + i * PAGE_SIZE; index = dir_index address;
            dentry = directory_entry s space index
        in (dentry \<noteq> 0) = private_table_owned space index \<and>
           (dentry \<noteq> 0 \<longrightarrow> private_table_valid s space index) \<and>
           (dentry \<noteq> 0 \<longrightarrow> table_entry s dentry (page_index address) = 0))"

definition paging_user_allocate :: "space_ref \<Rightarrow> nat \<Rightarrow> nat \<Rightarrow> u32 \<Rightarrow> machine \<Rightarrow> bool \<times> machine" where
  "paging_user_allocate r virtual n flags s =
     (if \<not> user_page_range virtual n \<or> flags AND NOT PAGING_WRITABLE \<noteq> 0 then (False, s)
      else if known_space s r \<and> r \<noteq> Space_Kernel \<and> user_pages (space_of s r) \<le> USER_PAGE_LIMIT \<and>
              n \<le> USER_PAGE_LIMIT - user_pages (space_of s r) \<and> user_range_free s (space_of s r) virtual n then
        (let (mapped, s1) = user_map_loop r virtual flags n [0..<n] s in
         if mapped = n then (True, s1)
         else (False, running (reclaim_empty_user_tables r virtual n) (fold (user_unmap_page r virtual) [0..<mapped] s1)))
      else (False, s))"

definition user_range_mapped :: "machine \<Rightarrow> paging_space \<Rightarrow> nat \<Rightarrow> nat \<Rightarrow> bool" where
  "user_range_mapped s space virtual n \<longleftrightarrow>
     (\<forall>i\<in>set [0..<n]. user_entry s space (virtual + i * PAGE_SIZE) \<noteq> None)"

definition user_protect_page :: "space_ref \<Rightarrow> nat \<Rightarrow> u32 \<Rightarrow> nat \<Rightarrow> machine \<Rightarrow> machine" where
  "user_protect_page r virtual flags i s =
     running (\<lambda>s.
       case user_entry s (space_of s r) (virtual + i * PAGE_SIZE) of
         None \<Rightarrow> cpu_halt s
       | Some address \<Rightarrow>
           set_word address ((rd32 (phys s) address AND (FRAME_MASK OR PRESENT OR USER OR 0x60)) OR flags) s) s"

definition paging_user_protect :: "space_ref \<Rightarrow> nat \<Rightarrow> nat \<Rightarrow> u32 \<Rightarrow> machine \<Rightarrow> bool \<times> machine" where
  "paging_user_protect r virtual n flags s =
     (if \<not> user_page_range virtual n \<or> flags AND NOT PAGING_WRITABLE \<noteq> 0 then (False, s)
      else if known_space s r \<and> r \<noteq> Space_Kernel \<and> user_range_mapped s (space_of s r) virtual n
      then (True, fold (user_protect_page r virtual flags) [0..<n] s)
      else (False, s))"

definition paging_user_release :: "space_ref \<Rightarrow> nat \<Rightarrow> nat \<Rightarrow> machine \<Rightarrow> bool \<times> machine" where
  "paging_user_release r virtual n s =
     (if \<not> user_page_range virtual n then (False, s)
      else if known_space s r \<and> r \<noteq> Space_Kernel \<and> user_range_mapped s (space_of s r) virtual n
      then (True, running (reclaim_empty_user_tables r virtual n) (fold (user_unmap_page r virtual) [0..<n] s))
      else (False, s))"

definition paging_user_page_count :: "machine \<Rightarrow> space_ref \<Rightarrow> nat" where
  "paging_user_page_count s r = (if known_space s r \<and> r \<noteq> Space_Kernel then user_pages (space_of s r) else 0)"

section \<open>Access to user memory\<close>

text \<open>The page loop runs from the first to the final page, both aligned and in order, so it stops at
  the first page that is not below the final one.\<close>

function user_bytes_loop :: "machine \<Rightarrow> paging_space \<Rightarrow> bool \<Rightarrow> nat \<Rightarrow> nat \<Rightarrow> bool" where
  "user_bytes_loop s space writable final page =
     (case user_entry s space page of
        None \<Rightarrow> False
      | Some address \<Rightarrow>
          if writable \<and> rd32 (phys s) address AND PAGING_WRITABLE = 0 then False
          else if page \<ge> final then True
          else user_bytes_loop s space writable final (page + PAGE_SIZE))"
  by pat_completeness auto
termination by (relation "measure (\<lambda>(_, _, _, final, page). final - page)") (auto simp: layout_defs)

declare user_bytes_loop.simps [simp del]

definition page_base :: "nat \<Rightarrow> nat" where "page_base address = address - address mod PAGE_SIZE"

definition user_bytes :: "machine \<Rightarrow> space_ref \<Rightarrow> nat \<Rightarrow> nat \<Rightarrow> bool \<Rightarrow> bool" where
  "user_bytes s r address bytes writable \<longleftrightarrow>
     (if \<not> known_space s r \<or> r = Space_Kernel then False
      else if bytes = 0 then True
      else if address < RUM_USER_BASE \<or> address \<ge> RUM_USER_END \<or> bytes > RUM_USER_END - address then False
      else user_bytes_loop s (space_of s r) writable (page_base (address + bytes - 1)) (page_base address))"

definition paging_user_accessible :: "machine \<Rightarrow> space_ref \<Rightarrow> nat \<Rightarrow> nat \<Rightarrow> bool \<Rightarrow> bool" where
  "paging_user_accessible s r address bytes writable = user_bytes s r address bytes writable"

text \<open>The physical address of a user byte whose page is mapped.\<close>

definition user_physical :: "machine \<Rightarrow> paging_space \<Rightarrow> nat \<Rightarrow> nat option" where
  "user_physical s space user =
     (case user_entry s space user of
        None \<Rightarrow> None
      | Some address \<Rightarrow> Some (frame_of (rd32 (phys s) address) + user mod PAGE_SIZE))"

text \<open>\<open>copy_user_bytes\<close> in its two directions, a page at a time. A null entry would fault.\<close>

function copy_user_in :: "machine \<Rightarrow> paging_space \<Rightarrow> nat \<Rightarrow> nat \<Rightarrow> u8 list option" where
  "copy_user_in s space user bytes =
     (if bytes = 0 then Some []
      else
        (case user_physical s space user of
           None \<Rightarrow> None
         | Some physical \<Rightarrow>
             (let chunk = min (PAGE_SIZE - user mod PAGE_SIZE) bytes in
              map_option (\<lambda>rest. map (phys s) [physical..<physical + chunk] @ rest)
                (copy_user_in s space (user + chunk) (bytes - chunk)))))"
  by pat_completeness auto
termination by (relation "measure (\<lambda>(_, _, _, bytes). bytes)") (auto simp: layout_defs)

function copy_user_out :: "paging_space \<Rightarrow> nat \<Rightarrow> u8 list \<Rightarrow> machine \<Rightarrow> machine option" where
  "copy_user_out space user buffer s =
     (if buffer = [] then Some s
      else
        (case user_physical s space user of
           None \<Rightarrow> None
         | Some physical \<Rightarrow>
             (let chunk = min (PAGE_SIZE - user mod PAGE_SIZE) (length buffer) in
              copy_user_out space (user + chunk) (drop chunk buffer)
                (s\<lparr>phys := wr (phys s) physical (take chunk buffer)\<rparr>))))"
  by pat_completeness auto
termination by (relation "measure (\<lambda>(_, _, buffer, _). length buffer)") (auto simp: layout_defs)

declare copy_user_in.simps [simp del] copy_user_out.simps [simp del]

text \<open>Destination buffers are non-null kernel objects; the copied bytes are the result. The outer
  option is the verdict, the inner result exists because the range was validated.\<close>

definition paging_copy_from_user :: "machine \<Rightarrow> space_ref \<Rightarrow> nat \<Rightarrow> nat \<Rightarrow> u8 list option" where
  "paging_copy_from_user s r source bytes =
     (if user_bytes s r source bytes False then copy_user_in s (space_of s r) source bytes else None)"

definition paging_copy_to_user :: "space_ref \<Rightarrow> nat \<Rightarrow> u8 list \<Rightarrow> machine \<Rightarrow> bool \<times> machine" where
  "paging_copy_to_user r destination source s =
     (if user_bytes s r destination (length source) True then
        (case copy_user_out (space_of s r) destination source s of
           Some s1 \<Rightarrow> (True, s1)
         | None \<Rightarrow> (True, cpu_halt s))
      else (False, s))"

function string_scan :: "machine \<Rightarrow> paging_space \<Rightarrow> nat \<Rightarrow> nat \<Rightarrow> nat \<Rightarrow> nat option" where
  "string_scan s space capacity source bytes =
     (if bytes < capacity then
        (if source < RUM_USER_BASE \<or> source \<ge> RUM_USER_END \<or> bytes > RUM_USER_END - source - 1 then None
         else
           (case user_physical s space (source + bytes) of
              None \<Rightarrow> None
            | Some physical \<Rightarrow>
                if phys s physical = 0 then Some (bytes + 1)
                else string_scan s space capacity source (bytes + 1)))
      else Some bytes)"
  by pat_completeness auto
termination by (relation "measure (\<lambda>(_, _, capacity, _, bytes). capacity - bytes)") auto

declare string_scan.simps [simp del]

definition paging_copy_string_from_user :: "machine \<Rightarrow> space_ref \<Rightarrow> nat \<Rightarrow> nat \<Rightarrow> u8 list option" where
  "paging_copy_string_from_user s r capacity source =
     (if capacity = 0 then None
      else if known_space s r \<and> r \<noteq> Space_Kernel then
        (case string_scan s (space_of s r) capacity source 0 of
           None \<Rightarrow> None
         | Some bytes \<Rightarrow>
             if bytes = 0 \<or> bytes > capacity then None
             else
               (case user_physical s (space_of s r) (source + (bytes - 1)) of
                  None \<Rightarrow> None
                | Some physical \<Rightarrow>
                    if phys s physical \<noteq> 0 then None else copy_user_in s (space_of s r) source bytes))
      else None)"

end
