(* ===== verification/Rum_Paging_Kernel.thy ===== *)
theory Rum_Paging_Kernel
  imports Rum_Paging
begin

text \<open>
  The kernel half of the address spaces. Directories and tables are arrays of words in frames
  the allocator has handed out; the invariant says that these frames are distinct and that every
  registered directory shares the kernel's tables. Mapping and unmapping a page then change the
  translation of exactly that page, in every space at once.
\<close>

section \<open>Page-table words\<close>

lemma FRAME_MASK_bits: "FRAME_MASK = NOT (mask 12)"
  by (simp add: FRAME_MASK_def mask_eq_exp_minus_1 not_eq_complement)

lemma bit_FRAME_MASK: "bit FRAME_MASK n \<longleftrightarrow> 12 \<le> n \<and> n < 32"
  by (auto simp: FRAME_MASK_bits bit_simps)

lemma aligned_word:
  assumes "f mod PAGE_SIZE = 0"
  shows "word_of_nat f AND FRAME_MASK = (word_of_nat f :: u32)"
proof -
  from assms obtain k where "f = 2 ^ 12 * k" by (auto simp: layout_defs)
  then have "(word_of_nat f :: u32) = push_bit 12 (word_of_nat k)"
    by (simp add: push_bit_eq_mult mult.commute)
  then show ?thesis by (auto intro!: bit_word_eqI simp: bit_simps bit_FRAME_MASK)
qed

text \<open>An entry built from a frame and low flag bits gives the frame back.\<close>

lemma frame_of_entry:
  assumes "f mod PAGE_SIZE = 0" and "f < 2 ^ 32" and "c AND FRAME_MASK = 0"
  shows "frame_of (word_of_nat f OR c) = f"
proof -
  have "(word_of_nat f OR c) AND FRAME_MASK = word_of_nat f AND FRAME_MASK OR c AND FRAME_MASK"
    by (rule bit.conj_disj_distrib2)
  then show ?thesis using assms by (simp add: frame_of_def aligned_word unat_of_nat)
qed

lemma frame_of_aligned: "frame_of e mod PAGE_SIZE = 0"
proof -
  have "take_bit 12 (e AND FRAME_MASK) = 0"
    by (auto intro!: bit_word_eqI simp: bit_simps bit_FRAME_MASK)
  then have "take_bit 12 (frame_of e) = 0"
    by (metis frame_of_def unsigned_0 unsigned_take_bit_eq)
  then show ?thesis by (simp add: take_bit_eq_mod layout_defs)
qed

lemma frame_of_less: "frame_of e < 2 ^ 32"
  using unsigned_less [of "e AND FRAME_MASK", where ?'a = nat] by (simp add: frame_of_def)

lemma page_multiple: "b mod PAGE_SIZE = 0 \<Longrightarrow> \<exists>k. b = 4096 * k"
  by (auto simp: layout_defs dvd_def)

lemma entry_disjoint:
  assumes "b mod PAGE_SIZE = 0" and "b' mod PAGE_SIZE = 0" and "i < ENTRIES" and "j < ENTRIES"
    and "b \<noteq> b' \<or> i \<noteq> j"
  shows "entry_at b i + 4 \<le> entry_at b' j \<or> entry_at b' j + 4 \<le> entry_at b i"
proof -
  obtain k k' where k: "b = 4096 * k" "b' = 4096 * k'" using assms(1,2) page_multiple by metis
  have ij: "i < 1024" "j < 1024" using assms(3,4) by (auto simp: ENTRIES_def)
  have "k = (1024 * k + i) div 1024" "k' = (1024 * k' + j) div 1024" using ij by auto
  then have "1024 * k + i \<noteq> 1024 * k' + j" using assms(5) unfolding k by fastforce
  then show ?thesis unfolding k entry_at_def by linarith
qed

lemma entry_in_page: "i < ENTRIES \<Longrightarrow> b \<le> entry_at b i \<and> entry_at b i + 4 \<le> b + PAGE_SIZE"
  by (simp add: entry_at_def paging_consts)

lemma pages_disjoint:
  assumes "b mod PAGE_SIZE = 0" and "b' mod PAGE_SIZE = 0" and "b \<noteq> b'"
  shows "b + PAGE_SIZE \<le> b' \<or> b' + PAGE_SIZE \<le> b"
proof -
  obtain k k' where k: "b = 4096 * k" "b' = 4096 * k'" using assms(1,2) page_multiple by metis
  with assms(3) have "k \<noteq> k'" by auto
  then show ?thesis unfolding k layout_defs by linarith
qed

text \<open>The memory seen as tables of words: a store with the two updates the code performs.\<close>

locale table_store =
  fixes get :: "'s \<Rightarrow> nat \<Rightarrow> nat \<Rightarrow> u32" and put :: "nat \<Rightarrow> nat \<Rightarrow> u32 \<Rightarrow> 's \<Rightarrow> 's" and clear :: "nat \<Rightarrow> 's \<Rightarrow> 's"
    and frame :: "nat \<Rightarrow> bool"
  assumes get_put: "frame b \<Longrightarrow> frame b' \<Longrightarrow> i < ENTRIES \<Longrightarrow> j < ENTRIES \<Longrightarrow>
      get (put b i v s) b' j = (if b' = b \<and> j = i then v else get s b' j)"
    and get_clear: "frame b \<Longrightarrow> frame b' \<Longrightarrow> j < ENTRIES \<Longrightarrow>
      get (clear b s) b' j = (if b' = b then 0 else get s b' j)"
begin

lemma get_put_all:
  assumes "\<forall>b\<in>set bs. frame b" and "frame b'" and "i < ENTRIES" and "j < ENTRIES"
  shows "get (fold (\<lambda>b s. put b i v s) bs s) b' j = (if b' \<in> set bs \<and> j = i then v else get s b' j)"
  using assms by (induction bs arbitrary: s) (auto simp: get_put)

end

definition word_at_index :: "machine \<Rightarrow> nat \<Rightarrow> nat \<Rightarrow> u32" where
  "word_at_index s b i = rd32 (phys s) (entry_at b i)"

interpretation ts: table_store word_at_index "\<lambda>b i. set_word (entry_at b i)" zero_page "\<lambda>b. b mod PAGE_SIZE = 0"
proof
  fix b b' i j :: nat and v :: u32 and s :: machine
  assume b: "b mod PAGE_SIZE = 0" "b' mod PAGE_SIZE = 0" and j: "j < ENTRIES"
  show "word_at_index (set_word (entry_at b i) v s) b' j = (if b' = b \<and> j = i then v else word_at_index s b' j)"
    if "i < ENTRIES"
    using entry_disjoint [OF b that j] rd32_wr32_other
    by (auto simp: word_at_index_def set_word_def)
  show "word_at_index (zero_page b s) b' j = (if b' = b then 0 else word_at_index s b' j)"
  proof (cases "b' = b")
    case True
    then show ?thesis using entry_in_page [OF j, of b]
      by (simp add: word_at_index_def zero_page_def rd32_wr_zero)
  next
    case False
    then show ?thesis using pages_disjoint [OF b(1) b(2)] entry_in_page [OF j, of b']
      by (auto simp: word_at_index_def zero_page_def intro!: rd32_wr_other)
  qed
qed

lemma entries_words:
  "directory_entry s space i = word_at_index s (directory_physical space) i"
  "table_entry s e i = word_at_index s (frame_of e) i"
  by (simp_all add: directory_entry_def table_entry_def word_at_index_def)

lemma paging_frames [simp]:
  "kernel_space (set_word a v s) = kernel_space s" "spaces (set_word a v s) = spaces s"
  "enabled (set_word a v s) = enabled s" "pm (set_word a v s) = pm s" "halted (set_word a v s) = halted s"
  "active_space (set_word a v s) = active_space s" "cr3 (set_word a v s) = cr3 s"
  "private_spaces (set_word a v s) = private_spaces s"
  "kernel_space (zero_page b s) = kernel_space s" "spaces (zero_page b s) = spaces s"
  "enabled (zero_page b s) = enabled s" "pm (zero_page b s) = pm s" "halted (zero_page b s) = halted s"
  "active_space (zero_page b s) = active_space s" "cr3 (zero_page b s) = cr3 s"
  "private_spaces (zero_page b s) = private_spaces s"
  by (simp_all add: set_word_def zero_page_def)

section \<open>The invariant\<close>

definition taken :: "machine \<Rightarrow> nat set" where
  "taken s = frames (page_set (allocated (pm s)))"

definition dirs :: "machine \<Rightarrow> nat list" where
  "dirs s = directory_physical (kernel_space s) # map (directory_physical \<circ> snd) (spaces s)"

definition kernel_entry :: "machine \<Rightarrow> nat \<Rightarrow> u32" where
  "kernel_entry s i = word_at_index s (directory_physical (kernel_space s)) i"

text \<open>The tables the kernel directory refers to.\<close>

definition kernel_tables :: "machine \<Rightarrow> nat set" where
  "kernel_tables s = {frame_of (kernel_entry s i) | i. i < KERNEL_ENTRIES \<and> present (kernel_entry s i)}"

definition kernel_inv :: "machine \<Rightarrow> bool" where
  "kernel_inv s \<longleftrightarrow>
     enabled s \<and> pmm_inv (pm s) \<and> distinct (dirs s) \<and> set (dirs s) \<subseteq> taken s \<and>
     kernel_tables s \<subseteq> taken s - set (dirs s) \<and>
     (\<forall>i j. i < KERNEL_ENTRIES \<and> j < KERNEL_ENTRIES \<and> present (kernel_entry s i) \<and> present (kernel_entry s j) \<and>
            frame_of (kernel_entry s i) = frame_of (kernel_entry s j) \<longrightarrow> i = j) \<and>
     (\<forall>d\<in>set (dirs s). \<forall>i<KERNEL_ENTRIES. word_at_index s d i = kernel_entry s i)"

lemma taken_frame: "pmm_inv (pm s) \<Longrightarrow> f \<in> taken s \<Longrightarrow> f mod PAGE_SIZE = 0 \<and> f < 2 ^ 32 \<and> f \<noteq> 0"
proof -
  assume inv: "pmm_inv (pm s)" and f: "f \<in> taken s"
  then have "f mod PAGE_SIZE = 0" "f div PAGE_SIZE \<in> page_set (managed (pm s))"
    by (auto simp: taken_def frames_iff pmm_inv_def)
  moreover from this inv have "f div PAGE_SIZE < PAGE_COUNT" "RUM_LOW_RESERVED_END div PAGE_SIZE \<le> f div PAGE_SIZE"
    by (auto simp: page_set_def pmm_inv_def)
  ultimately show ?thesis by (auto simp: pmm_consts)
qed

lemma kernel_frames:
  assumes "kernel_inv s"
  shows "d \<in> set (dirs s) \<Longrightarrow> d mod PAGE_SIZE = 0"
    and "i < KERNEL_ENTRIES \<Longrightarrow> present (kernel_entry s i) \<Longrightarrow>
           frame_of (kernel_entry s i) \<in> taken s \<and> frame_of (kernel_entry s i) \<notin> set (dirs s)"
  using assms taken_frame [of s] by (auto simp: kernel_inv_def kernel_tables_def)

lemma kernel_inj:
  assumes "kernel_inv s"
  shows "i < KERNEL_ENTRIES \<Longrightarrow> j < KERNEL_ENTRIES \<Longrightarrow> present (kernel_entry s i) \<Longrightarrow> present (kernel_entry s j) \<Longrightarrow>
    frame_of (kernel_entry s i) = frame_of (kernel_entry s j) \<Longrightarrow> i = j"
  using assms unfolding kernel_inv_def by blast

lemma kernel_shared:
  "kernel_inv s \<Longrightarrow> d \<in> set (dirs s) \<Longrightarrow> i < KERNEL_ENTRIES \<Longrightarrow> word_at_index s d i = kernel_entry s i"
  by (simp add: kernel_inv_def)

lemma KERNEL_less: "i < KERNEL_ENTRIES \<Longrightarrow> i < ENTRIES"
  by (simp add: paging_consts)

section \<open>Translation through the words\<close>

text \<open>Every known space translates kernel addresses through the kernel's entries.\<close>

definition kernel_walk :: "machine \<Rightarrow> nat \<Rightarrow> nat \<Rightarrow> u32 option" where
  "kernel_walk s i j =
     (if present (kernel_entry s i)
      then (let e = word_at_index s (frame_of (kernel_entry s i)) j in if present e then Some e else None) else None)"

lemma known_directory:
  assumes "known_space s r"
  shows "directory_physical (space_of s r) \<in> set (dirs s)"
proof (cases r)
  case (Space_At p)
  with assms obtain x where "map_of (spaces s) p = Some x"
    by (cases "map_of (spaces s) p") (auto simp: known_space_def map_of_eq_None_iff)
  moreover from this have "(p, x) \<in> set (spaces s)" by (rule map_of_SomeD)
  ultimately show ?thesis using Space_At by (force simp: space_of_def dirs_def)
qed (auto simp: space_of_def dirs_def)

lemma translate_kernel_half:
  assumes "kernel_inv s" and "known_space s r" and "v < RUM_USER_BASE"
  shows "paging_translate s r v =
           map_option (\<lambda>e. frame_of e OR v mod PAGE_SIZE) (kernel_walk s (dir_index v) (page_index v))"
proof -
  have "dir_index v < KERNEL_ENTRIES" using assms(3) by (auto simp: dir_index_def paging_consts)
  with known_directory [OF assms(2)] assms(1)
  have "directory_entry s (space_of s r) (dir_index v) = kernel_entry s (dir_index v)"
    by (simp add: kernel_inv_def entries_words)
  then show ?thesis
    using assms(2) by (simp add: paging_translate_def kernel_walk_def entries_words Let_def)
qed

section \<open>Steps on kernel tables\<close>

lemma publish_words:
  assumes "\<forall>d\<in>set (dirs s). d mod PAGE_SIZE = 0" and "b mod PAGE_SIZE = 0" and "i < KERNEL_ENTRIES" and "j < ENTRIES"
  shows "word_at_index (publish_kernel_entry i v s) b j =
           (if b \<in> set (dirs s) \<and> j = i then v else word_at_index s b j)"
proof -
  have "publish_kernel_entry i v s = fold (\<lambda>b. set_word (entry_at b i) v) (dirs s) s"
    by (simp add: publish_kernel_entry_def dirs_def fold_map comp_def)
  then show ?thesis
    using ts.get_put_all [of "dirs s" b i j v s] assms KERNEL_less by simp
qed

lemma fold_set_word_frame:
  "kernel_space (fold (\<lambda>x. set_word (f x) v) xs s) = kernel_space s"
  "spaces (fold (\<lambda>x. set_word (f x) v) xs s) = spaces s"
  "enabled (fold (\<lambda>x. set_word (f x) v) xs s) = enabled s"
  "pm (fold (\<lambda>x. set_word (f x) v) xs s) = pm s"
  "halted (fold (\<lambda>x. set_word (f x) v) xs s) = halted s"
  "active_space (fold (\<lambda>x. set_word (f x) v) xs s) = active_space s"
  by (induction xs arbitrary: s) simp_all

lemma publish_frame [simp]:
  "kernel_space (publish_kernel_entry i v s) = kernel_space s" "spaces (publish_kernel_entry i v s) = spaces s"
  "enabled (publish_kernel_entry i v s) = enabled s" "pm (publish_kernel_entry i v s) = pm s"
  "halted (publish_kernel_entry i v s) = halted s" "active_space (publish_kernel_entry i v s) = active_space s"
  unfolding publish_kernel_entry_def by (simp_all only: fold_set_word_frame)

lemma dirs_frame [simp]:
  "dirs (set_word a v s) = dirs s" "dirs (zero_page b s) = dirs s" "dirs (publish_kernel_entry i v s) = dirs s"
  "dirs (s\<lparr>pm := p\<rparr>) = dirs s" "dirs (s\<lparr>cr3 := c\<rparr>) = dirs s" "dirs (s\<lparr>halted := h\<rparr>) = dirs s"
  by (simp_all add: dirs_def)

lemma word_at_index_frame [simp]:
  "word_at_index (s\<lparr>pm := p\<rparr>) b i = word_at_index s b i" "word_at_index (s\<lparr>cr3 := c\<rparr>) b i = word_at_index s b i"
  "word_at_index (s\<lparr>halted := h\<rparr>) b i = word_at_index s b i"
  by (simp_all add: word_at_index_def)

lemma kernel_entry_frame [simp]:
  "kernel_entry (s\<lparr>pm := p\<rparr>) = kernel_entry s" "kernel_entry (s\<lparr>cr3 := c\<rparr>) = kernel_entry s"
  "kernel_entry (s\<lparr>halted := h\<rparr>) = kernel_entry s"
  by (simp_all add: fun_eq_iff kernel_entry_def)

text \<open>Which states keep the invariant: same registry, an entry table that refers to taken frames.\<close>

lemma kernel_invI:
  assumes "enabled s'" and "pmm_inv (pm s')" and "dirs s' = dirs s" and "distinct (dirs s)"
    and "set (dirs s) \<subseteq> taken s'" and "directory_physical (kernel_space s') = hd (dirs s)"
    and words: "\<forall>d\<in>set (dirs s). \<forall>j<KERNEL_ENTRIES. word_at_index s' d j = e j"
    and "\<forall>j<KERNEL_ENTRIES. present (e j) \<longrightarrow> frame_of (e j) \<in> taken s' - set (dirs s)"
    and "\<forall>i<KERNEL_ENTRIES. \<forall>j<KERNEL_ENTRIES. present (e i) \<longrightarrow> present (e j) \<longrightarrow>
           frame_of (e i) = frame_of (e j) \<longrightarrow> i = j"
  shows "kernel_inv s'" and "\<And>j. j < KERNEL_ENTRIES \<Longrightarrow> kernel_entry s' j = e j"
proof -
  have "hd (dirs s) \<in> set (dirs s)" by (simp add: dirs_def)
  then show ke: "\<And>j. j < KERNEL_ENTRIES \<Longrightarrow> kernel_entry s' j = e j"
    using words assms(6) by (simp add: kernel_entry_def)
  have tables: "kernel_tables s' \<subseteq> taken s' - set (dirs s')"
    using assms(8) ke unfolding kernel_tables_def assms(3) by fastforce
  have share: "\<forall>d\<in>set (dirs s'). \<forall>i<KERNEL_ENTRIES. word_at_index s' d i = kernel_entry s' i"
    using words ke unfolding assms(3) by simp
  have inj: "\<forall>i j. i < KERNEL_ENTRIES \<and> j < KERNEL_ENTRIES \<and> present (kernel_entry s' i) \<and>
      present (kernel_entry s' j) \<and> frame_of (kernel_entry s' i) = frame_of (kernel_entry s' j) \<longrightarrow> i = j"
    using assms(9) ke by metis
  show "kernel_inv s'"
    unfolding kernel_inv_def using assms(1,2,4,5) tables share inj by (simp add: assms(3))
qed

lemma present_entry: "present (w OR PRESENT OR f)"
proof -
  have "bit ((w OR PRESENT OR f) AND PRESENT) 0" by (simp add: bit_simps PRESENT_def)
  then show ?thesis unfolding present_def by force
qed

lemma not_present_0 [simp]: "\<not> present 0" by (simp add: present_def)

lemma allocate_frame_law:
  assumes "pmm_inv (pm s)" and "allocate_frame s = (f, s1)"
  shows "\<exists>p. s1 = s\<lparr>pm := p\<rparr>" and "pmm_inv (pm s1)" and "f = 0 \<Longrightarrow> taken s1 = taken s"
    and "f \<noteq> 0 \<Longrightarrow> f \<notin> taken s \<and> taken s1 = insert f (taken s) \<and> f mod PAGE_SIZE = 0 \<and> f < 2 ^ 32"
proof -
  obtain p where p: "pmm_allocate_page (pm s) = (f, p)" and s1: "s1 = s\<lparr>pm := p\<rparr>"
    using assms(2) by (auto simp: allocate_frame_def split: prod.splits)
  show "\<exists>p. s1 = s\<lparr>pm := p\<rparr>" using s1 by blast
  show inv: "pmm_inv (pm s1)" using fr.alloc_law [OF assms(1) p] by (simp add: s1)
  show "f = 0 \<Longrightarrow> taken s1 = taken s"
    using fr.alloc_zero [OF assms(1)] p by (simp add: s1 taken_def)
  assume f: "f \<noteq> 0"
  have "f \<notin> taken s \<and> taken s1 = insert f (taken s)"
    using fr.alloc_fresh [OF assms(1) p f] by (simp add: s1 taken_def)
  moreover from this have "f mod PAGE_SIZE = 0 \<and> f < 2 ^ 32" using taken_frame [OF inv, of f] by simp
  ultimately show "f \<notin> taken s \<and> taken s1 = insert f (taken s) \<and> f mod PAGE_SIZE = 0 \<and> f < 2 ^ 32" by simp
qed

definition same_walks :: "machine \<Rightarrow> machine \<Rightarrow> bool" where
  "same_walks s s' \<longleftrightarrow> (\<forall>i<KERNEL_ENTRIES. \<forall>j<ENTRIES. kernel_walk s' i j = kernel_walk s i j)"

lemma flag_masks: "(PRESENT OR PAGING_WRITABLE) AND FRAME_MASK = 0" "PRESENT AND FRAME_MASK = 0"
  "PAGING_WRITABLE AND FRAME_MASK = 0" "USER AND FRAME_MASK = 0"
  by (simp_all add: PRESENT_def PAGING_WRITABLE_def USER_def FRAME_MASK_def)

lemma new_kernel_table_none:
  assumes "kernel_inv s" and "new_kernel_table i s = (0, s1)"
  shows "kernel_inv s1 \<and> same_walks s s1 \<and> taken s1 = taken s \<and> halted s1 = halted s \<and> spaces s1 = spaces s"
proof -
  have inv: "pmm_inv (pm s)" using assms(1) by (simp add: kernel_inv_def)
  have al: "allocate_frame s = (0, s1)"
    using assms(2) by (auto simp: new_kernel_table_def Let_def split: prod.splits if_splits)
  note law = allocate_frame_law [OF inv al]
  from law(1) obtain p where s1: "s1 = s\<lparr>pm := p\<rparr>" by blast
  have "kernel_entry s1 = kernel_entry s" "dirs s1 = dirs s" "kernel_tables s1 = kernel_tables s"
    by (simp_all add: s1 kernel_tables_def)
  then show ?thesis
    using assms(1) law(2,3) by (simp add: kernel_inv_def same_walks_def kernel_walk_def s1)
qed

definition table_value :: "nat \<Rightarrow> u32" where
  "table_value f = word_of_nat f OR PRESENT OR PAGING_WRITABLE"

lemma table_value:
  "f mod PAGE_SIZE = 0 \<Longrightarrow> f < 2 ^ 32 \<Longrightarrow> frame_of (table_value f) = f" "present (table_value f)"
  using frame_of_entry [OF _ _ flag_masks(1)] present_entry by (simp_all add: or.assoc table_value_def)

lemma new_kernel_table_words:
  assumes "kernel_inv s" and "new_kernel_table i s = (f, s1)" and "f \<noteq> 0" and "i < KERNEL_ENTRIES"
  shows "taken s1 = insert f (taken s)" "f \<notin> taken s" "f mod PAGE_SIZE = 0" "f < 2 ^ 32" "pmm_inv (pm s1)"
    and "kernel_space s1 = kernel_space s" "spaces s1 = spaces s" "enabled s1 = enabled s" "halted s1 = halted s"
    and "b mod PAGE_SIZE = 0 \<Longrightarrow> j < ENTRIES \<Longrightarrow> word_at_index s1 b j =
           (if b \<in> set (dirs s) \<and> j = i then table_value f else if b = f then 0 else word_at_index s b j)"
proof -
  have inv: "pmm_inv (pm s)" using assms(1) by (simp add: kernel_inv_def)
  obtain s0 where al: "allocate_frame s = (f, s0)" and s1: "s1 = publish_kernel_entry i (table_value f) (zero_page f s0)"
    using assms(2,3) by (auto simp: new_kernel_table_def table_value_def Let_def split: prod.splits if_splits)
  note law = allocate_frame_law [OF inv al]
  from law(1) obtain p where s0: "s0 = s\<lparr>pm := p\<rparr>" by blast
  show f: "taken s1 = insert f (taken s)" "f \<notin> taken s" "f mod PAGE_SIZE = 0" "f < 2 ^ 32" "pmm_inv (pm s1)"
    using law(2) law(4) [OF assms(3)] by (auto simp: s1 taken_def)
  show "kernel_space s1 = kernel_space s" "spaces s1 = spaces s" "enabled s1 = enabled s" "halted s1 = halted s"
    by (simp_all add: s1 s0)
  assume b: "b mod PAGE_SIZE = 0" "j < ENTRIES"
  have "dirs (zero_page f s0) = dirs s" "word_at_index s0 b j = word_at_index s b j" by (simp_all add: s0)
  moreover have "\<forall>d\<in>set (dirs s). d mod PAGE_SIZE = 0" using kernel_frames(1) [OF assms(1)] by blast
  ultimately show "word_at_index s1 b j =
           (if b \<in> set (dirs s) \<and> j = i then table_value f else if b = f then 0 else word_at_index s b j)"
    using publish_words [of "zero_page f s0" b i j "table_value f"] ts.get_clear [OF f(3) b, of s0] b assms(4)
    by (auto simp: s1)
qed

lemma new_kernel_table_some:
  assumes "kernel_inv s" and "new_kernel_table i s = (f, s1)" and "f \<noteq> 0" and "i < KERNEL_ENTRIES"
    and "\<not> present (kernel_entry s i)"
  shows "kernel_inv s1" and "same_walks s s1" and "kernel_entry s1 i = table_value f"
proof -
  note new = new_kernel_table_words [OF assms(1-4)]
  define e where "e = (\<lambda>j. if j = i then table_value f else kernel_entry s j)"
  have df: "\<forall>d\<in>set (dirs s). d mod PAGE_SIZE = 0" using kernel_frames(1) [OF assms(1)] by blast
  have sub: "set (dirs s) \<subseteq> taken s" using assms(1) by (simp add: kernel_inv_def)
  then have fd: "f \<notin> set (dirs s)" using new(2) by blast
  have kf: "j < KERNEL_ENTRIES \<Longrightarrow> present (kernel_entry s j) \<Longrightarrow> frame_of (kernel_entry s j) \<in> taken s - set (dirs s)" for j
    using kernel_frames(2) [OF assms(1)] by blast
  have fr: "frame_of (table_value f) = f" by (rule table_value(1) [OF new(3,4)])
  have ds: "dirs s1 = dirs s" by (simp add: dirs_def new(6,7))
  have words: "\<forall>d\<in>set (dirs s). \<forall>j<KERNEL_ENTRIES. word_at_index s1 d j = e j"
    using new(10) df fd KERNEL_less kernel_shared [OF assms(1)] by (auto simp: e_def)
  have tables: "\<forall>j<KERNEL_ENTRIES. present (e j) \<longrightarrow> frame_of (e j) \<in> taken s1 - set (dirs s)"
    using kf fd new(1) fr by (auto simp: e_def)
  have inj: "\<forall>a<KERNEL_ENTRIES. \<forall>b<KERNEL_ENTRIES. present (e a) \<longrightarrow> present (e b) \<longrightarrow>
      frame_of (e a) = frame_of (e b) \<longrightarrow> a = b"
    using kf new(2) fr kernel_inj [OF assms(1)] by (simp add: e_def) blast
  have sub1: "set (dirs s) \<subseteq> taken s1" using sub new(1) by blast
  have hd: "directory_physical (kernel_space s1) = hd (dirs s)" by (simp add: new(6) dirs_def)
  have en: "enabled s1" and dist: "distinct (dirs s)" using assms(1) new(8) by (auto simp: kernel_inv_def)
  note * = kernel_invI [of s1 s e, OF en new(5) ds dist sub1 hd words tables inj]
  show "kernel_inv s1" by (rule *(1))
  show "kernel_entry s1 i = table_value f" using *(2) assms(4) by (simp add: e_def)
  have "kernel_walk s1 a j = kernel_walk s a j" if "a < KERNEL_ENTRIES" "j < ENTRIES" for a j
    using *(2) [OF that(1)] new(10) [OF _ that(2), of "frame_of (e a)"] kf [OF that(1)] new(2) fr fd assms(5)
    by (auto simp: kernel_walk_def e_def frame_of_aligned Let_def)
  then show "same_walks s s1" by (simp add: same_walks_def)
qed

text \<open>Writing one word of a kernel table.\<close>

lemma set_table_word:
  assumes "kernel_inv s" and "i < KERNEL_ENTRIES" and "j < ENTRIES" and "present (kernel_entry s i)"
    and s'_def: "s' = set_word (entry_at (frame_of (kernel_entry s i)) j) v s"
  shows "kernel_inv s'" and "\<And>a. a < KERNEL_ENTRIES \<Longrightarrow> kernel_entry s' a = kernel_entry s a"
    and "\<And>a b. a < KERNEL_ENTRIES \<Longrightarrow> b < ENTRIES \<Longrightarrow>
           kernel_walk s' a b = (if a = i \<and> b = j then (if present v then Some v else None) else kernel_walk s a b)"
proof -
  let ?t = "frame_of (kernel_entry s i)"
  have t: "?t \<in> taken s" "?t \<notin> set (dirs s)" using kernel_frames(2) [OF assms(1,2,4)] by auto
  have words: "word_at_index s' b k = (if b = ?t \<and> k = j then v else word_at_index s b k)"
    if "b mod PAGE_SIZE = 0" "k < ENTRIES" for b k
    unfolding s'_def using ts.get_put [OF frame_of_aligned that(1) assms(3) that(2)] .
  have tk: "taken s' = taken s" by (simp add: s'_def taken_def)
  have w: "\<forall>d\<in>set (dirs s). \<forall>k<KERNEL_ENTRIES. word_at_index s' d k = kernel_entry s k"
    using words t(2) kernel_frames(1) [OF assms(1)] KERNEL_less kernel_shared [OF assms(1)] by auto
  have tables: "\<forall>k<KERNEL_ENTRIES. present (kernel_entry s k) \<longrightarrow> frame_of (kernel_entry s k) \<in> taken s' - set (dirs s)"
    using kernel_frames(2) [OF assms(1)] by (simp add: tk)
  have inj: "\<forall>a<KERNEL_ENTRIES. \<forall>b<KERNEL_ENTRIES. present (kernel_entry s a) \<longrightarrow> present (kernel_entry s b) \<longrightarrow>
      frame_of (kernel_entry s a) = frame_of (kernel_entry s b) \<longrightarrow> a = b"
    using kernel_inj [OF assms(1)] by blast
  have basic: "enabled s'" "pmm_inv (pm s')" "dirs s' = dirs s" "distinct (dirs s)" "set (dirs s) \<subseteq> taken s'"
      "directory_physical (kernel_space s') = hd (dirs s)"
    using assms(1) by (auto simp: s'_def kernel_inv_def tk taken_def, simp add: dirs_def)
  note K = kernel_invI [OF basic w tables inj]
  show "kernel_inv s'" by (rule K(1))
  show ke: "\<And>a. a < KERNEL_ENTRIES \<Longrightarrow> kernel_entry s' a = kernel_entry s a" by (rule K(2))
  fix a b assume ab: "a < KERNEL_ENTRIES" "b < ENTRIES"
  show "kernel_walk s' a b = (if a = i \<and> b = j then (if present v then Some v else None) else kernel_walk s a b)"
  proof (cases "present (kernel_entry s a)")
    case True
    then have "frame_of (kernel_entry s a) = ?t \<longleftrightarrow> a = i" using kernel_inj [OF assms(1) ab(1) assms(2) True assms(4)] by auto
    with words [OF frame_of_aligned ab(2), of "kernel_entry s a"] ke [OF ab(1)] True show ?thesis
      by (auto simp: kernel_walk_def Let_def)
  next
    case False
    with ke [OF ab(1)] assms(4) show ?thesis by (auto simp: kernel_walk_def)
  qed
qed

lemma free_or_halt_law:
  assumes "pmm_inv (pm s)" and "f \<in> taken s"
  shows "\<exists>p. free_or_halt f s = s\<lparr>pm := p\<rparr> \<and> pmm_inv p \<and> frames (page_set (allocated p)) = taken s - {f}"
proof -
  obtain ok p where p: "pmm_free_page f (pm s) = (ok, p)" by fastforce
  from fr.release_law [OF assms(1) p] assms(2) have "ok" "pmm_inv p" "frames (page_set (allocated p)) = taken s - {f}"
    by (auto simp: taken_def)
  then show ?thesis using p by (auto simp: free_or_halt_def)
qed

text \<open>Retiring a kernel table with no entries: the walk is unchanged and nothing halts.\<close>

lemma reclaim_kernel_table_words:
  assumes "kernel_inv s" and "i < KERNEL_ENTRIES" and "present (kernel_entry s i)"
    and "table_empty s (frame_of (kernel_entry s i))" and s': "s' = reclaim_empty_kernel_table i s"
  shows "taken s' = taken s - {frame_of (kernel_entry s i)}" "pmm_inv (pm s')" "kernel_space s' = kernel_space s"
    and "spaces s' = spaces s" "enabled s' = enabled s" "halted s' = halted s"
    and "b mod PAGE_SIZE = 0 \<Longrightarrow> k < ENTRIES \<Longrightarrow>
           word_at_index s' b k = (if b \<in> set (dirs s) \<and> k = i then 0 else word_at_index s b k)"
proof -
  let ?t = "frame_of (kernel_entry s i)"
  define s1 where "s1 = reload_directory (space_of (publish_kernel_entry i 0 s) (active_space s)) (publish_kernel_entry i 0 s)"
  have t: "?t \<in> taken s" using kernel_frames(2) [OF assms(1-3)] by simp
  have s1t: "taken s1 = taken s" "pmm_inv (pm s1)"
    using assms(1) by (simp_all add: s1_def reload_directory_def taken_def kernel_inv_def)
  have "s' = free_or_halt ?t s1"
    using assms(3,4) by (simp add: s' s1_def reclaim_empty_kernel_table_def Let_def entries_words kernel_entry_def)
  then obtain p where p: "s' = s1\<lparr>pm := p\<rparr>" "pmm_inv p" "frames (page_set (allocated p)) = taken s - {?t}"
    using free_or_halt_law [OF s1t(2), of ?t] t s1t(1) by auto
  show "taken s' = taken s - {?t}" "pmm_inv (pm s')" "kernel_space s' = kernel_space s"
    "spaces s' = spaces s" "enabled s' = enabled s" "halted s' = halted s"
    using p by (simp_all add: taken_def s1_def reload_directory_def)
  show "word_at_index s' b k = (if b \<in> set (dirs s) \<and> k = i then 0 else word_at_index s b k)"
    if "b mod PAGE_SIZE = 0" "k < ENTRIES"
    using publish_words [of s b i k 0] that kernel_frames(1) [OF assms(1)] assms(2)
    by (simp add: p(1) s1_def reload_directory_def)
qed

lemma reclaim_kernel_table:
  assumes "kernel_inv s" and "i < KERNEL_ENTRIES"
  defines "s' \<equiv> reclaim_empty_kernel_table i s"
  shows "kernel_inv s' \<and> same_walks s s' \<and> halted s' = halted s \<and> spaces s' = spaces s \<and> taken s' \<subseteq> taken s"
proof (cases "present (kernel_entry s i) \<and> table_empty s (frame_of (kernel_entry s i))")
  case False
  then have "s' = s"
    by (auto simp: s'_def reclaim_empty_kernel_table_def Let_def entries_words kernel_entry_def)
  then show ?thesis using assms(1) by (simp add: same_walks_def)
next
  case True
  let ?t = "frame_of (kernel_entry s i)"
  note new = reclaim_kernel_table_words [OF assms(1,2) conjunct1 [OF True] conjunct2 [OF True] s'_def [THEN meta_eq_to_obj_eq]]
  have t: "?t \<notin> set (dirs s)" using kernel_frames(2) [OF assms(1,2)] True by auto
  have ds: "dirs s' = dirs s" by (simp add: dirs_def new(3,4))
  define e where "e = (\<lambda>j. if j = i then 0 else kernel_entry s j)"
  have w: "\<forall>d\<in>set (dirs s). \<forall>k<KERNEL_ENTRIES. word_at_index s' d k = e k"
    using new(7) kernel_frames(1) [OF assms(1)] KERNEL_less kernel_shared [OF assms(1)] by (auto simp: e_def)
  have tables: "\<forall>k<KERNEL_ENTRIES. present (e k) \<longrightarrow> frame_of (e k) \<in> taken s' - set (dirs s)"
    using kernel_frames(2) [OF assms(1)] kernel_inj [OF assms(1) _ assms(2)] True unfolding new(1) e_def by auto
  have inj: "\<forall>a<KERNEL_ENTRIES. \<forall>b<KERNEL_ENTRIES. present (e a) \<longrightarrow> present (e b) \<longrightarrow>
      frame_of (e a) = frame_of (e b) \<longrightarrow> a = b"
    using kernel_inj [OF assms(1)] by (auto simp: e_def)
  have basic: "enabled s'" "pmm_inv (pm s')" "dirs s' = dirs s" "distinct (dirs s)" "set (dirs s) \<subseteq> taken s'"
      "directory_physical (kernel_space s') = hd (dirs s)"
    using assms(1) new(1,2,5) t ds by (auto simp: kernel_inv_def, simp add: dirs_def new(3))
  note K = kernel_invI [OF basic w tables inj]
  have zero: "word_at_index s ?t b = 0" if "b < ENTRIES" for b
    using True that by (auto simp: table_empty_def word_at_index_def)
  have "kernel_walk s' a b = kernel_walk s a b" if "a < KERNEL_ENTRIES" "b < ENTRIES" for a b
  proof (cases "a = i")
    case True
    then show ?thesis using K(2) [OF that(1)] zero [OF that(2)] by (simp add: kernel_walk_def e_def)
  next
    case False
    then have "kernel_entry s' a = kernel_entry s a" using K(2) [OF that(1)] by (simp add: e_def)
    then show ?thesis
      using new(7) [OF frame_of_aligned that(2), of "kernel_entry s a"] kernel_frames(2) [OF assms(1) that(1)]
      by (auto simp: kernel_walk_def Let_def)
  qed
  then show ?thesis using K(1) new(1,4,6) by (auto simp: same_walks_def)
qed

section \<open>Mapping and unmapping\<close>

lemma window_index:
  assumes "memory_kernel_mapping_range v PAGE_SIZE"
  shows "dir_index v < KERNEL_ENTRIES" and "page_index v < ENTRIES" and "v < RUM_USER_BASE"
  using assms
  by (auto simp: memory_kernel_mapping_range_def memory_range_contains_def dir_index_def page_index_def paging_consts)

text \<open>The value of a mapped page: its frame with the present bit and the caller's write bit.\<close>

definition page_value :: "nat \<Rightarrow> u32 \<Rightarrow> u32" where
  "page_value f flags = word_of_nat f OR PRESENT OR flags"

lemma page_value:
  assumes "f mod PAGE_SIZE = 0" and "f < 2 ^ 32" and "flags AND NOT PAGING_WRITABLE = 0"
  shows "frame_of (page_value f flags) = f" and "present (page_value f flags)"
proof -
  have "flags = flags AND PAGING_WRITABLE"
    by (metis assms(3) bit.conj_cancel_right bit.conj_disj_distrib bit.disj_cancel_right bit.conj_one_right or.right_neutral)
  then have "flags AND FRAME_MASK = 0"
    by (metis and.assoc flag_masks(3) and_zero_eq)
  then have "(PRESENT OR flags) AND FRAME_MASK = 0"
    by (simp add: bit.conj_disj_distrib2 flag_masks)
  from frame_of_entry [OF assms(1,2) this] show "frame_of (page_value f flags) = f"
    by (simp add: page_value_def or.assoc)
  show "present (page_value f flags)" by (simp add: page_value_def present_entry)
qed

definition mapped_only :: "machine \<Rightarrow> machine \<Rightarrow> nat \<Rightarrow> u32 option \<Rightarrow> bool" where
  "mapped_only s s' v w \<longleftrightarrow>
     (\<forall>i<KERNEL_ENTRIES. \<forall>j<ENTRIES. kernel_walk s' i j =
        (if i = dir_index v \<and> j = page_index v then w else kernel_walk s i j))"

lemma ensure_kernel_table:
  assumes "kernel_inv s" and "i < KERNEL_ENTRIES"
    and "s1 = (if \<not> present (directory_entry s (kernel_space s) i) then snd (new_kernel_table i s) else s)"
  shows "kernel_inv s1 \<and> same_walks s s1 \<and> taken s \<subseteq> taken s1 \<and> halted s1 = halted s \<and> spaces s1 = spaces s"
proof (cases "present (kernel_entry s i)")
  case True
  then show ?thesis using assms by (simp add: entries_words kernel_entry_def same_walks_def)
next
  case False
  then obtain f where new: "new_kernel_table i s = (f, s1)"
    using assms(3) by (metis entries_words(1) kernel_entry_def prod.collapse)
  show ?thesis
  proof (cases "f = 0")
    case True
    then show ?thesis using new_kernel_table_none [OF assms(1)] new by auto
  next
    case f: False
    show ?thesis
      using new_kernel_table_some [OF assms(1) new f assms(2) False] new_kernel_table_words [OF assms(1) new f assms(2)]
      by auto
  qed
qed


lemma new_kernel_table_zero:
  assumes "kernel_inv s" and "new_kernel_table i s = (0, s1)"
  shows "free_set (pm s) = {}"
proof -
  have inv: "pmm_inv (pm s)" using assms(1) by (simp add: kernel_inv_def)
  obtain p where "pmm_allocate_page (pm s) = (0, p)"
    using assms(2) by (auto simp: new_kernel_table_def allocate_frame_def Let_def split: prod.splits if_splits)
  from fr.alloc_zero [OF inv this] show ?thesis by (auto simp: free_set_def)
qed

definition map_guard :: "machine \<Rightarrow> space_ref \<Rightarrow> nat \<Rightarrow> nat \<Rightarrow> u32 \<Rightarrow> bool" where
  "map_guard s r v f flags \<longleftrightarrow>
     r = Space_Kernel \<and> memory_kernel_mapping_range v PAGE_SIZE \<and> v mod PAGE_SIZE = 0 \<and>
     flags AND NOT PAGING_WRITABLE = 0 \<and> pmm_is_allocated (pm s) f"

definition map_result :: "machine \<Rightarrow> space_ref \<Rightarrow> nat \<Rightarrow> nat \<Rightarrow> u32 \<Rightarrow> bool \<times> machine \<Rightarrow> bool" where
  "map_result s q v f flags r \<longleftrightarrow>
     (let s' = snd r in
      kernel_inv s' \<and> halted s' = halted s \<and> spaces s' = spaces s \<and> taken s \<subseteq> taken s' \<and>
      fst r = (map_guard s q v f flags \<and> kernel_walk s (dir_index v) (page_index v) = None \<and>
               (present (kernel_entry s (dir_index v)) \<or> free_set (pm s) \<noteq> {})) \<and>
      (if fst r then mapped_only s s' v (Some (page_value f flags)) \<and> f \<in> taken s else same_walks s s'))"

lemma map_table_word:
  assumes "kernel_inv s1" and "i = dir_index v" and "i < KERNEL_ENTRIES" and "page_index v < ENTRIES"
    and "present (kernel_entry s1 i)" and "\<not> present (word_at_index s1 (frame_of (kernel_entry s1 i)) (page_index v))"
    and "s' = set_word (entry_at (frame_of (kernel_entry s1 i)) (page_index v)) (page_value f flags) s1"
  shows "kernel_inv s' \<and> mapped_only s1 s' v (Some (page_value f flags)) \<and> kernel_walk s1 i (page_index v) = None"
  using set_table_word [OF assms(1,3,4,5,7)] assms(2,5,6) present_entry [of "word_of_nat f" flags]
  by (auto simp: mapped_only_def kernel_walk_def page_value_def)

lemma map_refused:
  assumes "kernel_inv s" and "i < KERNEL_ENTRIES" and "j < ENTRIES"
    and s1: "s1 = (if \<not> present (directory_entry s (kernel_space s) i) then snd (new_kernel_table i s) else s)"
    and "\<not> (present (kernel_entry s1 i) \<and> \<not> present (word_at_index s1 (frame_of (kernel_entry s1 i)) j))"
  shows "kernel_walk s i j \<noteq> None \<or> \<not> present (kernel_entry s i) \<and> free_set (pm s) = {}"
proof (cases "present (kernel_entry s1 i)")
  case True
  then have "kernel_walk s1 i j \<noteq> None" using assms(5) by (simp add: kernel_walk_def)
  then show ?thesis using ensure_kernel_table [OF assms(1,2) s1] assms(2,3) by (simp add: same_walks_def)
next
  case False
  then have np: "\<not> present (kernel_entry s i)"
    using s1 by (auto simp: entries_words kernel_entry_def)
  then obtain f where new: "new_kernel_table i s = (f, s1)"
    using s1 by (metis entries_words(1) kernel_entry_def prod.collapse)
  have "f = 0" using new_kernel_table_some(3) [OF assms(1) new _ assms(2) np] False table_value(2) by metis
  then show ?thesis using new_kernel_table_zero [OF assms(1)] new np by simp
qed

lemma map_allowed:
  assumes "kernel_inv s" and "i < KERNEL_ENTRIES"
    and s1: "s1 = (if \<not> present (directory_entry s (kernel_space s) i) then snd (new_kernel_table i s) else s)"
    and "present (kernel_entry s1 i)"
  shows "present (kernel_entry s i) \<or> free_set (pm s) \<noteq> {}"
proof (rule ccontr)
  assume "\<not> ?thesis"
  then have np: "\<not> present (kernel_entry s i)" and "free_set (pm s) = {}" by auto
  then have "pmm_allocate_page (pm s) = (0, pm s)"
    using pmm_allocate_page_cases [of "pm s"] assms(1) by (auto simp: kernel_inv_def)
  then have "snd (new_kernel_table i s) = s" by (simp add: new_kernel_table_def allocate_frame_def)
  with s1 assms(4) np show False by (simp split: if_splits)
qed

lemma paging_map_page_result:
  assumes "kernel_inv s"
  shows "map_result s r v f flags (paging_map_page r v f flags s)"
proof (cases "map_guard s r v f flags")
  case False
  then have "paging_map_page r v f flags s = (False, s)" by (auto simp: paging_map_page_def map_guard_def)
  then show ?thesis using assms False by (simp add: map_result_def same_walks_def)
next
  case guard: True
  have win: "dir_index v < KERNEL_ENTRIES" "page_index v < ENTRIES"
    using guard window_index by (auto simp: map_guard_def)
  define i where "i = dir_index v"
  define s1 where "s1 = (if \<not> present (directory_entry s (kernel_space s) i) then snd (new_kernel_table i s) else s)"
  have i: "i < KERNEL_ENTRIES" using win(1) by (simp add: i_def)
  note s1 = ensure_kernel_table [OF assms i s1_def]
  have en: "enabled s" and taken: "f \<in> taken s"
    using assms guard pmm_is_allocated_iff by (auto simp: map_guard_def kernel_inv_def taken_def frames_iff)
  let ?a = "entry_at (frame_of (kernel_entry s1 i)) (page_index v)"
  let ?w = "word_at_index s1 (frame_of (kernel_entry s1 i)) (page_index v)"
  have eq: "paging_map_page r v f flags s =
      (if present (kernel_entry s1 i) \<and> \<not> present ?w then (True, set_word ?a (page_value f flags) s1) else (False, s1))"
    unfolding paging_map_page_def Let_def i_def [symmetric] s1_def [symmetric]
    using guard en by (simp add: entries_words kernel_entry_def page_value_def map_guard_def word_at_index_def)
  show ?thesis
  proof (cases "present (kernel_entry s1 i) \<and> \<not> present ?w")
    case False
    with map_refused [OF assms i win(2) s1_def] s1 show ?thesis
      unfolding eq by (auto simp: map_result_def i_def)
  next
    case True
    note m = map_table_word [OF conjunct1 [OF s1] i_def i win(2) conjunct1 [OF True] conjunct2 [OF True] refl, of f flags]
    have "mapped_only s (set_word ?a (page_value f flags) s1) v (Some (page_value f flags))"
      "kernel_walk s i (page_index v) = None"
      using m s1 i win(2) by (auto simp: mapped_only_def same_walks_def)
    with map_allowed [OF assms i s1_def] show ?thesis
      using True m s1 guard taken unfolding eq by (auto simp: map_result_def i_def taken_def)
  qed
qed

definition unmap_result :: "machine \<Rightarrow> space_ref \<Rightarrow> nat \<Rightarrow> nat option \<times> machine \<Rightarrow> bool" where
  "unmap_result s q v r \<longleftrightarrow>
     (let s' = snd r in
      (fst r \<noteq> None \<longleftrightarrow> q = Space_Kernel \<and> memory_kernel_mapping_range v PAGE_SIZE \<and> v mod PAGE_SIZE = 0 \<and>
                       kernel_walk s (dir_index v) (page_index v) \<noteq> None) \<and>
      kernel_inv s' \<and> halted s' = halted s \<and> spaces s' = spaces s \<and> taken s' \<subseteq> taken s \<and>
      (case fst r of
         Some f \<Rightarrow> mapped_only s s' v None \<and> memory_kernel_mapping_range v PAGE_SIZE \<and>
                   map_option frame_of (kernel_walk s (dir_index v) (page_index v)) = Some f
       | None \<Rightarrow> s' = s))"

lemma paging_unmap_page_result:
  assumes "kernel_inv s"
  shows "unmap_result s r v (paging_unmap_page r v s)"
proof (cases "r = Space_Kernel \<and> memory_kernel_mapping_range v PAGE_SIZE \<and> v mod PAGE_SIZE = 0 \<and>
              kernel_walk s (dir_index v) (page_index v) \<noteq> None")
  case False
  then have "paging_unmap_page r v s = (None, s)"
    by (auto simp: paging_unmap_page_def kernel_walk_def entries_words kernel_entry_def word_at_index_def Let_def
        split: if_splits)
  then show ?thesis using assms False by (auto simp: unmap_result_def)
next
  case guard: True
  note win = window_index [OF guard [THEN conjunct2, THEN conjunct1]]
  define i where "i = dir_index v"
  define t where "t = frame_of (kernel_entry s i)"
  define s1 where "s1 = set_word (entry_at t (page_index v)) 0 s"
  have i: "i < KERNEL_ENTRIES" using win(1) by (simp add: i_def)
  have p: "present (kernel_entry s i)" "present (word_at_index s t (page_index v))"
    using guard by (auto simp: kernel_walk_def i_def t_def Let_def split: if_splits)
  have eq: "paging_unmap_page r v s =
      (Some (frame_of (word_at_index s t (page_index v))), reclaim_empty_kernel_table i s1)"
    using guard p assms unfolding paging_unmap_page_def i_def [symmetric] s1_def
    by (simp add: Let_def entries_words kernel_entry_def t_def word_at_index_def kernel_inv_def)
  note w = set_table_word [OF assms i win(2) p(1) s1_def [unfolded t_def]]
  note rc = reclaim_kernel_table [OF w(1) i]
  have "mapped_only s (reclaim_empty_kernel_table i s1) v None"
    using rc w(3) by (simp add: mapped_only_def same_walks_def i_def)
  moreover have "map_option frame_of (kernel_walk s i (page_index v)) = Some (frame_of (word_at_index s t (page_index v)))"
    using p by (simp add: kernel_walk_def t_def)
  ultimately show ?thesis
    unfolding eq using rc guard by (simp add: unmap_result_def i_def s1_def taken_def)
qed

section \<open>Translations\<close>

lemma page_address:
  assumes "a < 2 ^ 32" and "b < 2 ^ 32"
  shows "dir_index a = dir_index b \<and> page_index a = page_index b \<longleftrightarrow> a div PAGE_SIZE = b div PAGE_SIZE"
proof -
  have "dir_index x = x div PAGE_SIZE div 1024" "page_index x = x div PAGE_SIZE mod 1024" for x
    by (simp_all add: dir_index_def page_index_def layout_defs div_mult2_eq [symmetric])
  then show ?thesis by (metis div_mult_mod_eq)
qed

lemma frame_or_offset:
  assumes "f mod PAGE_SIZE = 0" and "x < PAGE_SIZE"
  shows "f OR x = f + x"
proof -
  obtain k where "f = push_bit 12 k" using page_multiple [OF assms(1)] by (auto simp: push_bit_eq_mult)
  moreover have "take_bit 12 x = x" using assms(2) by (simp add: take_bit_nat_eq_self_iff layout_defs)
  ultimately have "f AND x = push_bit 12 k AND take_bit 12 x" by simp
  also have "\<dots> = 0" by (auto simp: bit_eq_iff bit_simps)
  finally show ?thesis by (simp add: disjunctive_add_eq_or)
qed

lemma index_bounds: "a < RUM_USER_BASE \<Longrightarrow> dir_index a < KERNEL_ENTRIES" "page_index a < ENTRIES"
  by (auto simp: dir_index_def page_index_def paging_consts)

lemma translate_frame:
  assumes "kernel_inv s" and "kernel_inv s'" and "spaces s' = spaces s" and "known_space s q" and "a < RUM_USER_BASE"
    and "kernel_walk s' (dir_index a) (page_index a) = kernel_walk s (dir_index a) (page_index a)"
  shows "paging_translate s' q a = paging_translate s q a"
proof -
  have "known_space s' q" using assms(2,3,4) by (auto simp: known_space_def kernel_inv_def split: space_ref.splits)
  then show ?thesis using translate_kernel_half assms by metis
qed

lemma mapped_only_walk:
  assumes "mapped_only s s' v w" and "a < RUM_USER_BASE" and "v < RUM_USER_BASE"
  shows "kernel_walk s' (dir_index a) (page_index a) =
           (if a div PAGE_SIZE = v div PAGE_SIZE then w else kernel_walk s (dir_index a) (page_index a))"
proof -
  have "a < 2 ^ 32" "v < 2 ^ 32" using assms(2,3) by (auto simp: layout_defs)
  from page_address [OF this] assms(1) index_bounds [of a] assms(2) show ?thesis
    by (simp add: mapped_only_def)
qed

lemma map_page_translations:
  assumes "kernel_inv s" and "paging_map_page r v f flags s = (ok, s')"
  shows "kernel_inv s' \<and> halted s' = halted s \<and>
         ok = (map_guard s r v f flags \<and> paging_translate s Space_Kernel v = None \<and>
               (present (kernel_entry s (dir_index v)) \<or> free_set (pm s) \<noteq> {})) \<and>
         (\<forall>q a. known_space s q \<longrightarrow> a < RUM_USER_BASE \<longrightarrow>
            paging_translate s' q a =
              (if ok \<and> a div PAGE_SIZE = v div PAGE_SIZE then Some (f + a mod PAGE_SIZE) else paging_translate s q a))"
proof -
  have res: "map_result s r v f flags (ok, s')" using paging_map_page_result [OF assms(1)] assms(2) by metis
  then have inv: "kernel_inv s'" "halted s' = halted s" "spaces s' = spaces s"
    by (auto simp: map_result_def)
  have pinv: "pmm_inv (pm s)" using assms(1) by (simp add: kernel_inv_def)
  have known: "known_space s Space_Kernel" using assms(1) by (simp add: known_space_def kernel_inv_def)
  have known_same: "known_space s' q" if "known_space s q" for q
    using that inv by (auto simp: known_space_def kernel_inv_def split: space_ref.splits)
  have lt: "v < RUM_USER_BASE" if "map_guard s r v f flags"
    using that window_index(3) by (auto simp: map_guard_def)
  have ok: "ok = (map_guard s r v f flags \<and> paging_translate s Space_Kernel v = None \<and>
               (present (kernel_entry s (dir_index v)) \<or> free_set (pm s) \<noteq> {}))"
    using res lt translate_kernel_half [OF assms(1) known] by (auto simp: map_result_def)
  have lt_ok: "ok \<Longrightarrow> v < RUM_USER_BASE" using lt ok by blast
  have "paging_translate s' q a =
      (if ok \<and> a div PAGE_SIZE = v div PAGE_SIZE then Some (f + a mod PAGE_SIZE) else paging_translate s q a)"
    if q: "known_space s q" and a: "a < RUM_USER_BASE" for q a
  proof (cases "ok \<and> a div PAGE_SIZE = v div PAGE_SIZE")
    case True
    have fl: "flags AND NOT PAGING_WRITABLE = 0" "f \<in> taken s" "mapped_only s s' v (Some (page_value f flags))"
      using res True by (auto simp: map_result_def map_guard_def)
    then have f: "f mod PAGE_SIZE = 0" "f < 2 ^ 32" using taken_frame [OF pinv] by blast+
    have "kernel_walk s' (dir_index a) (page_index a) = Some (page_value f flags)"
      using mapped_only_walk [OF fl(3) a] True lt ok by simp
    then show ?thesis
      using True translate_kernel_half [OF inv(1) known_same a] q page_value(1) [OF f fl(1)]
        frame_or_offset [OF f(1), of "a mod PAGE_SIZE"] by simp
  next
    case False
    have "ok \<Longrightarrow> mapped_only s s' v (Some (page_value f flags))" "\<not> ok \<Longrightarrow> same_walks s s'"
      using res by (auto simp: map_result_def)
    then have "kernel_walk s' (dir_index a) (page_index a) = kernel_walk s (dir_index a) (page_index a)"
      using mapped_only_walk [OF _ a] False lt_ok index_bounds [of a] a by (cases ok) (simp_all add: same_walks_def)
    from translate_frame [OF assms(1) inv(1,3) q a this] False show ?thesis by auto
  qed
  then show ?thesis using inv ok by blast
qed

lemma unmap_page_translations:
  assumes "kernel_inv s" and "paging_unmap_page r v s = (fo, s')"
  shows "kernel_inv s' \<and> halted s' = halted s \<and> taken s' \<subseteq> taken s \<and>
         (fo = None \<longrightarrow> s' = s) \<and>
         (fo \<noteq> None) = (r = Space_Kernel \<and> memory_kernel_mapping_range v PAGE_SIZE \<and> v mod PAGE_SIZE = 0 \<and>
                       paging_translate s Space_Kernel v \<noteq> None) \<and>
         (\<forall>f. fo = Some f \<longrightarrow> paging_translate s Space_Kernel v = Some (f OR v mod PAGE_SIZE)) \<and>
         (\<forall>q a. known_space s q \<longrightarrow> a < RUM_USER_BASE \<longrightarrow>
            paging_translate s' q a =
              (if fo \<noteq> None \<and> a div PAGE_SIZE = v div PAGE_SIZE then None else paging_translate s q a))"
proof -
  have res: "unmap_result s r v (fo, s')" using paging_unmap_page_result [OF assms(1)] assms(2) by metis
  then have inv: "kernel_inv s'" "halted s' = halted s" "spaces s' = spaces s" "taken s' \<subseteq> taken s" "fo = None \<longrightarrow> s' = s"
    by (auto simp: unmap_result_def)
  have known: "known_space s Space_Kernel" using assms(1) by (simp add: known_space_def kernel_inv_def)
  have known_same: "known_space s' q" if "known_space s q" for q
    using that inv by (auto simp: known_space_def kernel_inv_def split: space_ref.splits)
  have lt: "v < RUM_USER_BASE" if "fo \<noteq> None"
    using res that window_index(3) by (auto simp: unmap_result_def)
  have "paging_translate s Space_Kernel v = Some (f OR v mod PAGE_SIZE)" if "fo = Some f" for f
    using res that translate_kernel_half [OF assms(1) known lt] by (auto simp: unmap_result_def)
  moreover have "paging_translate s' q a =
      (if fo \<noteq> None \<and> a div PAGE_SIZE = v div PAGE_SIZE then None else paging_translate s q a)"
    if q: "known_space s q" and a: "a < RUM_USER_BASE" for q a
  proof (cases fo)
    case None
    then show ?thesis using inv(5) by simp
  next
    case (Some f)
    then have "mapped_only s s' v None" using res by (simp add: unmap_result_def)
    from mapped_only_walk [OF this a] lt Some
    have "kernel_walk s' (dir_index a) (page_index a) =
        (if a div PAGE_SIZE = v div PAGE_SIZE then None else kernel_walk s (dir_index a) (page_index a))" by simp
    then show ?thesis
      using translate_kernel_half [OF inv(1) known_same a] translate_kernel_half [OF assms(1) q a] q Some by simp
  qed
  moreover have "(fo \<noteq> None) = (r = Space_Kernel \<and> memory_kernel_mapping_range v PAGE_SIZE \<and> v mod PAGE_SIZE = 0 \<and>
                       paging_translate s Space_Kernel v \<noteq> None)"
    using res translate_kernel_half [OF assms(1) known window_index(3)] by (auto simp: unmap_result_def)
  ultimately show ?thesis using inv by blast
qed

section \<open>Frames that are not page tables\<close>

text \<open>Mapping and unmapping may take and return page tables; every other taken frame is left alone.\<close>

definition data_frames :: "machine \<Rightarrow> nat set" where
  "data_frames s = taken s - kernel_tables s"

lemma kernel_tables_same:
  "\<forall>a<KERNEL_ENTRIES. kernel_entry s' a = kernel_entry s a \<Longrightarrow> kernel_tables s' = kernel_tables s"
  unfolding kernel_tables_def by (metis (no_types, lifting))

lemma ensure_table_data_frames:
  assumes "kernel_inv s" and "i < KERNEL_ENTRIES"
    and s1: "s1 = (if \<not> present (directory_entry s (kernel_space s) i) then snd (new_kernel_table i s) else s)"
  shows "data_frames s1 = data_frames s"
proof (cases "present (kernel_entry s i)")
  case True
  then show ?thesis using s1 by (simp add: entries_words kernel_entry_def)
next
  case False
  then obtain f where new: "new_kernel_table i s = (f, s1)"
    using s1 by (metis entries_words(1) kernel_entry_def prod.collapse)
  show ?thesis
  proof (cases "f = 0")
    case True
    have inv: "pmm_inv (pm s)" using assms(1) by (simp add: kernel_inv_def)
    have al: "allocate_frame s = (0, s1)"
      using new True by (auto simp: new_kernel_table_def Let_def split: prod.splits if_splits)
    from allocate_frame_law(1) [OF inv al] obtain p where "s1 = s\<lparr>pm := p\<rparr>" by blast
    then have "kernel_tables s1 = kernel_tables s" by (simp add: kernel_tables_def)
    then show ?thesis using allocate_frame_law(3) [OF inv al] by (simp add: data_frames_def)
  next
    case f: False
    note w = new_kernel_table_words [OF assms(1) new f assms(2)]
    have ke: "kernel_entry s1 j = (if j = i then table_value f else kernel_entry s j)" if "j < KERNEL_ENTRIES" for j
    proof -
      have d: "directory_physical (kernel_space s) \<in> set (dirs s)" by (simp add: dirs_def)
      have "directory_physical (kernel_space s) \<in> taken s" using assms(1) d by (auto simp: kernel_inv_def)
      with w(2) have "directory_physical (kernel_space s) \<noteq> f" by auto
      then show ?thesis
        using w(10) [OF kernel_frames(1) [OF assms(1) d] KERNEL_less [OF that]] d w(6) by (simp add: kernel_entry_def)
    qed
    have "frame_of (table_value f) = f" by (rule table_value(1) [OF w(3,4)])
    then have "kernel_tables s1 = insert f (kernel_tables s)"
      using ke False assms(2) table_value(2) [of f] unfolding kernel_tables_def
      by (auto simp: Collect_disj_eq [symmetric] image_iff) (metis (no_types, lifting))+
    then show ?thesis using w(1,2) by (auto simp: data_frames_def)
  qed
qed

lemma map_page_data_frames:
  assumes "kernel_inv s" and "paging_map_page r v f flags s = (ok, s')"
  shows "data_frames s' = data_frames s"
proof (cases "map_guard s r v f flags")
  case False
  then have "paging_map_page r v f flags s = (False, s)" by (auto simp: paging_map_page_def map_guard_def)
  then show ?thesis using assms(2) by simp
next
  case guard: True
  have win: "dir_index v < KERNEL_ENTRIES" "page_index v < ENTRIES"
    using guard window_index by (auto simp: map_guard_def)
  define i where "i = dir_index v"
  define s1 where "s1 = (if \<not> present (directory_entry s (kernel_space s) i) then snd (new_kernel_table i s) else s)"
  have i: "i < KERNEL_ENTRIES" using win(1) by (simp add: i_def)
  have inv1: "kernel_inv s1" using ensure_kernel_table [OF assms(1) i s1_def] by simp
  let ?a = "entry_at (frame_of (kernel_entry s1 i)) (page_index v)"
  have en: "enabled s" using assms(1) by (simp add: kernel_inv_def)
  have "s' = s1 \<or> present (kernel_entry s1 i) \<and> s' = set_word ?a (page_value f flags) s1"
    using assms(2) unfolding paging_map_page_def Let_def i_def [symmetric] s1_def [symmetric]
    using guard en by (auto simp: entries_words kernel_entry_def page_value_def map_guard_def word_at_index_def split: if_splits)
  then have "data_frames s' = data_frames s1"
  proof
    assume s': "present (kernel_entry s1 i) \<and> s' = set_word ?a (page_value f flags) s1"
    have "kernel_tables s' = kernel_tables s1"
      using set_table_word(2) [OF inv1 i win(2) conjunct1 [OF s'] conjunct2 [OF s']] by (intro kernel_tables_same) blast
    then show ?thesis using s' by (simp add: data_frames_def taken_def)
  qed simp
  then show ?thesis using ensure_table_data_frames [OF assms(1) i s1_def] by simp
qed

lemma reclaim_data_frames:
  assumes "kernel_inv s" and "i < KERNEL_ENTRIES"
  shows "data_frames (reclaim_empty_kernel_table i s) = data_frames s"
proof (cases "present (kernel_entry s i) \<and> table_empty s (frame_of (kernel_entry s i))")
  case False
  then have "reclaim_empty_kernel_table i s = s"
    by (auto simp: reclaim_empty_kernel_table_def Let_def entries_words kernel_entry_def)
  then show ?thesis by simp
next
  case True
  define s' where "s' = reclaim_empty_kernel_table i s"
  note w = reclaim_kernel_table_words [OF assms(1,2) conjunct1 [OF True] conjunct2 [OF True] s'_def]
  have d: "directory_physical (kernel_space s) \<in> set (dirs s)" by (simp add: dirs_def)
  have ke: "kernel_entry s' j = (if j = i then 0 else kernel_entry s j)" if "j < KERNEL_ENTRIES" for j
    using w(7) [OF kernel_frames(1) [OF assms(1) d] KERNEL_less [OF that]] d w(3) by (simp add: kernel_entry_def)
  have "kernel_tables s' = kernel_tables s - {frame_of (kernel_entry s i)}"
    using ke kernel_inj [OF assms(1) _ assms(2)] True unfolding kernel_tables_def by (auto split: if_splits) (metis (full_types))
  moreover have "frame_of (kernel_entry s i) \<in> kernel_tables s" using True assms(2) by (auto simp: kernel_tables_def)
  ultimately show ?thesis using w(1) by (auto simp: data_frames_def s'_def [symmetric])
qed

lemma unmap_page_data_frames:
  assumes "kernel_inv s" and "paging_unmap_page r v s = (fo, s')"
  shows "data_frames s' = data_frames s"
proof (cases "s' = s")
  case False
  define i where "i = dir_index v"
  define s1 where "s1 = set_word (entry_at (frame_of (kernel_entry s i)) (page_index v)) 0 s"
  have p: "present (kernel_entry s i)" "memory_kernel_mapping_range v PAGE_SIZE" "s' = reclaim_empty_kernel_table i s1"
    using assms(2) False unfolding paging_unmap_page_def i_def s1_def
    by (auto simp: Let_def entries_words kernel_entry_def split: if_splits)
  note win = window_index [OF p(2)]
  have i: "i < KERNEL_ENTRIES" using win(1) by (simp add: i_def)
  note w = set_table_word [OF assms(1) i win(2) p(1) s1_def]
  have "kernel_tables s1 = kernel_tables s" using w(2) by (intro kernel_tables_same) blast
  moreover have "taken s1 = taken s" by (simp add: s1_def taken_def)
  ultimately show ?thesis using reclaim_data_frames [OF w(1) i] p(3) by (simp add: data_frames_def)
qed simp

end
