(* ===== verification/Rum_Paging_Props.thy ===== *)
theory Rum_Paging_Props
  imports Rum_Paging_Kernel Rum_Pmm_Props
begin

text \<open>
  Properties of paging: a kernel mapping changes the translation of exactly its page in every
  address space, unmapping undoes it, and copies from user memory read exactly the bytes the
  space maps for the process, never anything else.
\<close>

section \<open>Kernel mappings\<close>


text \<open>A machine whose kernel directory is empty: pages 256 and 257 are taken, 258 is free.\<close>

definition machine_sample :: machine where
  "machine_sample =
     \<lparr> phys = (\<lambda>_. 0), pm = mark [256, 257] True 256 pmm_sample,
       kernel_space = \<lparr> directory_physical = 256 * PAGE_SIZE, user_pages = 0, user_tables = 0,
                        private_tables = replicate PRIVATE_TABLE_WORDS 0 \<rparr>,
       spaces = [], active_space = Space_Kernel, enabled = True, private_spaces = 0,
       cr0 = 0x80010000, cr3 = 256 * PAGE_SIZE, cr4 = 0, halted = False \<rparr>"

lemma machine_sample_zero: "word_at_index machine_sample b i = 0"
proof -
  have "le_bytes (map (\<lambda>_. 0) xs) = 0" for xs :: "nat list" by (rule le_bytes_zero) auto
  then show ?thesis by (simp add: word_at_index_def machine_sample_def rd32_def rd_def)
qed

lemma machine_sample_pm:
  "pmm_inv (pm machine_sample)" "page_set (allocated (pm machine_sample)) = {256, 257}"
  "free_set (pm machine_sample) = {258}"
  using mark_sets [OF pmm_sample_inv, of "[256, 257]" True 256] pages_sample
  by (auto simp: machine_sample_def pmm_sample_sets)

lemma machine_sample_inv: "kernel_inv machine_sample"
proof -
  have "kernel_tables machine_sample = {}" by (simp add: kernel_tables_def kernel_entry_def machine_sample_zero)
  moreover have "dirs machine_sample = [256 * PAGE_SIZE]" by (simp add: dirs_def machine_sample_def)
  moreover have "enabled machine_sample" by (simp add: machine_sample_def)
  ultimately show ?thesis
    using machine_sample_pm by (simp add: kernel_inv_def kernel_entry_def machine_sample_zero taken_def)
qed




section \<open>User memory\<close>

text \<open>A byte of a space is accessible when its page has a present user entry, writable if asked.\<close>

definition user_ok :: "machine \<Rightarrow> paging_space \<Rightarrow> bool \<Rightarrow> nat \<Rightarrow> bool" where
  "user_ok s space writable x \<longleftrightarrow>
     (case user_entry s space x of
        None \<Rightarrow> False
      | Some address \<Rightarrow> \<not> writable \<or> rd32 (phys s) address AND PAGING_WRITABLE \<noteq> 0)"

lemma user_entry_page: "x div PAGE_SIZE = y div PAGE_SIZE \<Longrightarrow> user_entry s space x = user_entry s space y"
proof -
  assume "x div PAGE_SIZE = y div PAGE_SIZE"
  moreover have "dir_index z = z div PAGE_SIZE div 1024" "page_index z = z div PAGE_SIZE mod 1024" for z
    by (simp_all add: dir_index_def page_index_def layout_defs div_mult2_eq [symmetric])
  ultimately have "dir_index x = dir_index y" "page_index x = page_index y" by metis+
  then show ?thesis by (simp add: user_entry_def Let_def)
qed

lemma user_ok_page: "x div PAGE_SIZE = y div PAGE_SIZE \<Longrightarrow> user_ok s space w x = user_ok s space w y"
  using user_entry_page [of x y s space] by (simp add: user_ok_def)

lemma page_base_div: "page_base a = a div PAGE_SIZE * PAGE_SIZE"
  by (simp add: page_base_def minus_mod_eq_div_mult)

lemma user_bytes_loop_pages:
  "p \<le> n \<Longrightarrow> user_bytes_loop s space w (n * PAGE_SIZE) (p * PAGE_SIZE) \<longleftrightarrow>
     (\<forall>k\<in>{p..n}. user_ok s space w (k * PAGE_SIZE))"
proof (induction "n - p" arbitrary: p)
  case 0
  then have "p = n" by simp
  then show ?case
    by (auto simp: user_bytes_loop.simps [of s space w "n * PAGE_SIZE"] user_ok_def split: option.splits)
next
  case (Suc d)
  have next_page: "p * PAGE_SIZE + PAGE_SIZE = Suc p * PAGE_SIZE" by simp
  have lt: "\<not> n * PAGE_SIZE \<le> p * PAGE_SIZE" using Suc.hyps(2) by simp
  have "{p..n} = insert p {Suc p..n}" using Suc.prems by auto
  moreover have "user_bytes_loop s space w (n * PAGE_SIZE) (Suc p * PAGE_SIZE) \<longleftrightarrow>
      (\<forall>k\<in>{Suc p..n}. user_ok s space w (k * PAGE_SIZE))"
    using Suc.hyps by (intro Suc.hyps(1)) auto
  moreover have "user_bytes_loop s space w (n * PAGE_SIZE) (p * PAGE_SIZE) \<longleftrightarrow>
      user_ok s space w (p * PAGE_SIZE) \<and> user_bytes_loop s space w (n * PAGE_SIZE) (Suc p * PAGE_SIZE)"
    using lt unfolding next_page [symmetric]
    by (auto simp: user_bytes_loop.simps [of s space w _ "p * PAGE_SIZE"] user_ok_def split: option.splits)
  ultimately show ?case by auto
qed

lemma user_bytes_iff:
  "user_bytes s r a n w \<longleftrightarrow>
     known_space s r \<and> r \<noteq> Space_Kernel \<and>
     (n = 0 \<or> RUM_USER_BASE \<le> a \<and> a + n \<le> RUM_USER_END \<and> (\<forall>x\<in>{a..<a + n}. user_ok s (space_of s r) w x))"
proof (cases "known_space s r \<and> r \<noteq> Space_Kernel \<and> n \<noteq> 0 \<and> RUM_USER_BASE \<le> a \<and> a + n \<le> RUM_USER_END")
  case False
  then show ?thesis by (auto simp: user_bytes_def)
next
  case True
  let ?p = "a div PAGE_SIZE" and ?q = "(a + n - 1) div PAGE_SIZE"
  have pq: "?p \<le> ?q" using True by (intro div_le_mono) linarith
  have eq: "user_bytes s r a n w \<longleftrightarrow> (\<forall>k\<in>{?p..?q}. user_ok s (space_of s r) w (k * PAGE_SIZE))"
    using True user_bytes_loop_pages [OF pq] by (auto simp: user_bytes_def page_base_div)
  also have "\<dots> \<longleftrightarrow> (\<forall>x\<in>{a..<a + n}. user_ok s (space_of s r) w x)"
  proof (intro iffI ballI)
    fix x assume *: "\<forall>k\<in>{?p..?q}. user_ok s (space_of s r) w (k * PAGE_SIZE)" and x: "x \<in> {a..<a + n}"
    have "x div PAGE_SIZE \<in> {?p..?q}" using x by (auto intro: div_le_mono)
    with * user_ok_page [of x "x div PAGE_SIZE * PAGE_SIZE"] show "user_ok s (space_of s r) w x" by simp
  next
    fix k assume *: "\<forall>x\<in>{a..<a + n}. user_ok s (space_of s r) w x" and k: "k \<in> {?p..?q}"
    define x where "x = max a (k * PAGE_SIZE)"
    have "k * PAGE_SIZE \<le> a + n - 1"
      using k by (metis atLeastAtMost_iff div_times_less_eq_dividend le_trans mult_le_mono1)
    then have "x \<in> {a..<a + n}" using True by (auto simp: x_def)
    moreover have "x div PAGE_SIZE = k"
    proof (cases "k = ?p")
      case False
      then have "Suc ?p * PAGE_SIZE \<le> k * PAGE_SIZE" using k by (intro mult_le_mono1) auto
      moreover have "a < Suc ?p * PAGE_SIZE" using dividend_less_div_times [of PAGE_SIZE a] by simp
      ultimately show ?thesis by (simp add: x_def max_def)
    qed (auto simp: x_def max_def)
    ultimately show "user_ok s (space_of s r) w (k * PAGE_SIZE)"
      using bspec [OF *, of x] user_ok_page [of x "k * PAGE_SIZE" s "space_of s r" w] by simp
  qed
  finally show ?thesis using True by simp
qed

lemma user_physical_step:
  assumes "user_physical s space a = Some p" and "a mod PAGE_SIZE + i < PAGE_SIZE"
  shows "user_physical s space (a + i) = Some (p + i)"
proof -
  have "a + i = PAGE_SIZE * (a div PAGE_SIZE) + (a mod PAGE_SIZE + i)" by simp
  then have "(a + i) div PAGE_SIZE = a div PAGE_SIZE" "(a + i) mod PAGE_SIZE = a mod PAGE_SIZE + i"
    using assms(2) by (metis div_less div_mult_self4 PAGE_SIZE_pos(2) add_0_right, metis mod_less mod_mult_self4)
  then show ?thesis
    using assms(1) user_entry_page [of "a + i" a s space] by (auto simp: user_physical_def split: option.splits)
qed

lemma copy_user_in_bytes:
  "\<forall>x\<in>{a..<a + n}. user_physical s space x \<noteq> None \<Longrightarrow>
   copy_user_in s space a n = Some (map (\<lambda>x. phys s (the (user_physical s space x))) [a..<a + n])"
proof (induction n arbitrary: a rule: less_induct)
  case (less n)
  show ?case
  proof (cases "n = 0")
    case True
    then show ?thesis by (simp add: copy_user_in.simps)
  next
    case False
    define chunk where "chunk = min (PAGE_SIZE - a mod PAGE_SIZE) n"
    have pos: "0 < chunk" "chunk \<le> n" using False by (simp_all add: chunk_def)
    have "a \<in> {a..<a + n}" using False by simp
    then obtain p where p: "user_physical s space a = Some p" using less.prems by fastforce
    have step: "user_physical s space (a + i) = Some (p + i)" if "i < chunk" for i
      using that by (intro user_physical_step [OF p]) (auto simp: chunk_def)
    have "map (phys s) [p..<p + chunk] = map (\<lambda>x. phys s (the (user_physical s space x))) [a..<a + chunk]"
      by (rule nth_equalityI) (auto simp: step)
    moreover have "copy_user_in s space (a + chunk) (n - chunk) =
        Some (map (\<lambda>x. phys s (the (user_physical s space x))) [a + chunk..<a + chunk + (n - chunk)])"
      using less.prems pos by (intro less.IH) auto
    moreover have "[a..<a + n] = [a..<a + chunk] @ [a + chunk..<a + n]"
      using pos upt_add_eq_append [of a "a + chunk" "n - chunk"] by simp
    ultimately show ?thesis
      using False p pos by (simp add: copy_user_in.simps [of s space a n] chunk_def [symmetric] Let_def)
  qed
qed

lemma user_ok_physical: "user_ok s space w x \<Longrightarrow> user_physical s space x \<noteq> None"
  by (auto simp: user_ok_def user_physical_def split: option.splits)

text \<open>The bytes of user memory from \<open>a\<close>, as the space translates them.\<close>

definition user_view :: "machine \<Rightarrow> paging_space \<Rightarrow> nat \<Rightarrow> nat \<Rightarrow> u8 list" where
  "user_view s space a n = map (\<lambda>x. phys s (the (user_physical s space x))) [a..<a + n]"

lemma copy_from_user_view:
  "paging_copy_from_user s r a n =
     (if known_space s r \<and> r \<noteq> Space_Kernel \<and>
         (n = 0 \<or> RUM_USER_BASE \<le> a \<and> a + n \<le> RUM_USER_END \<and> (\<forall>x\<in>{a..<a + n}. user_ok s (space_of s r) False x))
      then Some (user_view s (space_of s r) a n) else None)"
proof -
  have "copy_user_in s (space_of s r) a n = Some (user_view s (space_of s r) a n)"
    if "n = 0 \<or> (\<forall>x\<in>{a..<a + n}. user_ok s (space_of s r) False x)"
    unfolding user_view_def by (rule copy_user_in_bytes) (use that user_ok_physical in auto)
  then show ?thesis
    using user_bytes_iff [of s r a n False] by (auto simp: paging_copy_from_user_def)
qed

lemma string_scan_result:
  "string_scan s space cap src b = Some n \<Longrightarrow> b \<le> cap \<Longrightarrow>
     b \<le> n \<and> n \<le> cap \<and> (\<forall>x\<in>{src + b..<src + n}. user_physical s space x \<noteq> None) \<and>
     (b < n \<longrightarrow> RUM_USER_BASE \<le> src \<and> src + n \<le> RUM_USER_END) \<and>
     (\<forall>i\<in>{b..<n - 1}. phys s (the (user_physical s space (src + i))) \<noteq> 0)"
proof (induction s space cap src b rule: string_scan.induct)
  case (1 s space cap src b)
  show ?case
  proof (cases "b < cap")
    case False
    then have "n = b" using 1(2) by (simp add: string_scan.simps [of s space cap src b])
    then show ?thesis using 1(3) by simp
  next
    case True
    have range: "\<not> (src < RUM_USER_BASE \<or> RUM_USER_END \<le> src \<or> RUM_USER_END - src - 1 < b)"
      using 1(2) True by (auto simp: string_scan.simps [of s space cap src b])
    then obtain p where p: "user_physical s space (src + b) = Some p"
      using 1(2) True by (auto simp: string_scan.simps [of s space cap src b] split: option.splits)
    show ?thesis
    proof (cases "phys s p = 0")
      case zero: True
      then have "n = b + 1" using 1(2) True range p by (simp add: string_scan.simps [of s space cap src b])
      then show ?thesis using True range p by auto
    next
      case False
      then have "string_scan s space cap src (b + 1) = Some n"
        using 1(2) True range p by (simp add: string_scan.simps [of s space cap src b])
      from 1(1) [OF True range p False this] True
      have IH: "b + 1 \<le> n" "n \<le> cap" "\<forall>x\<in>{src + (b + 1)..<src + n}. user_physical s space x \<noteq> None"
          "b + 1 < n \<longrightarrow> RUM_USER_BASE \<le> src \<and> src + n \<le> RUM_USER_END"
          "\<forall>i\<in>{b + 1..<n - 1}. phys s (the (user_physical s space (src + i))) \<noteq> 0"
        by simp_all
      have "{src + b..<src + n} = insert (src + b) {src + (b + 1)..<src + n}"
        "{b..<n - 1} \<subseteq> insert b {b + 1..<n - 1}" using IH(1) by auto
      moreover have "RUM_USER_BASE \<le> src \<and> src + n \<le> RUM_USER_END"
        using IH(1,4) range by (cases "b + 1 < n") auto
      ultimately show ?thesis using IH p False by auto
    qed
  qed
qed

lemma string_scan_total:
  assumes "RUM_USER_BASE \<le> src" and "k < cap" and "src + k < RUM_USER_END" and "b \<le> k"
    and "\<forall>i\<in>{b..k}. user_physical s space (src + i) \<noteq> None"
    and "\<forall>i\<in>{b..<k}. phys s (the (user_physical s space (src + i))) \<noteq> 0"
    and "phys s (the (user_physical s space (src + k))) = 0"
  shows "string_scan s space cap src b = Some (k + 1)"
  using assms(4-6)
proof (induction "k - b" arbitrary: b)
  case 0
  then have "b = k" by simp
  then show ?case
    using assms(1-3,7) 0 by (auto simp: string_scan.simps [of s space cap src k])
next
  case (Suc d)
  then obtain p where p: "user_physical s space (src + b) = Some p" by fastforce
  have "phys s p \<noteq> 0" using Suc.prems(3) Suc.hyps(2) p by (auto dest: bspec [of _ _ b])
  moreover have "string_scan s space cap src (b + 1) = Some (k + 1)"
    using Suc.hyps Suc.prems by (intro Suc.hyps(1)) auto
  ultimately show ?case
    using assms(1-3) Suc.hyps(2) p by (auto simp: string_scan.simps [of s space cap src b])
qed

text \<open>A NUL-terminated user string with its terminator, of at most \<open>cap\<close> bytes.\<close>

definition user_string :: "machine \<Rightarrow> paging_space \<Rightarrow> nat \<Rightarrow> nat \<Rightarrow> nat \<Rightarrow> bool" where
  "user_string s space cap src k \<longleftrightarrow>
     k < cap \<and> RUM_USER_BASE \<le> src \<and> src + k < RUM_USER_END \<and>
     (\<forall>i\<le>k. user_physical s space (src + i) \<noteq> None) \<and>
     (\<forall>i<k. phys s (the (user_physical s space (src + i))) \<noteq> 0) \<and>
     phys s (the (user_physical s space (src + k))) = 0"

lemma copy_string_result:
  assumes "paging_copy_string_from_user s r cap src = Some bs"
  shows "known_space s r \<and> r \<noteq> Space_Kernel \<and>
         (\<exists>k. user_string s (space_of s r) cap src k \<and> bs = user_view s (space_of s r) src (k + 1))"
proof -
  let ?sp = "space_of s r"
  obtain n p where n: "known_space s r" "r \<noteq> Space_Kernel" "string_scan s ?sp cap src 0 = Some n" "n \<noteq> 0"
      "user_physical s ?sp (src + (n - 1)) = Some p" "phys s p = 0" "copy_user_in s ?sp src n = Some bs"
    using assms by (auto simp: paging_copy_string_from_user_def split: if_splits option.splits)
  note scan = string_scan_result [OF n(3)]
  have "copy_user_in s ?sp src n = Some (user_view s ?sp src n)"
    unfolding user_view_def by (rule copy_user_in_bytes) (use scan in auto)
  then have "bs = user_view s ?sp src (n - 1 + 1)" using n(4,7) by simp
  moreover have "user_physical s ?sp (src + i) \<noteq> None" if "i \<le> n - 1" for i
    using that scan n(4) by (auto dest: bspec [of _ _ "src + i"])
  ultimately show ?thesis
    using scan n by (intro conjI exI [of _ "n - 1"]) (auto simp: user_string_def)
qed

lemma copy_string_accepted:
  assumes "known_space s r" and "r \<noteq> Space_Kernel" and "user_string s (space_of s r) cap src k"
  shows "paging_copy_string_from_user s r cap src = Some (user_view s (space_of s r) src (k + 1))"
proof -
  let ?sp = "space_of s r"
  have scan: "string_scan s ?sp cap src 0 = Some (k + 1)"
    using assms(3) by (intro string_scan_total) (auto simp: user_string_def)
  have "user_physical s ?sp x \<noteq> None" if "x \<in> {src..<src + (k + 1)}" for x
  proof -
    have "x = src + (x - src)" "x - src \<le> k" using that by auto
    then show ?thesis using assms(3) unfolding user_string_def by metis
  qed
  then have "copy_user_in s ?sp src (k + 1) = Some (user_view s ?sp src (k + 1))"
    unfolding user_view_def by (intro copy_user_in_bytes) blast
  moreover obtain p where "user_physical s ?sp (src + k) = Some p" "phys s p = 0"
    using assms(3) by (auto simp: user_string_def)
  moreover have "k < cap" using assms(3) by (simp add: user_string_def)
  ultimately show ?thesis
    using assms(1,2) scan by (auto simp: paging_copy_string_from_user_def)
qed

text \<open>A machine with one private space that maps the first user page to frame 259, which starts
  with the string \<open>A\<close>.\<close>

definition user_sample :: machine where
  "user_sample =
     machine_sample\<lparr>
       spaces := [(7, \<lparr> directory_physical = 257 * PAGE_SIZE, user_pages = 1, user_tables = 1,
                        private_tables = [1, 0, 0, 0, 0, 0, 0, 0] \<rparr>)],
       phys := (\<lambda>x. if x = 0x101800 then 0x07 else if x = 0x101801 then 0x20 else if x = 0x101802 then 0x10
                    else if x = 0x102000 then 0x05 else if x = 0x102001 then 0x30 else if x = 0x102002 then 0x10
                    else if x = 0x103000 then 65 else 0)\<rparr>"

lemma user_sample_space:
  "known_space user_sample (Space_At 7)"
  "space_of user_sample (Space_At 7) =
     \<lparr> directory_physical = 257 * PAGE_SIZE, user_pages = 1, user_tables = 1,
       private_tables = [1, 0, 0, 0, 0, 0, 0, 0] \<rparr>"
  by (simp_all add: user_sample_def machine_sample_def known_space_def space_of_def)

lemma user_sample_words:
  "rd32 (phys user_sample) 0x101800 = 0x102007" "rd32 (phys user_sample) 0x102000 = 0x103005"
  by (simp_all add: user_sample_def rd32_def rd_def upt_rec)

lemma user_sample_entry:
  assumes "x div PAGE_SIZE = 0x80000"
  shows "user_entry user_sample (space_of user_sample (Space_At 7)) x = Some 0x102000"
proof -
  let ?sp = "space_of user_sample (Space_At 7)"
  have "user_entry user_sample ?sp x = user_entry user_sample ?sp 0x80000000"
    using assms by (intro user_entry_page) (simp add: layout_defs)
  also have "\<dots> = Some 0x102000"
    by (simp add: user_entry_def private_table_valid_def private_table_owned_def directory_entry_def user_sample_space
        dir_index_def page_index_def entry_at_def layout_defs KERNEL_ENTRIES_def USER_ENTRIES_def user_sample_words
        frame_of_def FRAME_MASK_def PRESENT_def PAGING_WRITABLE_def USER_def bitmap_bit_def Let_def)
  finally show ?thesis .
qed

lemma user_sample_physical:
  assumes "x div PAGE_SIZE = 0x80000"
  shows "user_physical user_sample (space_of user_sample (Space_At 7)) x = Some (0x103000 + x mod PAGE_SIZE)"
  using user_sample_entry [OF assms]
  by (simp add: user_physical_def user_sample_words frame_of_def FRAME_MASK_def)

section \<open>Properties of user copies\<close>

text \<open>C20: copying from user memory succeeds exactly when the space is a registered private one and
  the range is empty or lies in the user window with every byte on a present user page; the
  bytes are then exactly those the space's own page tables select, page boundaries included.\<close>

theorem paging_copy_from_user_correct:
  "paging_copy_from_user s r a n =
     (if known_space s r \<and> r \<noteq> Space_Kernel \<and>
         (n = 0 \<or> RUM_USER_BASE \<le> a \<and> a + n \<le> RUM_USER_END \<and> (\<forall>x\<in>{a..<a + n}. user_ok s (space_of s r) False x))
      then Some (user_view s (space_of s r) a n) else None)"
  by (rule copy_from_user_view)

theorem paging_copy_from_user_correct_witness:
  "paging_copy_from_user user_sample (Space_At 7) 0x80000000 2 = Some [65, 0]"
proof -
  let ?sp = "space_of user_sample (Space_At 7)"
  have "\<forall>x\<in>{0x80000000..<0x80000000 + 2}. x div PAGE_SIZE = 0x80000" by (auto simp: layout_defs)
  then have ok: "\<forall>x\<in>{0x80000000..<0x80000000 + 2}. user_ok user_sample ?sp False x"
    using user_sample_entry by (simp add: user_ok_def)
  have "user_physical user_sample ?sp 0x80000000 = Some 0x103000"
    "user_physical user_sample ?sp 0x80000001 = Some 0x103001"
    using user_sample_physical [of "0x80000000"] user_sample_physical [of "0x80000001"] by (simp_all add: layout_defs)
  then have "user_view user_sample ?sp 0x80000000 2 = [65, 0]"
    by (simp add: user_view_def upt_rec) (simp add: user_sample_def)
  then show ?thesis
    using paging_copy_from_user_correct [of user_sample "Space_At 7" "0x80000000" 2] ok user_sample_space(1)
    by (simp add: layout_defs)
qed

text \<open>C21: a string is copied from user memory exactly when a terminator occurs within the capacity
  before any inaccessible byte and inside the user window; the result is the bytes up to and
  including the first terminator.\<close>

theorem paging_copy_string_correct:
  "paging_copy_string_from_user s r cap src = Some bs \<longleftrightarrow>
     known_space s r \<and> r \<noteq> Space_Kernel \<and>
     (\<exists>k. user_string s (space_of s r) cap src k \<and> bs = user_view s (space_of s r) src (k + 1))"
  using copy_string_result [of s r cap src bs] copy_string_accepted [of s r cap src] by auto

end
