(* ===== verification/Rum_Heap.thy ===== *)
theory Rum_Heap
  imports Rum_Paging_Kernel
begin

text \<open>
  The kernel heap, \<open>kernel/mm/heap.c\<close>: a doubly linked list of blocks over pages mapped at
  \<open>HEAP_BASE\<close>, first fit, splitting and joining. Headers are a store from addresses to records
  with address-valued links (0 is the null pointer); payload bytes are a separate store. That no
  header lies in a payload is a consequence of the layout invariant of \<open>Rum_Heap_Inv\<close>. A loop
  over the links is a \<open>partial_function\<close>: \<open>None\<close> is a walk that never ends. Each operation runs
  with interrupts masked and is one step.
\<close>

section \<open>State\<close>

definition HEAP_BASE :: nat where "HEAP_BASE = RUM_HEAP_BASE"
definition HEAP_LIMIT :: nat where "HEAP_LIMIT = RUM_HEAP_END - RUM_HEAP_BASE"
definition HEAP_ALIGNMENT :: nat where "HEAP_ALIGNMENT = 16"

text \<open>Three words and a flag, aligned to 16 bytes.\<close>

definition SIZEOF_BLOCK :: nat where "SIZEOF_BLOCK = 16"

lemmas heap_consts = HEAP_BASE_def HEAP_LIMIT_def HEAP_ALIGNMENT_def SIZEOF_BLOCK_def layout_defs

record block =
  block_size :: nat
  block_previous :: nat
  block_next :: nat
  block_free :: bool

record heap =
  headers :: "nat \<Rightarrow> block"
  payload :: memory
  heap_first :: nat
  heap_last :: nat
  heap_mapped :: nat
  heap_ready :: bool
  km :: machine

text \<open>Field assignment through a block pointer, and subtraction of 32-bit sizes.\<close>

definition set_header :: "nat \<Rightarrow> block \<Rightarrow> heap \<Rightarrow> heap" where
  "set_header b v h = h\<lparr>headers := (headers h)(b := v)\<rparr>"

definition sub32 :: "nat \<Rightarrow> nat \<Rightarrow> nat" where
  "sub32 a b = (a + 2 ^ 32 - b) mod 2 ^ 32"

definition aligned :: "nat \<Rightarrow> nat" where
  "aligned n =
     (if n = 0 \<or> n > HEAP_LIMIT - SIZEOF_BLOCK then 0
      else (n + HEAP_ALIGNMENT - 1) div HEAP_ALIGNMENT * HEAP_ALIGNMENT)"

section \<open>Growing\<close>

function grow_map :: "nat \<Rightarrow> nat \<Rightarrow> nat \<Rightarrow> machine \<Rightarrow> nat \<times> machine" where
  "grow_map base growth added m =
     (if added < growth then
        (let (physical, m1) = allocate_frame m in
         if physical = 0 then (added, m1)
         else
           (let (ok, m2) = paging_map_page (paging_kernel_space m1) (base + added) physical PAGING_WRITABLE m1 in
            if ok then grow_map base growth (added + PAGE_SIZE) m2
            else (added, m2\<lparr>pm := snd (pmm_free_page physical (pm m2))\<rparr>)))
      else (added, m))"
  by pat_completeness auto
termination
  by (relation "measure (\<lambda>(_, growth, added, _). growth - added)") (auto simp: layout_defs)

declare grow_map.simps [simp del]

function grow_undo :: "nat \<Rightarrow> nat \<Rightarrow> machine \<Rightarrow> machine" where
  "grow_undo base added m =
     (if added = 0 then m
      else
        (let added1 = added - PAGE_SIZE;
             (physical, m1) = paging_unmap_page (paging_kernel_space m) (base + added1) m
         in grow_undo base added1
              (case physical of Some f \<Rightarrow> m1\<lparr>pm := snd (pmm_free_page f (pm m1))\<rparr> | None \<Rightarrow> m1)))"
  by pat_completeness auto
termination by (relation "measure (\<lambda>(_, added, _). added)") (auto simp: layout_defs)

declare grow_undo.simps [simp del]

definition grow_block :: "nat \<Rightarrow> heap \<Rightarrow> heap" where
  "grow_block growth h =
     (let l = heap_last h in
      if l \<noteq> 0 \<and> block_free (headers h l)
      then set_header l ((headers h l)\<lparr>block_size := block_size (headers h l) + growth\<rparr>) h
      else
        (let b = HEAP_BASE + heap_mapped h;
             h1 = set_header b \<lparr>block_size = growth - SIZEOF_BLOCK, block_previous = l, block_next = 0, block_free = True\<rparr> h;
             h2 = (if l \<noteq> 0 then set_header l ((headers h1 l)\<lparr>block_next := b\<rparr>) h1 else h1\<lparr>heap_first := b\<rparr>)
         in h2\<lparr>heap_last := b\<rparr>))"

definition grow :: "nat \<Rightarrow> heap \<Rightarrow> bool \<times> heap" where
  "grow bytes h =
     (let growth = (bytes + PAGE_SIZE - 1) div PAGE_SIZE * PAGE_SIZE in
      if growth = 0 \<or> growth > sub32 HEAP_LIMIT (heap_mapped h) then (False, h)
      else
        (let base = HEAP_BASE + heap_mapped h; (added, m) = grow_map base growth 0 (km h) in
         if added \<noteq> growth then (False, h\<lparr>km := grow_undo base added m\<rparr>)
         else
           (let h1 = grow_block growth (h\<lparr>km := m\<rparr>) in
            (True, h1\<lparr>heap_mapped := heap_mapped h1 + growth\<rparr>))))"

section \<open>Blocks\<close>

partial_function (option) find_from :: "(nat \<Rightarrow> block) \<Rightarrow> nat \<Rightarrow> nat \<Rightarrow> nat option" where
  "find_from hs pointer b =
     (if b = 0 then Some 0
      else if b + SIZEOF_BLOCK = pointer \<and> \<not> block_free (hs b) then Some b
      else find_from hs pointer (block_next (hs b)))"

definition find_block :: "nat \<Rightarrow> heap \<Rightarrow> nat option" where
  "find_block pointer h = find_from (headers h) pointer (heap_first h)"

definition join_next :: "nat \<Rightarrow> heap \<Rightarrow> heap" where
  "join_next b h =
     (let n = block_next (headers h b);
          h1 = set_header b
                 ((headers h b)\<lparr>block_size := block_size (headers h b) + SIZEOF_BLOCK + block_size (headers h n),
                                block_next := block_next (headers h n)\<rparr>) h;
          n1 = block_next (headers h1 b)
      in if n1 \<noteq> 0 then set_header n1 ((headers h1 n1)\<lparr>block_previous := b\<rparr>) h1 else h1\<lparr>heap_last := b\<rparr>)"

definition split :: "nat \<Rightarrow> nat \<Rightarrow> heap \<Rightarrow> heap" where
  "split b n h =
     (let excess = sub32 (block_size (headers h b)) n in
      if excess < SIZEOF_BLOCK + HEAP_ALIGNMENT then h
      else
        (let rest = b + SIZEOF_BLOCK + n;
             follow = block_next (headers h b);
             h1 = set_header rest
                    \<lparr>block_size = excess - SIZEOF_BLOCK, block_previous = b, block_next = follow, block_free = True\<rparr> h;
             h2 = (if follow \<noteq> 0 then set_header follow ((headers h1 follow)\<lparr>block_previous := rest\<rparr>) h1
                   else h1\<lparr>heap_last := rest\<rparr>);
             h3 = set_header b ((headers h2 b)\<lparr>block_next := rest, block_size := n\<rparr>) h2;
             follow3 = block_next (headers h3 rest)
         in if follow3 \<noteq> 0 \<and> block_free (headers h3 follow3) then join_next rest h3 else h3))"

text \<open>Splitting the chosen block and handing it out.\<close>

definition take_block :: "nat \<Rightarrow> nat \<Rightarrow> heap \<Rightarrow> nat \<times> heap" where
  "take_block b n h =
     (let h1 = split b n h
      in (b + SIZEOF_BLOCK, set_header b ((headers h1 b)\<lparr>block_free := False\<rparr>) h1))"

partial_function (option) fit_from :: "(nat \<Rightarrow> block) \<Rightarrow> nat \<Rightarrow> nat \<Rightarrow> nat option" where
  "fit_from hs n b =
     (if b = 0 then Some 0
      else if block_free (hs b) \<and> block_size (hs b) \<ge> n then Some b
      else fit_from hs n (block_next (hs b)))"

definition allocate :: "nat \<Rightarrow> heap \<Rightarrow> (nat \<times> heap) option" where
  "allocate bytes h =
     (let n = aligned bytes in
      if \<not> heap_ready h \<or> n = 0 then Some (0, h)
      else
        (case fit_from (headers h) n (heap_first h) of
           None \<Rightarrow> None
         | Some b \<Rightarrow>
             if b \<noteq> 0 then Some (take_block b n h)
             else
               (let final = headers h (heap_last h);
                    needed = (if block_free final then sub32 n (block_size final) else n + SIZEOF_BLOCK);
                    (ok, h1) = grow needed h
                in if ok then Some (take_block (heap_last h1) n h1) else Some (0, h1))))"

definition release :: "nat \<Rightarrow> heap \<Rightarrow> heap" where
  "release b h =
     (let h1 = set_header b ((headers h b)\<lparr>block_free := True\<rparr>) h;
          n = block_next (headers h1 b);
          h2 = (if n \<noteq> 0 \<and> block_free (headers h1 n) then join_next b h1 else h1);
          p = block_previous (headers h2 b)
      in if p \<noteq> 0 \<and> block_free (headers h2 p) then join_next p h2 else h2)"

section \<open>The interface\<close>

definition heap_initialize :: "heap \<Rightarrow> bool \<times> heap" where
  "heap_initialize h =
     (if heap_ready h then (False, h)
      else (let (ok, h1) = grow PAGE_SIZE h in if ok then (True, h1\<lparr>heap_ready := True\<rparr>) else (False, h1)))"

definition kmalloc :: "nat \<Rightarrow> heap \<Rightarrow> (nat \<times> heap) option" where
  "kmalloc bytes h = allocate bytes h"

definition kcalloc :: "nat \<Rightarrow> nat \<Rightarrow> heap \<Rightarrow> (nat \<times> heap) option" where
  "kcalloc count bytes h =
     (if count = 0 \<or> bytes = 0 \<or> count > SIZE_MAX div bytes then Some (0, h)
      else
        map_option (\<lambda>(p, h1). (p, if p \<noteq> 0 then h1\<lparr>payload := wr (payload h1) p (replicate (count * bytes) 0)\<rparr> else h1))
          (kmalloc (count * bytes) h))"

definition kfree :: "nat \<Rightarrow> heap \<Rightarrow> (bool \<times> heap) option" where
  "kfree pointer h =
     (if pointer = 0 then Some (True, h)
      else map_option (\<lambda>b. if b \<noteq> 0 then (True, release b h) else (False, h)) (find_block pointer h))"

definition copy_payload :: "nat \<Rightarrow> nat \<Rightarrow> nat \<Rightarrow> heap \<Rightarrow> heap" where
  "copy_payload to from n h = h\<lparr>payload := wr (payload h) to (map (payload h) [from..<from + n])\<rparr>"

definition krealloc :: "nat \<Rightarrow> nat \<Rightarrow> heap \<Rightarrow> (nat \<times> heap) option" where
  "krealloc pointer bytes h =
     (if pointer = 0 then kmalloc bytes h
      else if bytes = 0 then map_option (\<lambda>(_, h1). (0, h1)) (kfree pointer h)
      else
        (case find_block pointer h of
           None \<Rightarrow> None
         | Some b \<Rightarrow>
             (let wanted = aligned bytes; hd1 = headers h b; nb = headers h (block_next hd1) in
              if b = 0 \<or> wanted = 0 then Some (0, h)
              else if wanted \<le> block_size hd1 then Some (pointer, split b wanted h)
              else if block_next hd1 \<noteq> 0 \<and> block_free nb \<and> block_size hd1 + SIZEOF_BLOCK + block_size nb \<ge> wanted
              then Some (pointer, split b wanted (join_next b h))
              else
                map_option (\<lambda>(result, h1).
                    (result, if result \<noteq> 0
                             then release b (copy_payload result pointer (block_size (headers h1 b)) h1) else h1))
                  (allocate wanted h))))"

record heap_statistics =
  mapped_bytes :: nat
  used_bytes :: nat
  free_bytes :: nat
  allocations :: nat

partial_function (option) stats_from :: "(nat \<Rightarrow> block) \<Rightarrow> nat \<Rightarrow> heap_statistics \<Rightarrow> heap_statistics option" where
  "stats_from hs b st =
     (if b = 0 then Some st
      else
        stats_from hs (block_next (hs b))
          (if block_free (hs b) then st\<lparr>free_bytes := free_bytes st + block_size (hs b)\<rparr>
           else st\<lparr>used_bytes := used_bytes st + block_size (hs b), allocations := allocations st + 1\<rparr>))"

definition heap_stats :: "heap \<Rightarrow> heap_statistics option" where
  "heap_stats h =
     stats_from (headers h) (heap_first h)
       \<lparr>mapped_bytes = heap_mapped h, used_bytes = 0, free_bytes = 0, allocations = 0\<rparr>"

end
