(* ===== verification/Rum_Heap_Inv.thy ===== *)
theory Rum_Heap_Inv
  imports Rum_Heap
begin

text \<open>
  The layout of the heap. The abstract heap is the list of its blocks in address order, each a
  payload size and a free flag; addresses are the running sum. \<open>heap_at h ss\<close> says that the
  linked headers of \<open>h\<close> are exactly \<open>ss\<close>. Every operation on the links is a list operation on
  \<open>ss\<close>, and the walks over the links end.
\<close>

section \<open>Segments\<close>

type_synonym seg = "nat \<times> bool"

fun span :: "seg list \<Rightarrow> nat" where
  "span [] = 0"
| "span ((n, f) # ss) = SIZEOF_BLOCK + n + span ss"

fun last_at :: "nat \<Rightarrow> nat \<Rightarrow> seg list \<Rightarrow> nat" where
  "last_at p a [] = p"
| "last_at p a ((n, f) # ss) = last_at a (a + SIZEOF_BLOCK + n) ss"

fun layout :: "(nat \<Rightarrow> block) \<Rightarrow> nat \<Rightarrow> nat \<Rightarrow> nat \<Rightarrow> seg list \<Rightarrow> bool" where
  "layout hs p a e [] = True"
| "layout hs p a e ((n, f) # ss) =
     (hs a = \<lparr>block_size = n, block_previous = p,
              block_next = (if ss = [] then e else a + SIZEOF_BLOCK + n), block_free = f\<rparr> \<and>
      layout hs a (a + SIZEOF_BLOCK + n) e ss)"

lemma SIZEOF_BLOCK_pos [simp]: "0 < SIZEOF_BLOCK" "SIZEOF_BLOCK \<noteq> 0" by (simp_all add: SIZEOF_BLOCK_def)

lemma span_append [simp]: "span (xs @ ys) = span xs + span ys"
  by (induction xs rule: span.induct) simp_all

lemma last_at_append [simp]: "last_at p a (xs @ ys) = last_at (last_at p a xs) (a + span xs) ys"
  by (induction xs arbitrary: p a rule: span.induct) (simp_all add: add.assoc)

lemma layout_append:
  "layout hs p a e (xs @ ys) \<longleftrightarrow>
     layout hs p a (if ys = [] then e else a + span xs) xs \<and> layout hs (last_at p a xs) (a + span xs) e ys"
  by (induction xs arbitrary: p a rule: span.induct) (auto simp: add.assoc)

lemma layout_other [simp]: "c < a \<or> a + span ss \<le> c \<Longrightarrow> layout (hs(c := v)) p a e ss = layout hs p a e ss"
  by (induction ss arbitrary: p a rule: span.induct) auto

lemma last_at_bounds:
  "ss \<noteq> [] \<Longrightarrow> a \<le> last_at p a ss \<and> last_at p a ss + SIZEOF_BLOCK \<le> a + span ss"
proof (induction ss arbitrary: p a rule: span.induct)
  case (2 n f ss)
  show ?case
  proof (cases "ss = []")
    case False
    from "2.IH" [OF this, of "a + SIZEOF_BLOCK + n" a] show ?thesis by simp
  qed simp
qed simp

text \<open>One block in the middle.\<close>

lemma layout_focus:
  "layout hs p a e (xs @ (n, f) # ys) \<longleftrightarrow>
     layout hs p a (a + span xs) xs \<and>
     hs (a + span xs) = \<lparr>block_size = n, block_previous = last_at p a xs,
        block_next = (if ys = [] then e else a + span xs + SIZEOF_BLOCK + n), block_free = f\<rparr> \<and>
     layout hs (a + span xs) (a + span xs + SIZEOF_BLOCK + n) e ys"
  by (simp add: layout_append)

definition heap_at :: "heap \<Rightarrow> seg list \<Rightarrow> bool" where
  "heap_at h ss \<longleftrightarrow>
     layout (headers h) 0 HEAP_BASE 0 ss \<and> heap_first h = (if ss = [] then 0 else HEAP_BASE) \<and>
     heap_last h = last_at 0 HEAP_BASE ss \<and> heap_mapped h = span ss"

abbreviation (input) at :: "seg list \<Rightarrow> nat" where
  "at xs \<equiv> HEAP_BASE + span xs"

lemma HEAP_BASE_pos [simp]: "HEAP_BASE \<noteq> 0" "0 < HEAP_BASE" by (simp_all add: heap_consts)

text \<open>The records outside the headers.\<close>

lemma set_header_frame [simp]:
  "headers (set_header b v h) = (headers h)(b := v)" "payload (set_header b v h) = payload h"
  "heap_first (set_header b v h) = heap_first h" "heap_last (set_header b v h) = heap_last h"
  "heap_mapped (set_header b v h) = heap_mapped h" "heap_ready (set_header b v h) = heap_ready h"
  "km (set_header b v h) = km h"
  by (simp_all add: set_header_def)

definition same_rest :: "heap \<Rightarrow> heap \<Rightarrow> bool" where
  "same_rest h h' \<longleftrightarrow> payload h' = payload h \<and> heap_ready h' = heap_ready h \<and> km h' = km h"

lemma same_rest_steps:
  "same_rest h h" "same_rest h h1 \<Longrightarrow> same_rest h (set_header b v h1)"
  "same_rest h h1 \<Longrightarrow> same_rest h (h1\<lparr>heap_last := l\<rparr>)"
  "same_rest h h1 \<Longrightarrow> same_rest h h2 \<Longrightarrow> same_rest h (if c then h1 else h2)"
  by (simp_all add: same_rest_def)

lemma same_rest_join: "same_rest h h1 \<Longrightarrow> same_rest h (join_next b h1)"
  unfolding join_next_def Let_def by (intro same_rest_steps)

lemma same_rest_split: "same_rest h h1 \<Longrightarrow> same_rest h (split b n h1)"
  unfolding split_def Let_def by (intro same_rest_steps same_rest_join)

lemma same_rest_release: "same_rest h h1 \<Longrightarrow> same_rest h (release b h1)"
  unfolding release_def Let_def by (intro same_rest_steps same_rest_join)

section \<open>Operations on one block\<close>

lemma heap_at_mark:
  assumes "heap_at h (xs @ (n, f) # ys)"
  shows "heap_at (set_header (at xs) ((headers h (at xs))\<lparr>block_free := g\<rparr>) h) (xs @ (n, g) # ys)"
  using assms by (simp add: heap_at_def layout_focus)

lemma heap_at_join:
  assumes "heap_at h (xs @ (n, f) # (m, g) # ys)"
  shows "heap_at (join_next (at xs) h) (xs @ (n + SIZEOF_BLOCK + m, f) # ys)"
proof (cases ys)
  case Nil
  then show ?thesis using assms by (simp add: heap_at_def layout_focus join_next_def Let_def)
next
  case (Cons y zs)
  obtain k l where y: "y = (k, l)" by fastforce
  define b d where "b = at xs" and "d = b + SIZEOF_BLOCK + n + SIZEOF_BLOCK + m"
  have bd: "b < d" "b \<noteq> d" "HEAP_BASE + span xs = b" "d \<noteq> 0"
    by (auto simp: d_def b_def SIZEOF_BLOCK_def)
  have hs: "headers h b = \<lparr>block_size = n, block_previous = last_at 0 HEAP_BASE xs,
        block_next = b + SIZEOF_BLOCK + n, block_free = f\<rparr>"
      "headers h (b + SIZEOF_BLOCK + n) = \<lparr>block_size = m, block_previous = b, block_next = d, block_free = g\<rparr>"
      "headers h d = \<lparr>block_size = k, block_previous = b + SIZEOF_BLOCK + n,
        block_next = (if zs = [] then 0 else d + SIZEOF_BLOCK + k), block_free = l\<rparr>"
      "layout (headers h) 0 HEAP_BASE b xs" "layout (headers h) d (d + SIZEOF_BLOCK + k) 0 zs"
    using assms unfolding Cons y by (simp_all add: heap_at_def layout_focus b_def d_def)
  have j: "join_next b h = set_header d ((headers h d)\<lparr>block_previous := b\<rparr>)
      (set_header b \<lparr>block_size = n + SIZEOF_BLOCK + m, block_previous = last_at 0 HEAP_BASE xs,
                     block_next = d, block_free = f\<rparr> h)"
    using hs bd by (simp add: join_next_def Let_def)
  have e: "b + SIZEOF_BLOCK + (n + SIZEOF_BLOCK + m) = d" by (simp add: d_def)
  have "heap_first h = HEAP_BASE" "heap_mapped h = span xs + (SIZEOF_BLOCK + n + (SIZEOF_BLOCK + m + (SIZEOF_BLOCK + k + span zs)))"
      "heap_last h = last_at d (d + SIZEOF_BLOCK + k) zs"
    using assms unfolding Cons y by (simp_all add: heap_at_def b_def d_def)
  moreover have "layout (headers (join_next b h)) 0 HEAP_BASE b xs"
      "layout (headers (join_next b h)) d (d + SIZEOF_BLOCK + k) 0 zs"
    unfolding j using hs(4,5) bd(1) by (simp_all add: b_def [symmetric])
  moreover have "headers (join_next b h) b = \<lparr>block_size = n + SIZEOF_BLOCK + m,
      block_previous = last_at 0 HEAP_BASE xs, block_next = d, block_free = f\<rparr>"
    "headers (join_next b h) d = (headers h d)\<lparr>block_previous := b\<rparr>"
    "heap_first (join_next b h) = heap_first h" "heap_last (join_next b h) = heap_last h"
    "heap_mapped (join_next b h) = heap_mapped h"
    unfolding j using bd(2) by simp_all
  ultimately show ?thesis
    unfolding Cons y heap_at_def layout_focus bd(3) using hs(3) e by (simp, simp only: bd(3))
qed

lemma sub32_le: "b \<le> a \<Longrightarrow> a < 2 ^ 32 \<Longrightarrow> sub32 a b = a - b"
proof -
  assume "b \<le> a" "a < 2 ^ 32"
  then have "a + 2 ^ 32 - b = a - b + 2 ^ 32" "a - b < 2 ^ 32" by auto
  then show ?thesis unfolding sub32_def by (simp only: mod_add_self2 mod_less)
qed

text \<open>Cutting a block in two: the links the split installs before it looks at the next block.\<close>

definition cut :: "nat \<Rightarrow> nat \<Rightarrow> nat \<Rightarrow> heap \<Rightarrow> heap" where
  "cut b n m h =
     (let rest = b + SIZEOF_BLOCK + n; follow = block_next (headers h b);
          h1 = set_header rest \<lparr>block_size = m, block_previous = b, block_next = follow, block_free = True\<rparr> h;
          h2 = (if follow \<noteq> 0 then set_header follow ((headers h1 follow)\<lparr>block_previous := rest\<rparr>) h1
                else h1\<lparr>heap_last := rest\<rparr>)
      in set_header b ((headers h2 b)\<lparr>block_next := rest, block_size := n\<rparr>) h2)"

lemma split_cut:
  assumes "n \<le> block_size (headers h b)" and "block_size (headers h b) < 2 ^ 32"
  shows "split b n h =
     (let excess = block_size (headers h b) - n; rest = b + SIZEOF_BLOCK + n;
          h3 = cut b n (excess - SIZEOF_BLOCK) h; follow = block_next (headers h3 rest)
      in if excess < SIZEOF_BLOCK + HEAP_ALIGNMENT then h
         else if follow \<noteq> 0 \<and> block_free (headers h3 follow) then join_next rest h3 else h3)"
  unfolding split_def cut_def Let_def sub32_le [OF assms] ..

lemma heap_at_cut:
  assumes "heap_at h (xs @ (n + SIZEOF_BLOCK + m, f) # ys)"
  shows "heap_at (cut (at xs) n m h) (xs @ (n, f) # (m, True) # ys)"
proof -
  define b r d where "b = at xs" and "r = b + SIZEOF_BLOCK + n" and "d = r + SIZEOF_BLOCK + m"
  have bd: "b < r" "r < d" "HEAP_BASE + span xs = b" "d \<noteq> 0" "r \<noteq> 0" by (auto simp: d_def r_def b_def)
  have e: "b + SIZEOF_BLOCK + (n + SIZEOF_BLOCK + m) = d" by (simp add: d_def r_def)
  have hs: "headers h b = \<lparr>block_size = n + SIZEOF_BLOCK + m, block_previous = last_at 0 HEAP_BASE xs,
        block_next = (if ys = [] then 0 else d), block_free = f\<rparr>"
      "layout (headers h) 0 HEAP_BASE b xs" "layout (headers h) b d 0 ys"
    using assms unfolding heap_at_def layout_focus bd(3) e by simp_all
  have top: "heap_first h = HEAP_BASE" "heap_mapped h = span xs + (SIZEOF_BLOCK + n + (SIZEOF_BLOCK + m + span ys))"
    using assms by (simp_all add: heap_at_def)
  let ?h = "cut b n m h"
  have first: "headers ?h b = \<lparr>block_size = n, block_previous = last_at 0 HEAP_BASE xs, block_next = r, block_free = f\<rparr>"
    "headers ?h r = \<lparr>block_size = m, block_previous = b, block_next = (if ys = [] then 0 else d), block_free = True\<rparr>"
    "heap_first ?h = heap_first h" "heap_mapped ?h = heap_mapped h"
    using hs(1) bd(1,2,4) by (simp_all add: cut_def Let_def r_def [symmetric])
  have low: "layout (headers ?h) 0 HEAP_BASE b xs"
    using hs(1,2) bd(1,2,4) by (simp add: cut_def Let_def r_def [symmetric] bd(3))
  have high: "layout (headers ?h) r d 0 ys \<and> heap_last ?h = last_at r d ys"
  proof (cases ys)
    case Nil
    then show ?thesis using hs(1) by (simp add: cut_def Let_def r_def)
  next
    case (Cons y zs)
    obtain k l where y: "y = (k, l)" by fastforce
    have "heap_last h = last_at 0 HEAP_BASE (xs @ (n + SIZEOF_BLOCK + m, f) # ys)" using assms by (simp add: heap_at_def)
    then have "heap_last h = last_at r d ys" unfolding Cons y by (simp add: bd(3) e)
    moreover have "heap_last ?h = heap_last h"
      using hs(1) Cons bd(4) by (simp add: cut_def Let_def)
    moreover have "layout (headers ?h) r d 0 ys"
      using hs(1,3) Cons y bd(1,2,4) by (simp add: cut_def Let_def r_def [symmetric])
    ultimately show ?thesis by simp
  qed
  show ?thesis
    unfolding heap_at_def layout_focus bd(3) r_def [symmetric]
    using first low high top by (simp add: d_def [symmetric]) (simp add: b_def r_def d_def)
qed

text \<open>The list operations.\<close>

fun free_front :: "nat \<Rightarrow> seg list \<Rightarrow> seg list" where
  "free_front n ((m, True) # ys) = (n + SIZEOF_BLOCK + m, True) # ys"
| "free_front n ys = (n, True) # ys"

definition split_seg :: "nat \<Rightarrow> nat \<Rightarrow> bool \<Rightarrow> seg list \<Rightarrow> seg list" where
  "split_seg k n f ys =
     (if n - k < SIZEOF_BLOCK + HEAP_ALIGNMENT then (n, f) # ys
      else (k, f) # free_front (n - k - SIZEOF_BLOCK) ys)"

definition free_seg :: "seg list \<Rightarrow> nat \<Rightarrow> seg list \<Rightarrow> seg list" where
  "free_seg xs n ys =
     (if xs \<noteq> [] \<and> snd (last xs)
      then butlast xs @ free_front (fst (last xs) + SIZEOF_BLOCK + n) ys
      else xs @ free_front n ys)"

lemma heap_at_header:
  "heap_at h (xs @ (n, f) # ys) \<Longrightarrow>
     headers h (at xs) = \<lparr>block_size = n, block_previous = last_at 0 HEAP_BASE xs,
        block_next = (if ys = [] then 0 else at xs + SIZEOF_BLOCK + n), block_free = f\<rparr>"
  unfolding heap_at_def layout_focus by blast

lemma heap_at_free_next:
  assumes "heap_at h (xs @ (n, f) # ys)"
  defines "nx \<equiv> block_next (headers h (at xs))"
  shows "heap_at (if nx \<noteq> 0 \<and> block_free (headers h nx) then join_next (at xs) h else h)
           (xs @ (case free_front n ys of (m, _) # zs \<Rightarrow> (m, f) # zs))"
proof (cases ys)
  case Nil
  then show ?thesis using assms heap_at_header [OF assms(1)] by simp
next
  case (Cons y zs)
  obtain m l where y: "y = (m, l)" by fastforce
  have nx: "nx = at (xs @ [(n, f)])" "nx \<noteq> 0" using heap_at_header [OF assms(1)] Cons by (simp_all add: nx_def)
  have a2: "heap_at h ((xs @ [(n, f)]) @ (m, l) # zs)" using assms(1) Cons y by simp
  have "block_free (headers h nx) = l" using heap_at_header [OF a2] nx(1) by simp
  then show ?thesis using nx(2) assms(1) heap_at_join [of h xs n f m l zs] Cons y by (cases l) auto
qed

lemma heap_at_split:
  assumes "heap_at h (xs @ (n, f) # ys)" and "k \<le> n" and "n < 2 ^ 32"
  shows "heap_at (split (at xs) k h) (xs @ split_seg k n f ys)"
proof -
  note hd = heap_at_header [OF assms(1)]
  have rest: "at xs + SIZEOF_BLOCK + k = at (xs @ [(k, f)])" by simp
  have sp: "split (at xs) k h =
     (let rest = at (xs @ [(k, f)]); h3 = cut (at xs) k (n - k - SIZEOF_BLOCK) h; nx = block_next (headers h3 rest)
      in if n - k < SIZEOF_BLOCK + HEAP_ALIGNMENT then h
         else if nx \<noteq> 0 \<and> block_free (headers h3 nx) then join_next rest h3 else h3)"
    using split_cut [of k h "at xs"] assms(2,3) by (simp only: hd block.simps Let_def rest)
  show ?thesis
  proof (cases "n - k < SIZEOF_BLOCK + HEAP_ALIGNMENT")
    case True
    then show ?thesis using assms(1) by (simp add: sp split_seg_def)
  next
    case False
    define m where "m = n - k - SIZEOF_BLOCK"
    have n: "n = k + SIZEOF_BLOCK + m" using False assms(2) by (simp add: m_def)
    have "heap_at (cut (at xs) k m h) ((xs @ [(k, f)]) @ (m, True) # ys)"
      using heap_at_cut [of h xs k m f ys] assms(1) n by simp
    note J = heap_at_free_next [OF this]
    have "(case free_front m ys of (m, _) # zs \<Rightarrow> (m, True) # zs) = free_front m ys"
      by (cases "(m, ys)" rule: free_front.cases) auto
    with J False show ?thesis unfolding sp Let_def split_seg_def m_def by simp
  qed
qed

lemma heap_at_release:
  assumes "heap_at h (xs @ (n, f) # ys)"
  shows "heap_at (release (at xs) h) (free_seg xs n ys)"
proof -
  define h1 where "h1 = set_header (at xs) ((headers h (at xs))\<lparr>block_free := True\<rparr>) h"
  have a1: "heap_at h1 (xs @ (n, True) # ys)" unfolding h1_def by (rule heap_at_mark [OF assms])
  define h2 where "h2 = (let nx = block_next (headers h1 (at xs)) in
      if nx \<noteq> 0 \<and> block_free (headers h1 nx) then join_next (at xs) h1 else h1)"
  obtain m zs where ff: "free_front n ys = (m, True) # zs" by (cases "(n, ys)" rule: free_front.cases) auto
  have a2: "heap_at h2 (xs @ (m, True) # zs)"
    using heap_at_free_next [OF a1] by (simp add: h2_def Let_def ff)
  define p where "p = block_previous (headers h2 (at xs))"
  have p: "p = last_at 0 HEAP_BASE xs" using heap_at_header [OF a2] by (simp add: p_def)
  have r: "release (at xs) h = (if p \<noteq> 0 \<and> block_free (headers h2 p) then join_next p h2 else h2)"
    by (simp add: release_def Let_def h1_def h2_def p_def)
  show ?thesis
  proof (cases xs rule: rev_cases)
    case Nil
    then show ?thesis using a2 p r by (simp add: free_seg_def ff)
  next
    case (snoc us u)
    obtain q g where u: "u = (q, g)" by fastforce
    have pa: "p = at us" "p \<noteq> 0" using p snoc u by simp_all
    have a3: "heap_at h2 (us @ (q, g) # (m, True) # zs)" using a2 snoc u by simp
    have "block_free (headers h2 p) = g" using heap_at_header [OF a3] pa(1) by simp
    moreover have "free_front (q + SIZEOF_BLOCK + n) ys = (q + SIZEOF_BLOCK + m, True) # zs"
      using ff by (cases "(n, ys)" rule: free_front.cases) auto
    ultimately show ?thesis
      using a2 r pa heap_at_join [OF a3] snoc u by (cases g) (simp_all add: free_seg_def ff)
  qed
qed

section \<open>Walks over the links\<close>

text \<open>A walk from the first block visits the segments in order and stops at the first that
  satisfies the test, or at the end of the list.\<close>

fun seek :: "(nat \<Rightarrow> nat \<Rightarrow> bool \<Rightarrow> bool) \<Rightarrow> nat \<Rightarrow> seg list \<Rightarrow> nat" where
  "seek P a [] = 0"
| "seek P a ((n, f) # ss) = (if P a n f then a else seek P (a + SIZEOF_BLOCK + n) ss)"

lemma find_from_seek:
  "layout hs p a 0 ss \<Longrightarrow> 0 < a \<Longrightarrow>
     find_from hs q (if ss = [] then 0 else a) = Some (seek (\<lambda>a n f. a + SIZEOF_BLOCK = q \<and> \<not> f) a ss)"
proof (induction ss arbitrary: p a)
  case Nil
  then show ?case by (subst find_from.simps) simp
next
  case (Cons s ss)
  obtain n f where s: "s = (n, f)" by fastforce
  show ?case using Cons.prems Cons.IH [of a "a + SIZEOF_BLOCK + n"]
    by (subst find_from.simps) (simp add: s)
qed

lemma fit_from_seek:
  "layout hs p a 0 ss \<Longrightarrow> 0 < a \<Longrightarrow>
     fit_from hs k (if ss = [] then 0 else a) = Some (seek (\<lambda>a n f. f \<and> k \<le> n) a ss)"
proof (induction ss arbitrary: p a)
  case Nil
  then show ?case by (subst fit_from.simps) simp
next
  case (Cons s ss)
  obtain n f where s: "s = (n, f)" by fastforce
  show ?case using Cons.prems Cons.IH [of a "a + SIZEOF_BLOCK + n"]
    by (subst fit_from.simps) (simp add: s)
qed

lemma stats_from_sum:
  "layout hs p a 0 ss \<Longrightarrow> 0 < a \<Longrightarrow>
     stats_from hs (if ss = [] then 0 else a) st =
       Some (st\<lparr>used_bytes := used_bytes st + sum_list (map fst (filter (\<lambda>s. \<not> snd s) ss)),
                free_bytes := free_bytes st + sum_list (map fst (filter snd ss)),
                allocations := allocations st + length (filter (\<lambda>s. \<not> snd s) ss)\<rparr>)"
proof (induction ss arbitrary: p a st)
  case Nil
  then show ?case by (subst stats_from.simps) simp
next
  case (Cons s ss)
  obtain n f where s: "s = (n, f)" by fastforce
  show ?case using Cons.prems Cons.IH [of a "a + SIZEOF_BLOCK + n"]
    by (subst stats_from.simps) (cases f; simp add: s add.assoc add.commute add.left_commute)
qed

lemma seek_none: "0 < a \<Longrightarrow> seek P a ss = 0 \<Longrightarrow> xs @ (n, f) # ys = ss \<Longrightarrow> \<not> P (a + span xs) n f"
proof (induction ss arbitrary: a xs)
  case (Cons s ss)
  obtain m g where s: "s = (m, g)" by fastforce
  from Cons.prems have *: "\<not> P a m g" "seek P (a + SIZEOF_BLOCK + m) ss = 0"
    by (auto simp: s split: if_splits)
  show ?case
  proof (cases xs)
    case Nil
    then show ?thesis using Cons.prems(3) *(1) s by simp
  next
    case (Cons x us)
    then have "us @ (n, f) # ys = ss" "x = (m, g)" using Cons.prems(3) s by simp_all
    then show ?thesis using Cons.IH [OF _ *(2)] Cons by (simp add: add.assoc)
  qed
qed simp

lemma seek_some:
  assumes "seek P a ss \<noteq> 0"
  shows "\<exists>xs n f ys. ss = xs @ (n, f) # ys \<and> seek P a ss = a + span xs \<and> P (a + span xs) n f"
  using assms
proof (induction ss arbitrary: a)
  case (Cons s ss)
  obtain n f where s: "s = (n, f)" by fastforce
  show ?case
  proof (cases "P a n f")
    case True
    then show ?thesis by (intro exI [of _ "[]"]) (simp add: s)
  next
    case False
    then have "seek P (a + SIZEOF_BLOCK + n) ss \<noteq> 0" using Cons.prems by (simp add: s)
    from Cons.IH [OF this] obtain xs m g ys where "ss = xs @ (m, g) # ys"
        "seek P (a + SIZEOF_BLOCK + n) ss = a + SIZEOF_BLOCK + n + span xs" "P (a + SIZEOF_BLOCK + n + span xs) m g"
      by blast
    with False show ?thesis by (intro exI [of _ "(n, f) # xs"]) (auto simp: s add.assoc)
  qed
qed simp

section \<open>Well-formed segments and live payloads\<close>

definition segs_ok :: "seg list \<Rightarrow> bool" where
  "segs_ok ss \<longleftrightarrow>
     (\<forall>(n, f)\<in>set ss. HEAP_ALIGNMENT \<le> n \<and> HEAP_ALIGNMENT dvd n) \<and>
     successively (\<lambda>x y. \<not> (snd x \<and> snd y)) ss"

text \<open>The payloads handed out: address and capacity.\<close>

fun live :: "nat \<Rightarrow> seg list \<Rightarrow> (nat \<times> nat) set" where
  "live a [] = {}"
| "live a ((n, f) # ss) = (if f then {} else {(a + SIZEOF_BLOCK, n)}) \<union> live (a + SIZEOF_BLOCK + n) ss"

lemma live_append [simp]: "live a (xs @ ys) = live a xs \<union> live (a + span xs) ys"
  by (induction xs arbitrary: a rule: span.induct) (auto simp: add.assoc)

lemma live_bounds: "(p, m) \<in> live a ss \<Longrightarrow> a + SIZEOF_BLOCK \<le> p \<and> p + m \<le> a + span ss"
  by (induction ss arbitrary: a rule: span.induct) (fastforce split: if_splits)+

lemma live_apart:
  "(p, m) \<in> live a ss \<Longrightarrow> (q, k) \<in> live a ss \<Longrightarrow> (p, m) \<noteq> (q, k) \<Longrightarrow>
     p + m + SIZEOF_BLOCK \<le> q \<or> q + k + SIZEOF_BLOCK \<le> p"
proof (induction ss arbitrary: a rule: span.induct)
  case (2 n f ss)
  then show ?case
    using live_bounds [of p m "a + SIZEOF_BLOCK + n" ss] live_bounds [of q k "a + SIZEOF_BLOCK + n" ss]
    by (auto split: if_splits)
qed simp

lemma live_split: "(p, m) \<in> live a ss \<Longrightarrow> \<exists>xs ys. ss = xs @ (m, False) # ys \<and> p = a + span xs + SIZEOF_BLOCK"
proof (induction ss arbitrary: a rule: span.induct)
  case (2 n f ss)
  show ?case
  proof (cases "\<not> f \<and> (p, m) = (a + SIZEOF_BLOCK, n)")
    case True
    then show ?thesis by (intro exI [of _ "[]"] exI [of _ ss]) simp
  next
    case False
    then have "(p, m) \<in> live (a + SIZEOF_BLOCK + n) ss" using 2(2) by (auto split: if_splits)
    with 2(1) obtain xs ys where "ss = xs @ (m, False) # ys" "p = a + SIZEOF_BLOCK + n + span xs + SIZEOF_BLOCK" by blast
    then show ?thesis by (intro exI [of _ "(n, f) # xs"] exI [of _ ys]) simp
  qed
qed simp

lemma segs_ok_append: "segs_ok (xs @ ys) \<Longrightarrow> segs_ok xs \<and> segs_ok ys"
  by (auto simp: segs_ok_def successively_append_iff)

lemma span_dvd: "segs_ok ss \<Longrightarrow> HEAP_ALIGNMENT dvd span ss"
proof (induction ss rule: span.induct)
  case (2 n f ss)
  then have "HEAP_ALIGNMENT dvd span ss" "HEAP_ALIGNMENT dvd n"
    using segs_ok_append [of "[(n, f)]" ss] by (auto simp: segs_ok_def)
  moreover have "HEAP_ALIGNMENT dvd SIZEOF_BLOCK" by (simp add: heap_consts)
  ultimately show ?case by simp
qed simp

lemma live_aligned:
  assumes "segs_ok ss" and "(p, m) \<in> live HEAP_BASE ss"
  shows "HEAP_ALIGNMENT dvd p" and "HEAP_ALIGNMENT dvd m" and "0 < m"
proof -
  obtain xs ys where ss: "ss = xs @ (m, False) # ys" and p: "p = HEAP_BASE + span xs + SIZEOF_BLOCK"
    using live_split [OF assms(2)] by blast
  have "HEAP_ALIGNMENT dvd span xs" using segs_ok_append assms(1) ss span_dvd by blast
  then show "HEAP_ALIGNMENT dvd p" using p by (simp add: heap_consts)
  show "HEAP_ALIGNMENT dvd m" "0 < m" using assms(1) ss by (auto simp: segs_ok_def HEAP_ALIGNMENT_def)
qed

end
