(* ===== verification/Rum_Heap_Grow.thy ===== *)
theory Rum_Heap_Grow
  imports Rum_Heap_Inv
begin

text \<open>
  Growing the heap: pages are mapped one after the other behind the last mapped page. A grown
  heap owns the frames of its pages, no two pages share one; a refused growth gives every frame
  back and leaves every kernel translation as it was.
\<close>

section \<open>Pages and their frames\<close>

abbreviation (input) ktrans :: "machine \<Rightarrow> nat \<Rightarrow> nat option" where
  "ktrans m v \<equiv> paging_translate m Space_Kernel v"

definition pages_owned :: "machine \<Rightarrow> nat \<Rightarrow> bool" where
  "pages_owned m n \<longleftrightarrow>
     (\<forall>i<n. PAGE_SIZE dvd i \<longrightarrow> (\<exists>f\<in>data_frames m - set (dirs m). ktrans m (HEAP_BASE + i) = Some f)) \<and>
     (\<forall>i<n. \<forall>j<n. PAGE_SIZE dvd i \<longrightarrow> PAGE_SIZE dvd j \<longrightarrow>
        ktrans m (HEAP_BASE + i) = ktrans m (HEAP_BASE + j) \<longrightarrow> i = j)"

definition page_offsets :: "nat \<Rightarrow> nat \<Rightarrow> nat set" where
  "page_offsets lo hi = {i. lo \<le> i \<and> i < hi \<and> PAGE_SIZE dvd i}"

definition frames_in :: "machine \<Rightarrow> nat \<Rightarrow> nat \<Rightarrow> nat set" where
  "frames_in m lo hi = {f. \<exists>i\<in>page_offsets lo hi. ktrans m (HEAP_BASE + i) = Some f}"

lemma kernel_known: "kernel_inv m \<Longrightarrow> known_space m Space_Kernel"
  by (simp add: kernel_inv_def known_space_def)

lemma dvd_pages:
  assumes "PAGE_SIZE dvd i" and "PAGE_SIZE dvd j" and "i < j" shows "i + PAGE_SIZE \<le> j"
proof -
  have "PAGE_SIZE dvd j - i" using assms(1,2) by (rule dvd_diff_nat [rotated])
  then have "PAGE_SIZE \<le> j - i" using assms(3) by (intro dvd_imp_le) auto
  then show ?thesis using assms(3) by simp
qed

lemma page_offsets_Cons:
  assumes "PAGE_SIZE dvd lo" and "lo < hi"
  shows "page_offsets lo hi = insert lo (page_offsets (lo + PAGE_SIZE) hi)"
proof -
  have "i = lo \<or> lo + PAGE_SIZE \<le> i" if "lo \<le> i" "PAGE_SIZE dvd i" for i
    using dvd_pages [OF assms(1) that(2)] that(1) by linarith
  then show ?thesis using assms by (auto simp: page_offsets_def)
qed

lemma page_offsets_snoc:
  assumes "PAGE_SIZE dvd lo" and "PAGE_SIZE dvd hi" and "lo \<le> hi"
  shows "page_offsets lo (hi + PAGE_SIZE) = insert hi (page_offsets lo hi)"
proof -
  have "i = hi \<or> i < hi" if "i < hi + PAGE_SIZE" "PAGE_SIZE dvd i" for i
    using dvd_pages [OF assms(2) that(2)] that(1) by linarith
  then show ?thesis using assms by (auto simp: page_offsets_def)
qed

lemma frames_in_Cons:
  "PAGE_SIZE dvd lo \<Longrightarrow> lo < hi \<Longrightarrow> ktrans m (HEAP_BASE + lo) = Some f \<Longrightarrow>
     frames_in m lo hi = insert f (frames_in m (lo + PAGE_SIZE) hi)"
  by (auto simp: frames_in_def page_offsets_Cons)

lemma frames_in_snoc:
  "PAGE_SIZE dvd lo \<Longrightarrow> PAGE_SIZE dvd hi \<Longrightarrow> lo \<le> hi \<Longrightarrow> ktrans m (HEAP_BASE + hi) = Some f \<Longrightarrow>
     frames_in m lo (hi + PAGE_SIZE) = insert f (frames_in m lo hi)"
  by (auto simp: frames_in_def page_offsets_snoc)

lemma heap_page_div:
  assumes "PAGE_SIZE dvd i"
  shows "a div PAGE_SIZE = (HEAP_BASE + i) div PAGE_SIZE \<longleftrightarrow> HEAP_BASE + i \<le> a \<and> a < HEAP_BASE + i + PAGE_SIZE"
proof -
  obtain k where "i = PAGE_SIZE * k" using assms by (elim dvdE)
  moreover have "HEAP_BASE = PAGE_SIZE * 262144" by (simp add: heap_consts)
  ultimately have "HEAP_BASE + i = PAGE_SIZE * (262144 + k)" by (simp add: algebra_simps)
  then show ?thesis
    by (metis (no_types, lifting) PAGE_SIZE_pos(1) div_less_iff_less_mult dividend_less_times_div le_refl
        less_eq_div_iff_mult_less_eq mult.commute nonzero_mult_div_cancel_left PAGE_SIZE_pos(2) antisym_conv
        div_nat_eqI mult_Suc_right add.commute)
qed

lemma heap_window:
  assumes "PAGE_SIZE dvd i" and "i < HEAP_LIMIT"
  shows "memory_kernel_mapping_range (HEAP_BASE + i) PAGE_SIZE" and "(HEAP_BASE + i) mod PAGE_SIZE = 0"
    and "HEAP_BASE + i < RUM_USER_BASE"
  using assms by (auto simp: memory_kernel_mapping_range_def memory_range_contains_def heap_consts)

text \<open>A frame the allocator took for data, and one it gets back.\<close>

lemma kernel_inv_pm:
  assumes "kernel_inv m" and "pmm_inv p" and "\<forall>d\<in>set (dirs m). d \<in> frames (page_set (allocated p))"
    and "kernel_tables m \<subseteq> frames (page_set (allocated p))"
  shows "kernel_inv (m\<lparr>pm := p\<rparr>)"
proof -
  have "kernel_tables (m\<lparr>pm := p\<rparr>) = kernel_tables m" "taken (m\<lparr>pm := p\<rparr>) = frames (page_set (allocated p))"
    by (simp_all add: kernel_tables_def taken_def)
  then show ?thesis using assms unfolding kernel_inv_def by auto
qed

lemma allocate_frame_data:
  assumes "kernel_inv m" and "allocate_frame m = (f, m1)"
  shows "kernel_inv m1" and "dirs m1 = dirs m" and "halted m1 = halted m" and "ktrans m1 v = ktrans m v"
    and "f = 0 \<Longrightarrow> data_frames m1 = data_frames m"
    and "f \<noteq> 0 \<Longrightarrow> f \<notin> data_frames m \<and> f \<notin> set (dirs m) \<and> data_frames m1 = insert f (data_frames m)"
proof -
  have inv: "pmm_inv (pm m)" using assms(1) by (simp add: kernel_inv_def)
  note law = allocate_frame_law [OF inv assms(2)]
  from law(1) obtain p where m1: "m1 = m\<lparr>pm := p\<rparr>" by blast
  have t: "taken m \<subseteq> taken m1" using law(3,4) by (cases "f = 0") auto
  then have "taken m \<subseteq> frames (page_set (allocated p))" by (simp add: m1 taken_def)
  then show "kernel_inv m1" unfolding m1
    using assms(1) law(2) by (intro kernel_inv_pm) (auto simp: m1 kernel_inv_def)
  show "dirs m1 = dirs m" "halted m1 = halted m" by (simp_all add: m1)
  show "ktrans m1 v = ktrans m v"
    by (simp add: m1 paging_translate_def known_space_def space_of_def entries_words Let_def)
  have kt: "kernel_tables m1 = kernel_tables m" by (simp add: m1 kernel_tables_def)
  show "f = 0 \<Longrightarrow> data_frames m1 = data_frames m" using law(3) kt by (simp add: data_frames_def)
  assume "f \<noteq> 0"
  moreover have "kernel_tables m \<subseteq> taken m" "set (dirs m) \<subseteq> taken m" using assms(1) by (auto simp: kernel_inv_def)
  ultimately show "f \<notin> data_frames m \<and> f \<notin> set (dirs m) \<and> data_frames m1 = insert f (data_frames m)"
    using law(4) kt by (auto simp: data_frames_def)
qed

lemma free_frame_data:
  assumes "kernel_inv m" and "f \<in> data_frames m" and "f \<notin> set (dirs m)"
  defines "m1 \<equiv> m\<lparr>pm := snd (pmm_free_page f (pm m))\<rparr>"
  shows "kernel_inv m1" and "ktrans m1 v = ktrans m v" and "data_frames m1 = data_frames m - {f}"
    and "dirs m1 = dirs m" and "halted m1 = halted m"
proof -
  have inv: "pmm_inv (pm m)" using assms(1) by (simp add: kernel_inv_def)
  obtain ok p where p: "pmm_free_page f (pm m) = (ok, p)" by fastforce
  from fr.release_law [OF inv p] assms(2) have law: "pmm_inv p" "frames (page_set (allocated p)) = taken m - {f}"
    by (auto simp: taken_def data_frames_def)
  have m1: "m1 = m\<lparr>pm := p\<rparr>" using p by (simp add: m1_def)
  show "kernel_inv m1" unfolding m1
    using assms(1-3) law by (intro kernel_inv_pm) (auto simp: kernel_inv_def data_frames_def)
  show "ktrans m1 v = ktrans m v"
    by (simp add: m1 paging_translate_def known_space_def space_of_def entries_words Let_def)
  have "kernel_tables m1 = kernel_tables m" "taken m1 = taken m - {f}"
    using law(2) by (simp_all add: m1 kernel_tables_def taken_def)
  then show "data_frames m1 = data_frames m - {f}" by (auto simp: data_frames_def)
  show "dirs m1 = dirs m" "halted m1 = halted m" by (simp_all add: m1)
qed

section \<open>One page\<close>

lemma new_kernel_table_kernel_space: "kernel_space (snd (new_kernel_table i s)) = kernel_space s"
  by (auto simp: new_kernel_table_def allocate_frame_def Let_def split: prod.splits)

lemma paging_map_page_kernel_space: "paging_map_page r v f fl s = (ok, s') \<Longrightarrow> kernel_space s' = kernel_space s"
  by (auto simp: paging_map_page_def Let_def new_kernel_table_kernel_space split: if_splits)

lemma free_or_halt_kernel_space: "kernel_space (free_or_halt f s) = kernel_space s"
  by (simp add: free_or_halt_def cpu_halt_def Let_def split: prod.splits)

lemma reclaim_kernel_space: "kernel_space (reclaim_empty_kernel_table i s) = kernel_space s"
  by (simp add: reclaim_empty_kernel_table_def Let_def reload_directory_def free_or_halt_kernel_space)

lemma paging_unmap_page_kernel_space: "paging_unmap_page r v s = (fo, s') \<Longrightarrow> kernel_space s' = kernel_space s"
  by (auto simp: paging_unmap_page_def Let_def reclaim_kernel_space split: if_splits)


text \<open>What one mapped page changes, and what unmapping it gives back.\<close>

lemma translate_none_page:
  assumes "a div PAGE_SIZE = b div PAGE_SIZE" and "paging_translate m r b = None"
  shows "paging_translate m r a = None"
proof -
  have "dir_index x = x div PAGE_SIZE div 1024" "page_index x = x div PAGE_SIZE mod 1024" for x
    by (simp_all add: dir_index_def page_index_def layout_defs div_mult2_eq [symmetric])
  then have "dir_index a = dir_index b" "page_index a = page_index b" using assms(1) by simp_all
  then show ?thesis using assms(2) by (auto simp: paging_translate_def Let_def split: if_splits)
qed

lemma map_heap_page:
  assumes "kernel_inv m" and "f \<in> data_frames m" and "PAGE_SIZE dvd i" and "i < HEAP_LIMIT"
    and "paging_map_page (paging_kernel_space m) (HEAP_BASE + i) f PAGING_WRITABLE m = (ok, m1)"
  shows "kernel_inv m1" and "halted m1 = halted m" and "dirs m1 = dirs m" and "data_frames m1 = data_frames m"
    and "ok \<Longrightarrow> HEAP_BASE + i \<le> b \<Longrightarrow> b < HEAP_BASE + i + PAGE_SIZE \<Longrightarrow> ktrans m b = None"
    and "a < RUM_USER_BASE \<Longrightarrow> ktrans m1 a =
           (if ok \<and> HEAP_BASE + i \<le> a \<and> a < HEAP_BASE + i + PAGE_SIZE then Some (f + a mod PAGE_SIZE) else ktrans m a)"
proof -
  have ks: "paging_kernel_space m = Space_Kernel" using assms(1) by (simp add: paging_kernel_space_def kernel_inv_def)
  note R = map_page_translations [OF assms(1) assms(5) [unfolded ks]]
  note mp = paging_map_page_result [OF assms(1), of Space_Kernel "HEAP_BASE + i" f PAGING_WRITABLE]
  show "kernel_inv m1" "halted m1 = halted m" using R by blast+
  show "ktrans m b = None" if "ok" "HEAP_BASE + i \<le> b" "b < HEAP_BASE + i + PAGE_SIZE"
  proof -
    have "b div PAGE_SIZE = (HEAP_BASE + i) div PAGE_SIZE" using that heap_page_div [OF assms(3)] by simp
    then show ?thesis using R that(1) translate_none_page by blast
  qed
  have "spaces m1 = spaces m" using mp assms(5) ks by (simp add: map_result_def Let_def)
  moreover have "kernel_space m1 = kernel_space m" using assms(5) by (rule paging_map_page_kernel_space)
  ultimately show "dirs m1 = dirs m" by (simp add: dirs_def)
  show "data_frames m1 = data_frames m" by (rule map_page_data_frames [OF assms(1,5)])
  show "a < RUM_USER_BASE \<Longrightarrow> ktrans m1 a =
      (if ok \<and> HEAP_BASE + i \<le> a \<and> a < HEAP_BASE + i + PAGE_SIZE then Some (f + a mod PAGE_SIZE) else ktrans m a)"
    using R kernel_known [OF assms(1)] by (simp add: heap_page_div [OF assms(3)])
qed

lemma unmap_heap_page:
  assumes "kernel_inv m" and "PAGE_SIZE dvd i" and "i < HEAP_LIMIT" and "ktrans m (HEAP_BASE + i) = Some f"
    and "paging_unmap_page (paging_kernel_space m) (HEAP_BASE + i) m = (fo, m1)"
  shows "kernel_inv m1" and "halted m1 = halted m" and "dirs m1 = dirs m" and "data_frames m1 = data_frames m"
    and "fo = Some f"
    and "a < RUM_USER_BASE \<Longrightarrow> ktrans m1 a =
           (if HEAP_BASE + i \<le> a \<and> a < HEAP_BASE + i + PAGE_SIZE then None else ktrans m a)"
proof -
  have ks: "paging_kernel_space m = Space_Kernel" using assms(1) by (simp add: paging_kernel_space_def kernel_inv_def)
  note R = unmap_page_translations [OF assms(1) assms(5) [unfolded ks]]
  note um = paging_unmap_page_result [OF assms(1), of Space_Kernel "HEAP_BASE + i"]
  note win = heap_window [OF assms(2,3)]
  show "kernel_inv m1" "halted m1 = halted m" using R by blast+
  have "fo \<noteq> None" using R win assms(4) by simp
  then show fo: "fo = Some f" using R win(2) assms(4) by auto
  have "spaces m1 = spaces m" using um assms(5) ks by (simp add: unmap_result_def Let_def)
  moreover have "kernel_space m1 = kernel_space m" using assms(5) by (rule paging_unmap_page_kernel_space)
  ultimately show "dirs m1 = dirs m" by (simp add: dirs_def)
  show "data_frames m1 = data_frames m" by (rule unmap_page_data_frames [OF assms(1,5)])
  show "a < RUM_USER_BASE \<Longrightarrow> ktrans m1 a =
      (if HEAP_BASE + i \<le> a \<and> a < HEAP_BASE + i + PAGE_SIZE then None else ktrans m a)"
    using R kernel_known [OF assms(1)] fo by (simp add: heap_page_div [OF assms(2)])
qed

section \<open>The loops\<close>

definition heap_range :: "nat \<Rightarrow> nat \<Rightarrow> nat \<Rightarrow> bool" where
  "heap_range lo hi a \<longleftrightarrow> HEAP_BASE + lo \<le> a \<and> a < HEAP_BASE + hi"

text \<open>Mapping pages from offset \<open>lo\<close> up to \<open>hi\<close>: a machine with the pages, and what it gained.\<close>

definition grown :: "machine \<Rightarrow> machine \<Rightarrow> nat \<Rightarrow> nat \<Rightarrow> bool" where
  "grown m m' lo hi \<longleftrightarrow>
     kernel_inv m' \<and> halted m' = halted m \<and> dirs m' = dirs m \<and> pages_owned m' hi \<and>
     data_frames m \<subseteq> data_frames m' \<and> data_frames m' - frames_in m' lo hi = data_frames m \<and>
     (\<forall>a<RUM_USER_BASE. if heap_range lo hi a then ktrans m' a \<noteq> None else ktrans m' a = ktrans m a) \<and>
     (\<forall>a. heap_range lo hi a \<longrightarrow> ktrans m a = None)"

lemma grown_refl:
  assumes "kernel_inv m'" "halted m' = halted m" "dirs m' = dirs m" "pages_owned m' lo"
    and "data_frames m' = data_frames m" and "\<forall>a<RUM_USER_BASE. ktrans m' a = ktrans m a"
  shows "grown m m' lo lo"
  using assms by (auto simp: grown_def heap_range_def frames_in_def page_offsets_def)

lemma pages_owned_same:
  assumes "pages_owned m n" and "dirs m' = dirs m" and "data_frames m \<subseteq> data_frames m'"
    and "\<forall>a<HEAP_BASE + n. HEAP_BASE \<le> a \<longrightarrow> ktrans m' a = ktrans m a"
  shows "pages_owned m' n"
  using assms unfolding pages_owned_def by (auto 4 3)

lemma pages_owned_snoc:
  assumes "pages_owned m n" and "PAGE_SIZE dvd n" and "f \<notin> data_frames m" and "f \<notin> set (dirs m)" and "dirs m' = dirs m"
    and "data_frames m' = insert f (data_frames m)" and "ktrans m' (HEAP_BASE + n) = Some f"
    and "\<forall>a<HEAP_BASE + n. HEAP_BASE \<le> a \<longrightarrow> ktrans m' a = ktrans m a"
  shows "pages_owned m' (n + PAGE_SIZE)"
proof -
  have last: "i = n" if "PAGE_SIZE dvd i" "i < n + PAGE_SIZE" "\<not> i < n" for i
    using dvd_pages [OF assms(2) that(1)] that by linarith
  have own: "pages_owned m' n" using pages_owned_same [OF assms(1,5) _ assms(8)] assms(6) by blast
  have old: "\<exists>g\<in>data_frames m. ktrans m' (HEAP_BASE + i) = Some g" if "i < n" "PAGE_SIZE dvd i" for i
    using assms(1,8) that unfolding pages_owned_def by fastforce
  have new: "ktrans m' (HEAP_BASE + i) \<noteq> Some f" if "i < n" "PAGE_SIZE dvd i" for i
    using old [OF that] assms(3) by auto
  have "\<exists>g\<in>data_frames m' - set (dirs m'). ktrans m' (HEAP_BASE + i) = Some g"
    if "i < n + PAGE_SIZE" "PAGE_SIZE dvd i" for i
    using own last [OF that(2,1)] that assms(4-7) unfolding pages_owned_def by (cases "i < n") auto
  moreover have "i = j" if "i < n + PAGE_SIZE" "j < n + PAGE_SIZE" "PAGE_SIZE dvd i" "PAGE_SIZE dvd j"
      "ktrans m' (HEAP_BASE + i) = ktrans m' (HEAP_BASE + j)" for i j
    using own last [OF that(3,1)] last [OF that(4,2)] that new assms(7)
    unfolding pages_owned_def by (cases "i < n"; cases "j < n") metis+
  ultimately show ?thesis unfolding pages_owned_def by blast
qed

lemma grown_step:
  assumes "grown m2 m' (lo + PAGE_SIZE) hi" and "PAGE_SIZE dvd lo" and "lo + PAGE_SIZE \<le> hi" and "hi \<le> HEAP_LIMIT"
    and "kernel_inv m" and "halted m2 = halted m" and "dirs m2 = dirs m" and "f \<notin> data_frames m"
    and "data_frames m2 = insert f (data_frames m)" and "\<forall>a. heap_range lo (lo + PAGE_SIZE) a \<longrightarrow> ktrans m a = None"
    and tr: "\<forall>a<RUM_USER_BASE. ktrans m2 a =
           (if heap_range lo (lo + PAGE_SIZE) a then Some (f + a mod PAGE_SIZE) else ktrans m a)"
  shows "grown m m' lo hi"
proof -
  have lt: "lo < hi" "lo < HEAP_LIMIT" using assms(3,4) PAGE_SIZE_pos(1) by linarith+
  note win = heap_window [OF assms(2) lt(2)]
  have g: "\<forall>a<RUM_USER_BASE. if heap_range (lo + PAGE_SIZE) hi a then ktrans m' a \<noteq> None else ktrans m' a = ktrans m2 a"
    using assms(1) by (simp add: grown_def)
  have "ktrans m2 (HEAP_BASE + lo) = Some f" using tr win by (simp add: heap_range_def)
  then have at: "ktrans m' (HEAP_BASE + lo) = Some f" using g win(3) by (simp add: heap_range_def)
  have data: "data_frames m' - frames_in m' lo hi = data_frames m"
    using assms(1,8,9) unfolding frames_in_Cons [OF assms(2) lt(1) at] grown_def by auto
  have none: "ktrans m a = None" if "heap_range lo hi a" for a
  proof (cases "heap_range lo (lo + PAGE_SIZE) a")
    case False
    then have a: "heap_range (lo + PAGE_SIZE) hi a" using that by (auto simp: heap_range_def)
    then have "ktrans m2 a = None" using assms(1) by (simp add: grown_def)
    moreover have "a < RUM_USER_BASE" using that assms(4) by (auto simp: heap_range_def heap_consts)
    ultimately show ?thesis using tr False by simp
  qed (use assms(10) in simp)
  have "if heap_range lo hi a then ktrans m' a \<noteq> None else ktrans m' a = ktrans m a" if "a < RUM_USER_BASE" for a
    using g tr that assms(2,3) by (auto simp: heap_range_def split: if_splits)
  then show ?thesis
    using assms(1,6,7,9) data none unfolding grown_def by auto
qed

text \<open>One round of the mapping loop, without a frame, with a page already mapped, and with success.\<close>

lemma grow_no_frame:
  assumes "kernel_inv m" and "pages_owned m i" and "allocate_frame m = (0, m1)"
  shows "grown m m1 i i"
  using allocate_frame_data [OF assms(1,3)] pages_owned_same [OF assms(2)] by (intro grown_refl) auto

lemma grow_refused:
  assumes "kernel_inv m" and "pages_owned m i" and "PAGE_SIZE dvd i" and "i < HEAP_LIMIT"
    and "allocate_frame m = (f, m1)" and "f \<noteq> 0"
    and "paging_map_page (paging_kernel_space m1) (HEAP_BASE + i) f PAGING_WRITABLE m1 = (False, m2)"
  shows "grown m (m2\<lparr>pm := snd (pmm_free_page f (pm m2))\<rparr>) i i"
proof -
  let ?m = "m2\<lparr>pm := snd (pmm_free_page f (pm m2))\<rparr>"
  note A = allocate_frame_data [OF assms(1,5)]
  have fd: "f \<in> data_frames m1" using A(6) assms(6) by simp
  note M = map_heap_page [OF A(1) fd assms(3,4,7)]
  have "f \<in> data_frames m2" "f \<notin> set (dirs m2)" using fd M(3,4) A(2,6) assms(6) by auto
  note F = free_frame_data [OF M(1) this]
  have data: "data_frames ?m = data_frames m" using F(3) M(4) A(6) assms(6) by auto
  have tr: "\<forall>a<RUM_USER_BASE. ktrans ?m a = ktrans m a" using F(2) M(6) A(4) by simp
  have "a < RUM_USER_BASE" if "a < HEAP_BASE + i" for a using that heap_window(3) [OF assms(3,4)] by simp
  then have "pages_owned ?m i"
    using pages_owned_same [OF assms(2), of ?m] F M(3) A(2) tr data by simp
  then show ?thesis using F M A data tr by (intro grown_refl) auto
qed

lemma grow_mapped:
  assumes "kernel_inv m" and "pages_owned m i" and "PAGE_SIZE dvd i" and "i < HEAP_LIMIT"
    and "allocate_frame m = (f, m1)" and "f \<noteq> 0"
    and "paging_map_page (paging_kernel_space m1) (HEAP_BASE + i) f PAGING_WRITABLE m1 = (True, m2)"
  shows "kernel_inv m2" and "pages_owned m2 (i + PAGE_SIZE)" and "halted m2 = halted m" and "dirs m2 = dirs m"
    and "f \<notin> data_frames m" and "data_frames m2 = insert f (data_frames m)"
    and "\<forall>a. heap_range i (i + PAGE_SIZE) a \<longrightarrow> ktrans m a = None"
    and "\<forall>a<RUM_USER_BASE. ktrans m2 a =
           (if heap_range i (i + PAGE_SIZE) a then Some (f + a mod PAGE_SIZE) else ktrans m a)"
proof -
  note A = allocate_frame_data [OF assms(1,5)]
  have fd: "f \<in> data_frames m1" using A(6) assms(6) by simp
  note M = map_heap_page [OF A(1) fd assms(3,4,7)]
  show "kernel_inv m2" "halted m2 = halted m" "dirs m2 = dirs m" "f \<notin> data_frames m"
    "data_frames m2 = insert f (data_frames m)" "\<forall>a. heap_range i (i + PAGE_SIZE) a \<longrightarrow> ktrans m a = None"
    using M(1-4) A(2-3,6) M(5) A(4) assms(6) by (auto simp: heap_range_def add.assoc)
  show tr: "\<forall>a<RUM_USER_BASE. ktrans m2 a =
      (if heap_range i (i + PAGE_SIZE) a then Some (f + a mod PAGE_SIZE) else ktrans m a)"
    using M(6) A(4) by (simp add: heap_range_def add.assoc)
  have low: "a < RUM_USER_BASE" if "a < HEAP_BASE + i" for a using that heap_window(3) [OF assms(3,4)] by simp
  have "ktrans m2 (HEAP_BASE + i) = Some f" using tr heap_window [OF assms(3,4)] by (simp add: heap_range_def)
  then show "pages_owned m2 (i + PAGE_SIZE)"
    using pages_owned_snoc [OF assms(2,3), of f m2] M(3,4) A(2,6) assms(6) tr low by (simp add: heap_range_def)
qed

lemma grow_map_grown:
  assumes "kernel_inv m" and "pages_owned m (off + added)" and "PAGE_SIZE dvd off" and "PAGE_SIZE dvd added"
    and "PAGE_SIZE dvd growth" and "added \<le> growth" and "off + growth \<le> HEAP_LIMIT"
    and "grow_map (HEAP_BASE + off) growth added m = (added', m')"
  shows "grown m m' (off + added) (off + added') \<and> added \<le> added' \<and> added' \<le> growth \<and> PAGE_SIZE dvd added'"
  using assms
proof (induction "HEAP_BASE + off" growth added m rule: grow_map.induct)
  case (1 growth added m)
  show ?case
  proof (cases "added < growth")
    case False
    then have "added' = added" "m' = m" "added = growth"
      using "1.prems"(6,8) by (simp_all add: grow_map.simps [of _ growth])
    then show ?thesis using "1.prems" by (auto intro: grown_refl)
  next
    case True
    obtain f m1 where al: "allocate_frame m = (f, m1)" by fastforce
    define i where "i = off + added"
    obtain ok m2 where mp: "paging_map_page (paging_kernel_space m1) (HEAP_BASE + i) f PAGING_WRITABLE m1 = (ok, m2)"
      by fastforce
    have i: "PAGE_SIZE dvd i" "i < HEAP_LIMIT" "HEAP_BASE + off + added = HEAP_BASE + i" "pages_owned m i"
      using "1.prems"(2-7) True by (auto simp: i_def)
    note eq = "1.prems"(8) [unfolded grow_map.simps [of _ growth added m] al i(3)]
    consider "f = 0" | "f \<noteq> 0" "\<not> ok" | "f \<noteq> 0" "ok" by blast
    then show ?thesis
    proof cases
      case 1
      then show ?thesis
        using eq True grow_no_frame [OF "1.prems"(1) i(4)] al "1.prems"(4,6) by (auto simp: i_def)
    next
      case 2
      then show ?thesis
        using eq True mp grow_refused [OF "1.prems"(1) i(4,1,2) al] "1.prems"(4,6) by (auto simp: i_def)
    next
      case 3
      have rec: "grow_map (HEAP_BASE + off) growth (added + PAGE_SIZE) m2 = (added', m')" using eq True 3 mp by simp
      note M = grow_mapped [OF "1.prems"(1) i(4,1,2) al 3(1) mp [unfolded eqTrueI [OF 3(2)]]]
      have own: "pages_owned m2 (off + (added + PAGE_SIZE))" using M(2) by (simp add: i_def add.assoc)
      have le: "added + PAGE_SIZE \<le> growth" using dvd_pages [OF "1.prems"(4,5) True] .
      have d: "PAGE_SIZE dvd added + PAGE_SIZE" using "1.prems"(4) by simp
      have "grown m2 m' (off + (added + PAGE_SIZE)) (off + added') \<and> added + PAGE_SIZE \<le> added' \<and>
          added' \<le> growth \<and> PAGE_SIZE dvd added'"
        using "1.hyps" [OF True al [symmetric] refl 3(1) _ refl 3(2) M(1) own "1.prems"(3) d "1.prems"(5) le "1.prems"(7) rec]
          mp i(3) by simp
      then show ?thesis
        using grown_step [of m2 m' i "off + added'" m f] i "1.prems"(1,7) M by (auto simp: i_def add.assoc)
    qed
  qed
qed

text \<open>Undoing a partial growth.\<close>

definition shrunk :: "machine \<Rightarrow> machine \<Rightarrow> nat \<Rightarrow> nat \<Rightarrow> bool" where
  "shrunk m m' lo hi \<longleftrightarrow>
     kernel_inv m' \<and> halted m' = halted m \<and> dirs m' = dirs m \<and>
     data_frames m' = data_frames m - frames_in m lo hi \<and>
     (\<forall>a<RUM_USER_BASE. ktrans m' a = (if heap_range lo hi a then None else ktrans m a))"

lemma pages_owned_less: "pages_owned m n \<Longrightarrow> k \<le> n \<Longrightarrow> pages_owned m k"
  unfolding pages_owned_def by (meson order_less_le_trans)

lemma grow_undo_page:
  assumes "kernel_inv m" and "pages_owned m (i + PAGE_SIZE)" and "PAGE_SIZE dvd i" and "i < HEAP_LIMIT"
    and "paging_unmap_page (paging_kernel_space m) (HEAP_BASE + i) m = (fo, m1)"
    and m2: "m2 = (case fo of Some f \<Rightarrow> m1\<lparr>pm := snd (pmm_free_page f (pm m1))\<rparr> | None \<Rightarrow> m1)"
  shows "\<exists>f. ktrans m (HEAP_BASE + i) = Some f \<and> data_frames m2 = data_frames m - {f}"
    and "kernel_inv m2" and "halted m2 = halted m" and "dirs m2 = dirs m" and "pages_owned m2 i"
    and "\<forall>a<RUM_USER_BASE. ktrans m2 a = (if heap_range i (i + PAGE_SIZE) a then None else ktrans m a)"
proof -
  obtain f where f: "f \<in> data_frames m" "f \<notin> set (dirs m)" "ktrans m (HEAP_BASE + i) = Some f"
    using assms(2,3) unfolding pages_owned_def by (metis DiffD1 DiffD2 PAGE_SIZE_pos(1) less_add_same_cancel1)
  note U = unmap_heap_page [OF assms(1,3,4) f(3) assms(5)]
  have "f \<in> data_frames m1" "f \<notin> set (dirs m1)" using f U by simp_all
  note F = free_frame_data [OF U(1) this]
  have m2f: "m2 = m1\<lparr>pm := snd (pmm_free_page f (pm m1))\<rparr>" using m2 U(5) by simp
  show "kernel_inv m2" "halted m2 = halted m" "dirs m2 = dirs m" using F U by (simp_all add: m2f)
  have data: "data_frames m2 = data_frames m - {f}" using F(3) U(4) by (simp add: m2f)
  then show "\<exists>f. ktrans m (HEAP_BASE + i) = Some f \<and> data_frames m2 = data_frames m - {f}" using f(3) by blast
  show tr: "\<forall>a<RUM_USER_BASE. ktrans m2 a = (if heap_range i (i + PAGE_SIZE) a then None else ktrans m a)"
    using F(2) U(6) by (simp add: m2f heap_range_def add.assoc)
  have same: "ktrans m2 (HEAP_BASE + j) = ktrans m (HEAP_BASE + j)" if "j < i" for j
    using that tr heap_window(3) [OF assms(3,4)] by (simp add: heap_range_def)
  have "\<exists>g\<in>data_frames m2 - set (dirs m2). ktrans m2 (HEAP_BASE + j) = Some g" if j: "j < i" "PAGE_SIZE dvd j" for j
  proof -
    obtain g where g: "g \<in> data_frames m - set (dirs m)" "ktrans m (HEAP_BASE + j) = Some g"
      using assms(2) j unfolding pages_owned_def by (meson trans_less_add1)
    have "g \<noteq> f" using assms(2,3) j g(2) f(3) unfolding pages_owned_def
      by (metis PAGE_SIZE_pos(1) less_add_same_cancel1 nat_neq_iff trans_less_add1)
    then show ?thesis using g same [OF j(1)] data \<open>dirs m2 = dirs m\<close> by auto
  qed
  then show "pages_owned m2 i"
    using pages_owned_less [OF assms(2), of i] same unfolding pages_owned_def by simp
qed

lemma grow_undo_shrunk:
  assumes "kernel_inv m" and "pages_owned m (off + added)" and "PAGE_SIZE dvd off" and "PAGE_SIZE dvd added"
    and "off + added \<le> HEAP_LIMIT"
  shows "shrunk m (grow_undo (HEAP_BASE + off) added m) off (off + added)"
  using assms
proof (induction "HEAP_BASE + off" added m rule: grow_undo.induct)
  case (1 added m)
  show ?case
  proof (cases "added = 0")
    case True
    then show ?thesis using "1.prems"(1)
      by (auto simp: grow_undo.simps shrunk_def heap_range_def frames_in_def page_offsets_def)
  next
    case False
    define k where "k = added - PAGE_SIZE"
    have "0 < added" using False by simp
    from dvd_pages [OF _ "1.prems"(4) this] have k: "added = k + PAGE_SIZE" by (simp add: k_def)
    then have d: "PAGE_SIZE dvd k" using "1.prems"(4) by simp
    define i where "i = off + k"
    have "i < off + added" using k by (simp add: i_def)
    then have "i < HEAP_LIMIT" using "1.prems"(5) by linarith
    then have i: "PAGE_SIZE dvd i" "i < HEAP_LIMIT" "off \<le> i" "HEAP_BASE + off + k = HEAP_BASE + i" "off + added = i + PAGE_SIZE"
      using "1.prems"(3,5) d k by (auto simp: i_def)
    obtain fo m1 where un: "paging_unmap_page (paging_kernel_space m) (HEAP_BASE + i) m = (fo, m1)" by fastforce
    define m2 where "m2 = (case fo of Some f \<Rightarrow> m1\<lparr>pm := snd (pmm_free_page f (pm m1))\<rparr> | None \<Rightarrow> m1)"
    note P = grow_undo_page [OF "1.prems"(1) "1.prems"(2) [unfolded i(5)] i(1,2) un m2_def]
    from P(1) obtain f where f: "ktrans m (HEAP_BASE + i) = Some f" "data_frames m2 = data_frames m - {f}" by blast
    have eq: "grow_undo (HEAP_BASE + off) added m = grow_undo (HEAP_BASE + off) k m2"
      using False un by (subst grow_undo.simps) (simp add: k_def [symmetric] i(4) m2_def Let_def)
    have "shrunk m2 (grow_undo (HEAP_BASE + off) k m2) off i"
      using "1.hyps" [OF False k_def un [symmetric, folded i(4)] refl, folded m2_def, OF P(2)] i(2) P(5) "1.prems"(3) d
      by (simp add: i_def)
    moreover have "frames_in m off (off + added) = insert f (frames_in m off i)"
      unfolding i(5) by (rule frames_in_snoc [OF "1.prems"(3) i(1,3) f(1)])
    moreover have "frames_in m2 off i = frames_in m off i"
      using P(6) heap_window(3) [OF i(1,2)] by (auto simp: frames_in_def page_offsets_def heap_range_def)
    moreover have "heap_range off (off + added) a \<longleftrightarrow> heap_range off i a \<or> heap_range i (i + PAGE_SIZE) a" for a
      using i(3) unfolding i(5) by (auto simp: heap_range_def)
    ultimately show ?thesis
      unfolding eq shrunk_def using P(3,4,6) f(2) by auto
  qed
qed

section \<open>The heap invariant\<close>

definition heap_ok :: "heap \<Rightarrow> seg list \<Rightarrow> bool" where
  "heap_ok h ss \<longleftrightarrow>
     heap_at h ss \<and> segs_ok ss \<and> span ss \<le> HEAP_LIMIT \<and> PAGE_SIZE dvd span ss \<and>
     kernel_inv (km h) \<and> pages_owned (km h) (span ss)"

text \<open>A machine on which growth was tried and undone.\<close>

definition restored :: "machine \<Rightarrow> machine \<Rightarrow> bool" where
  "restored m m' \<longleftrightarrow>
     kernel_inv m' \<and> halted m' = halted m \<and> dirs m' = dirs m \<and> data_frames m' = data_frames m \<and>
     (\<forall>a<RUM_USER_BASE. ktrans m' a = ktrans m a)"

lemma grown_shrunk_restored: "grown m m1 lo hi \<Longrightarrow> shrunk m1 m2 lo hi \<Longrightarrow> restored m m2"
  by (auto simp: restored_def grown_def shrunk_def)

definition grow_segs :: "nat \<Rightarrow> seg list \<Rightarrow> seg list" where
  "grow_segs n ss =
     (if ss \<noteq> [] \<and> snd (last ss) then butlast ss @ [(fst (last ss) + n, True)]
      else ss @ [(n - SIZEOF_BLOCK, True)])"

lemma heap_at_grow_block:
  assumes "heap_at h ss" and "SIZEOF_BLOCK \<le> n" and "h1 = grow_block n h"
  shows "heap_at (h1\<lparr>heap_mapped := heap_mapped h1 + n\<rparr>) (grow_segs n ss)"
proof (cases ss rule: rev_cases)
  case Nil
  then show ?thesis using assms by (simp add: heap_at_def grow_block_def grow_segs_def Let_def)
next
  case (snoc us u)
  obtain k f where u: "u = (k, f)" by fastforce
  have a: "heap_at h (us @ (k, f) # [])" using assms(1) snoc u by simp
  note hd = heap_at_header [OF a]
  have l: "heap_last h = at us" "heap_last h \<noteq> 0" "heap_mapped h = span us + (SIZEOF_BLOCK + k)"
      "heap_first h = HEAP_BASE" "layout (headers h) 0 HEAP_BASE (at us) us"
    using a by (simp_all add: heap_at_def layout_focus)
  show ?thesis
  proof (cases f)
    case True
    then show ?thesis using hd l assms(3) unfolding heap_at_def
      by (simp add: grow_block_def grow_segs_def snoc u layout_focus)
  next
    case False
    then show ?thesis using hd l assms(2,3) unfolding heap_at_def
      by (simp add: grow_block_def grow_segs_def snoc u layout_append Let_def)
  qed
qed

lemma segs_ok_append_iff:
  "segs_ok (xs @ ys) \<longleftrightarrow>
     segs_ok xs \<and> segs_ok ys \<and> (xs = [] \<or> ys = [] \<or> \<not> (snd (last xs) \<and> snd (hd ys)))"
  by (auto simp: segs_ok_def successively_append_iff)

lemma segs_ok_Cons_iff:
  "segs_ok ((n, f) # ss) \<longleftrightarrow>
     HEAP_ALIGNMENT \<le> n \<and> HEAP_ALIGNMENT dvd n \<and> segs_ok ss \<and> (ss = [] \<or> \<not> (f \<and> snd (hd ss)))"
  using segs_ok_append_iff [of "[(n, f)]" ss] by (auto simp: segs_ok_def)

lemma segs_ok_Nil [simp]: "segs_ok []" by (simp add: segs_ok_def)

lemma grow_segs_ok:
  assumes "segs_ok ss" and "PAGE_SIZE dvd n" and "0 < n"
  shows "segs_ok (grow_segs n ss)" and "span (grow_segs n ss) = span ss + n" and "grow_segs n ss \<noteq> []"
    and "live HEAP_BASE (grow_segs n ss) = live HEAP_BASE ss"
proof -
  have "PAGE_SIZE \<le> n" using assms(2,3) by (rule dvd_imp_le)
  then have n: "HEAP_ALIGNMENT dvd n" "SIZEOF_BLOCK + HEAP_ALIGNMENT \<le> n" "HEAP_ALIGNMENT dvd SIZEOF_BLOCK"
    using dvd_trans [OF _ assms(2), of HEAP_ALIGNMENT] by (auto simp: heap_consts)
  have "segs_ok (grow_segs n ss) \<and> span (grow_segs n ss) = span ss + n \<and> grow_segs n ss \<noteq> [] \<and>
    live HEAP_BASE (grow_segs n ss) = live HEAP_BASE ss"
  proof (cases ss rule: rev_cases)
    case (snoc us u)
    obtain k f where "u = (k, f)" by fastforce
    then show ?thesis using assms(1) n snoc
      by (cases f) (auto simp: grow_segs_def segs_ok_append_iff segs_ok_Cons_iff dvd_diff_nat)
  qed (use n in \<open>auto simp: grow_segs_def segs_ok_Cons_iff dvd_diff_nat\<close>)
  then show "segs_ok (grow_segs n ss)" "span (grow_segs n ss) = span ss + n" "grow_segs n ss \<noteq> []"
    "live HEAP_BASE (grow_segs n ss) = live HEAP_BASE ss" by blast+
qed

definition page_round :: "nat \<Rightarrow> nat" where
  "page_round n = (n + PAGE_SIZE - 1) div PAGE_SIZE * PAGE_SIZE"

lemma page_round: "n \<le> page_round n" "PAGE_SIZE dvd page_round n" "0 < n \<Longrightarrow> 0 < page_round n"
proof -
  show "n \<le> page_round n" unfolding page_round_def layout_defs by linarith
  then show "0 < n \<Longrightarrow> 0 < page_round n" by simp
  show "PAGE_SIZE dvd page_round n" by (simp add: page_round_def)
qed

lemma HEAP_LIMIT_less: "HEAP_LIMIT < 2 ^ 32" by (simp add: heap_consts)

lemma pages_owned_restored: "restored m m' \<Longrightarrow> n \<le> HEAP_LIMIT \<Longrightarrow> pages_owned m n \<Longrightarrow> pages_owned m' n"
  by (erule pages_owned_same) (auto simp: restored_def heap_consts)

lemma grow_cases:
  assumes "heap_ok h ss" and "0 < bytes" and "grow bytes h = (ok, h')"
  obtains (refused) m where "\<not> ok" "h' = h\<lparr>km := m\<rparr>" "restored (km h) m"
  | (grown) m h1 where "ok" "h1 = grow_block (page_round bytes) (h\<lparr>km := m\<rparr>)"
      "h' = h1\<lparr>heap_mapped := heap_mapped h1 + page_round bytes\<rparr>"
      "grown (km h) m (span ss) (span ss + page_round bytes)" "span ss + page_round bytes \<le> HEAP_LIMIT"
proof -
  note inv = assms(1) [unfolded heap_ok_def]
  define g where "g = page_round bytes"
  note pr = page_round [of bytes, folded g_def]
  have mapped: "heap_mapped h = span ss" using inv by (simp add: heap_at_def)
  have sub: "sub32 HEAP_LIMIT (heap_mapped h) = HEAP_LIMIT - span ss"
    using inv HEAP_LIMIT_less mapped by (simp add: sub32_le)
  obtain a m where gm: "grow_map (HEAP_BASE + span ss) g 0 (km h) = (a, m)" by fastforce
  define m2 where "m2 = grow_undo (HEAP_BASE + span ss) a m"
  define h1 where "h1 = grow_block g (h\<lparr>km := m\<rparr>)"
  have eq: "grow bytes h =
    (if g > HEAP_LIMIT - span ss then (False, h)
     else if a \<noteq> g then (False, h\<lparr>km := m2\<rparr>) else (True, h1\<lparr>heap_mapped := heap_mapped h1 + g\<rparr>))"
    unfolding grow_def Let_def page_round_def [symmetric] g_def [symmetric] sub [unfolded mapped] mapped gm m2_def h1_def
    using pr(3) [OF assms(2)] by simp
  consider "g > HEAP_LIMIT - span ss" | "g \<le> HEAP_LIMIT - span ss" by linarith
  then show thesis
  proof cases
    case 1
    have "restored (km h) (km h)" using inv by (simp add: restored_def)
    then show ?thesis using refused [of "km h"] eq assms(3) 1 by simp
  next
    case 2
    then have le: "span ss + g \<le> HEAP_LIMIT" using inv by linarith
    then have G: "grown (km h) m (span ss) (span ss + a) \<and> a \<le> g \<and> PAGE_SIZE dvd a"
      using grow_map_grown [of "km h" "span ss" 0 g a m] inv pr(2) gm by simp
    then have "restored (km h) m2" if "a \<noteq> g"
      using grow_undo_shrunk [of m "span ss" a] inv le grown_shrunk_restored
      by (auto simp: m2_def grown_def)
    then show ?thesis
      using eq assms(3) 2 G le refused [of m2] grown [OF _ h1_def [unfolded g_def]]
      by (cases "a = g") (simp_all add: g_def)
  qed
qed

text \<open>Growth by a positive number of bytes: the new pages are one free block, or part of the
  free block at the end; a refused growth changes no header and no translation.\<close>

lemma grow_block_frame [simp]:
  "km (grow_block g h) = km h" "payload (grow_block g h) = payload h" "heap_ready (grow_block g h) = heap_ready h"
  by (simp_all add: grow_block_def Let_def)

lemma grow_result:
  assumes "heap_ok h ss" and "0 < bytes" and "grow bytes h = (ok, h')"
  shows "payload h' = payload h \<and> heap_ready h' = heap_ready h \<and> halted (km h') = halted (km h) \<and>
    (if ok then heap_ok h' (grow_segs (page_round bytes) ss) \<and> data_frames (km h) \<subseteq> data_frames (km h')
     else heap_ok h' ss \<and> restored (km h) (km h'))"
  using assms
proof (cases rule: grow_cases)
  case (refused m)
  then show ?thesis
    using assms(1) pages_owned_restored [OF refused(3), of "span ss"]
    by (auto simp: heap_ok_def heap_at_def restored_def)
next
  case (grown m h1)
  note pr = page_round [of bytes]
  note inv = assms(1) [unfolded heap_ok_def]
  have "SIZEOF_BLOCK \<le> page_round bytes" using dvd_imp_le [OF pr(2)] pr(3) [OF assms(2)] by (simp add: heap_consts)
  moreover have "heap_at (h\<lparr>km := m\<rparr>) ss" using inv by (simp add: heap_at_def)
  ultimately have "heap_at h' (grow_segs (page_round bytes) ss)"
    unfolding grown(3) using grown(2) by (intro heap_at_grow_block) auto
  then show ?thesis
    using grow_segs_ok [OF _ pr(2) pr(3) [OF assms(2)], of ss] grown inv pr(2)
    by (simp add: heap_ok_def grown_def)
qed

end
