(* ===== verification/Rum_Heap_Ops.thy ===== *)
theory Rum_Heap_Ops
  imports Rum_Heap_Grow
begin

text \<open>
  The heap operations on the abstract heap: what allocation, release and reallocation do to the
  set of live payloads, and that each of them returns.
\<close>

section \<open>Splitting and joining keep the list well formed\<close>

lemma free_front:
  "live a (free_front n ys) = live (a + SIZEOF_BLOCK + n) ys"
  "span (free_front n ys) = SIZEOF_BLOCK + n + span ys"
  "free_front n ys \<noteq> []"
  by (induction n ys rule: free_front.induct) (auto simp: add.assoc)

lemma dvd_SIZEOF: "HEAP_ALIGNMENT dvd SIZEOF_BLOCK" by (simp add: heap_consts)

lemma free_front_ok:
  "segs_ok ys \<Longrightarrow> HEAP_ALIGNMENT \<le> n \<Longrightarrow> HEAP_ALIGNMENT dvd n \<Longrightarrow> segs_ok (free_front n ys)"
  using dvd_SIZEOF by (induction n ys rule: free_front.induct) (auto simp: segs_ok_Cons_iff)

lemma split_seg_hd: "\<exists>m zs. \<forall>f. split_seg k n f ys = (m, f) # zs"
  by (auto simp: split_seg_def)

lemma split_seg:
  assumes "k \<le> n" shows "span (split_seg k n f ys) = SIZEOF_BLOCK + n + span ys"
    and "\<exists>m. k \<le> m \<and> m \<le> n \<and> live a (split_seg k n False ys) = insert (a + SIZEOF_BLOCK, m) (live (a + SIZEOF_BLOCK + n) ys)"
proof -
  show "span (split_seg k n f ys) = SIZEOF_BLOCK + n + span ys" using assms by (auto simp: split_seg_def free_front)
  show "\<exists>m. k \<le> m \<and> m \<le> n \<and> live a (split_seg k n False ys) = insert (a + SIZEOF_BLOCK, m) (live (a + SIZEOF_BLOCK + n) ys)"
    using assms by (intro exI [of _ "if n - k < SIZEOF_BLOCK + HEAP_ALIGNMENT then n else k"])
      (auto simp: split_seg_def free_front add.assoc)
qed

lemma split_seg_ok:
  assumes "segs_ok (xs @ (n, f) # ys)" and "k \<le> n" and "HEAP_ALIGNMENT \<le> k" and "HEAP_ALIGNMENT dvd k"
  shows "segs_ok (xs @ split_seg k n False ys)"
proof -
  have s: "segs_ok xs" "segs_ok ys" "HEAP_ALIGNMENT \<le> n" "HEAP_ALIGNMENT dvd n"
    using assms(1) by (auto simp: segs_ok_append_iff segs_ok_Cons_iff)
  have "HEAP_ALIGNMENT dvd n - k - SIZEOF_BLOCK" using s(4) assms(4) dvd_SIZEOF by (intro dvd_diff_nat)
  then have "segs_ok (free_front (n - k - SIZEOF_BLOCK) ys)" if "\<not> n - k < SIZEOF_BLOCK + HEAP_ALIGNMENT"
    using that by (intro free_front_ok [OF s(2)]) auto
  then show ?thesis using s assms(3,4) by (auto simp: split_seg_def segs_ok_append_iff segs_ok_Cons_iff)
qed

lemma free_seg:
  assumes "segs_ok (xs @ (n, f) # ys)"
  shows "segs_ok (free_seg xs n ys)" and "span (free_seg xs n ys) = span (xs @ (n, f) # ys)" and "free_seg xs n ys \<noteq> []"
    and "live a (free_seg xs n ys) = live a xs \<union> live (a + span xs + SIZEOF_BLOCK + n) ys"
proof -
  have s: "segs_ok xs" "segs_ok ys" "HEAP_ALIGNMENT \<le> n" "HEAP_ALIGNMENT dvd n"
    using assms by (auto simp: segs_ok_append_iff segs_ok_Cons_iff)
  have "segs_ok (free_seg xs n ys) \<and> span (free_seg xs n ys) = span (xs @ (n, f) # ys) \<and> free_seg xs n ys \<noteq> [] \<and>
    live a (free_seg xs n ys) = live a xs \<union> live (a + span xs + SIZEOF_BLOCK + n) ys"
  proof (cases xs rule: rev_cases)
    case Nil
    then show ?thesis using s by (simp add: free_seg_def free_front free_front_ok)
  next
    case (snoc us u)
    obtain k g where u: "u = (k, g)" by fastforce
    have k: "HEAP_ALIGNMENT \<le> k" "HEAP_ALIGNMENT dvd k" "segs_ok us" "us = [] \<or> \<not> (snd (last us) \<and> g)"
      using s(1) by (auto simp: snoc u segs_ok_append_iff segs_ok_Cons_iff)
    then have "segs_ok (free_front (k + SIZEOF_BLOCK + n) ys)"
      using s dvd_SIZEOF by (intro free_front_ok) auto
    moreover have "segs_ok (free_front n ys)" by (rule free_front_ok [OF s(2-4)])
    ultimately show ?thesis
      using k by (cases g) (auto simp: free_seg_def snoc u free_front segs_ok_append_iff segs_ok_Cons_iff add.assoc)
  qed
  then show "segs_ok (free_seg xs n ys)" "span (free_seg xs n ys) = span (xs @ (n, f) # ys)" "free_seg xs n ys \<noteq> []"
    "live a (free_seg xs n ys) = live a xs \<union> live (a + span xs + SIZEOF_BLOCK + n) ys" by blast+
qed

lemma aligned_props:
  assumes "aligned n \<noteq> 0"
  shows "n \<le> aligned n" and "HEAP_ALIGNMENT \<le> aligned n" and "HEAP_ALIGNMENT dvd aligned n"
    and "aligned n \<le> HEAP_LIMIT - SIZEOF_BLOCK" and "0 < n"
proof -
  have n: "0 < n" "n \<le> HEAP_LIMIT - SIZEOF_BLOCK" and a: "aligned n = (n + HEAP_ALIGNMENT - 1) div HEAP_ALIGNMENT * HEAP_ALIGNMENT"
    using assms by (auto simp: aligned_def split: if_splits)
  show "0 < n" by (rule n(1))
  show "n \<le> aligned n" unfolding a HEAP_ALIGNMENT_def by linarith
  show d: "HEAP_ALIGNMENT dvd aligned n" by (simp add: a)
  then show "HEAP_ALIGNMENT \<le> aligned n" using assms by (intro dvd_imp_le) auto
  show "aligned n \<le> HEAP_LIMIT - SIZEOF_BLOCK" using n(2) unfolding a by (simp add: heap_consts)
qed

section \<open>The heap and its live payloads\<close>

definition heap_view :: "heap \<Rightarrow> seg list \<Rightarrow> bool" where
  "heap_view h ss \<longleftrightarrow> heap_ok h ss \<and> (heap_ready h \<longleftrightarrow> ss \<noteq> [])"

lemma heap_ok_update:
  assumes "heap_ok h ss" and "heap_at h' ss'" and "segs_ok ss'" and "span ss' = span ss" and "same_rest h h'"
  shows "heap_ok h' ss'"
  using assms by (simp add: heap_ok_def same_rest_def)

lemma heap_ok_size: "heap_ok h (xs @ (n, f) # ys) \<Longrightarrow> n < 2 ^ 32"
  using HEAP_LIMIT_less by (simp add: heap_ok_def)

lemma split_used:
  assumes "heap_ok h (xs @ (n, False) # ys)" and "k \<le> n" and "HEAP_ALIGNMENT \<le> k" and "HEAP_ALIGNMENT dvd k"
  shows "heap_ok (split (at xs) k h) (xs @ split_seg k n False ys)"
proof (rule heap_ok_update [OF assms(1)])
  show "heap_at (split (at xs) k h) (xs @ split_seg k n False ys)"
    using assms(1,2) heap_ok_size [OF assms(1)] by (intro heap_at_split) (simp_all add: heap_ok_def)
  show "segs_ok (xs @ split_seg k n False ys)"
    using split_seg_ok [of xs n False ys k] assms(1-4) by (simp add: heap_ok_def)
qed (simp_all add: split_seg(1) [OF assms(2)] same_rest_split same_rest_steps)

lemma take_block:
  assumes "heap_ok h (xs @ (n, True) # ys)" and "k \<le> n" and "HEAP_ALIGNMENT \<le> k" and "HEAP_ALIGNMENT dvd k"
    and "take_block (at xs) k h = (p, h')"
  shows "p = at xs + SIZEOF_BLOCK" and "same_rest h h'" and "heap_ok h' (xs @ split_seg k n False ys)"
proof -
  have h': "h' = set_header (at xs) ((headers (split (at xs) k h) (at xs))\<lparr>block_free := False\<rparr>) (split (at xs) k h)"
    and p: "p = at xs + SIZEOF_BLOCK"
    using assms(5) by (auto simp: take_block_def Let_def)
  show "p = at xs + SIZEOF_BLOCK" by (rule p)
  show rest: "same_rest h h'" unfolding h' by (intro same_rest_steps same_rest_split)
  have "heap_at (split (at xs) k h) (xs @ split_seg k n True ys)"
    using assms(1,2) heap_ok_size [OF assms(1)] by (intro heap_at_split) (simp_all add: heap_ok_def)
  moreover obtain m zs where "\<forall>f. split_seg k n f ys = (m, f) # zs" using split_seg_hd by blast
  ultimately have "heap_at h' (xs @ split_seg k n False ys)"
    unfolding h' using heap_at_mark [of "split (at xs) k h" xs m True zs False] by simp
  moreover have "segs_ok (xs @ split_seg k n False ys)"
    using split_seg_ok [of xs n True ys k] assms(1-4) by (simp add: heap_ok_def)
  ultimately show "heap_ok h' (xs @ split_seg k n False ys)"
    using heap_ok_update [OF assms(1) _ _ _ rest] by (simp add: split_seg(1) [OF assms(2)])
qed

lemma take_block_live:
  assumes "heap_ok h (xs @ (n, True) # ys)" and "k \<le> n"
  shows "\<exists>m. k \<le> m \<and> live HEAP_BASE (xs @ split_seg k n False ys) =
           insert (at xs + SIZEOF_BLOCK, m) (live HEAP_BASE (xs @ (n, True) # ys))"
    and "at xs + SIZEOF_BLOCK \<notin> fst ` live HEAP_BASE (xs @ (n, True) # ys)"
proof -
  show "\<exists>m. k \<le> m \<and> live HEAP_BASE (xs @ split_seg k n False ys) =
           insert (at xs + SIZEOF_BLOCK, m) (live HEAP_BASE (xs @ (n, True) # ys))"
    using split_seg(2) [OF assms(2), of "at xs" ys] by (auto simp: Un_commute)
  show "at xs + SIZEOF_BLOCK \<notin> fst ` live HEAP_BASE (xs @ (n, True) # ys)"
    using live_bounds [of "at xs + SIZEOF_BLOCK" _ HEAP_BASE xs]
      live_bounds [of "at xs + SIZEOF_BLOCK" _ "at xs + SIZEOF_BLOCK + n" ys] by auto
qed

section \<open>Allocation\<close>

text \<open>The walks of the allocator on a laid out heap.\<close>

lemma fit_result:
  assumes "heap_at h ss"
  shows "\<exists>b. fit_from (headers h) k (heap_first h) = Some b \<and>
           (if b = 0 then \<forall>(n, f)\<in>set ss. f \<longrightarrow> n < k
            else \<exists>xs n ys. ss = xs @ (n, True) # ys \<and> b = at xs \<and> k \<le> n)"
proof -
  let ?P = "\<lambda>a n f. f \<and> k \<le> n"
  have f: "fit_from (headers h) k (heap_first h) = Some (seek ?P HEAP_BASE ss)"
    using fit_from_seek [of "headers h" 0 HEAP_BASE ss k] assms by (simp add: heap_at_def)
  have "\<forall>(n, f)\<in>set ss. f \<longrightarrow> n < k" if "seek ?P HEAP_BASE ss = 0"
    using seek_none [OF HEAP_BASE_pos(2) that] by (auto dest!: split_list) fastforce
  moreover have "\<exists>xs n ys. ss = xs @ (n, True) # ys \<and> seek ?P HEAP_BASE ss = at xs \<and> k \<le> n" if "seek ?P HEAP_BASE ss \<noteq> 0"
    using seek_some [OF that] by (elim exE conjE, intro exI conjI) simp_all
  ultimately show ?thesis using f by simp
qed

lemma find_result:
  assumes "heap_at h ss"
  shows "\<exists>b. find_block p h = Some b \<and>
           (if b = 0 then p \<notin> fst ` live HEAP_BASE ss
            else \<exists>xs n ys. ss = xs @ (n, False) # ys \<and> b = at xs \<and> p = b + SIZEOF_BLOCK)"
proof -
  let ?P = "\<lambda>a n f. a + SIZEOF_BLOCK = p \<and> \<not> f"
  have f: "find_block p h = Some (seek ?P HEAP_BASE ss)"
    using find_from_seek [of "headers h" 0 HEAP_BASE ss p] assms by (simp add: heap_at_def find_block_def)
  have "p \<notin> fst ` live HEAP_BASE ss" if "seek ?P HEAP_BASE ss = 0"
  proof
    assume "p \<in> fst ` live HEAP_BASE ss"
    then obtain m where "(p, m) \<in> live HEAP_BASE ss" by auto
    from live_split [OF this] obtain xs ys where "ss = xs @ (m, False) # ys" "p = HEAP_BASE + span xs + SIZEOF_BLOCK" by blast
    with seek_none [OF HEAP_BASE_pos(2) that, of xs m False ys] show False by simp
  qed
  moreover have "\<exists>xs n ys. ss = xs @ (n, False) # ys \<and> seek ?P HEAP_BASE ss = at xs \<and> p = seek ?P HEAP_BASE ss + SIZEOF_BLOCK"
    if "seek ?P HEAP_BASE ss \<noteq> 0"
    using seek_some [OF that] by (elim exE conjE, intro exI conjI) simp_all
  ultimately show ?thesis using f by simp
qed

text \<open>The contract of allocation: \<open>p\<close> is null and nothing changed, or \<open>p\<close> is a new payload of at
  least the requested size and every other live payload is as it was.\<close>

definition alloc_result :: "nat \<Rightarrow> heap \<Rightarrow> seg list \<Rightarrow> nat \<Rightarrow> heap \<Rightarrow> bool" where
  "alloc_result bytes h ss p h' \<longleftrightarrow>
     payload h' = payload h \<and> halted (km h') = halted (km h) \<and> heap_ready h' = heap_ready h \<and>
     (if p = 0 then heap_view h' ss \<and> restored (km h) (km h')
      else (\<exists>ss' m. heap_view h' ss' \<and> bytes \<le> m \<and> live HEAP_BASE ss' = insert (p, m) (live HEAP_BASE ss)) \<and>
           p \<notin> fst ` live HEAP_BASE ss)"

lemma alloc_take:
  assumes "heap_ok h (xs @ (n, True) # ys)" and "heap_ready h" and "aligned bytes \<noteq> 0" and "aligned bytes \<le> n"
    and "take_block (at xs) (aligned bytes) h = (p, h')"
  shows "p \<noteq> 0" and "alloc_result bytes h (xs @ (n, True) # ys) p h'"
proof -
  note al = aligned_props [OF assms(3)]
  note t = take_block [OF assms(1,4) al(2,3) assms(5)]
  show p: "p \<noteq> 0" using t(1) by simp
  obtain m where m: "aligned bytes \<le> m" "live HEAP_BASE (xs @ split_seg (aligned bytes) n False ys) =
      insert (p, m) (live HEAP_BASE (xs @ (n, True) # ys))"
    using take_block_live(1) [OF assms(1,4)] t(1) by blast
  have "xs @ split_seg (aligned bytes) n False ys \<noteq> []" using split_seg_hd [of "aligned bytes" n ys] by auto
  then have "heap_view h' (xs @ split_seg (aligned bytes) n False ys)"
    using t(2,3) assms(2) by (simp add: heap_view_def same_rest_def)
  moreover have "bytes \<le> m" using al(1) m(1) by simp
  ultimately have "\<exists>ss' m. heap_view h' ss' \<and> bytes \<le> m \<and>
      live HEAP_BASE ss' = insert (p, m) (live HEAP_BASE (xs @ (n, True) # ys))" using m(2) by blast
  moreover have "p \<notin> fst ` live HEAP_BASE (xs @ (n, True) # ys)" using take_block_live(2) [OF assms(1,4)] t(1) by simp
  ultimately show "alloc_result bytes h (xs @ (n, True) # ys) p h'"
    unfolding alloc_result_def using t(2) p by (simp only: same_rest_def if_False simp_thms)
qed

text \<open>After growing for a request that fits nowhere, the last block is free and large enough.\<close>

lemma grow_fits:
  assumes "segs_ok ss" and "ss \<noteq> []" and "\<forall>(n, f)\<in>set ss. f \<longrightarrow> n < k"
    and "needed = (if snd (last ss) then k - fst (last ss) else k + SIZEOF_BLOCK)"
  shows "\<exists>xs n. grow_segs (page_round needed) ss = xs @ [(n, True)] \<and> k \<le> n \<and>
           live HEAP_BASE (xs @ [(n, True)]) = live HEAP_BASE ss \<and> last_at 0 HEAP_BASE (grow_segs (page_round needed) ss) = at xs"
proof -
  obtain us m f where ss: "ss = us @ [(m, f)]" using assms(2) by (metis rev_exhaust surj_pair)
  have le: "needed \<le> page_round needed" by (rule page_round(1))
  show ?thesis
  proof (cases f)
    case True
    then have "m < k" using assms(3) ss by auto
    then have "k \<le> m + page_round needed" using True assms(4) ss le by simp
    then show ?thesis using True ss by (simp add: grow_segs_def)
  next
    case False
    then have "k \<le> page_round needed - SIZEOF_BLOCK" using assms(4) ss le by simp
    then show ?thesis using False ss by (simp add: grow_segs_def)
  qed
qed

lemma alloc_grow:
  assumes "heap_view h ss" and "heap_ready h" and "aligned bytes \<noteq> 0" and "\<forall>(n, f)\<in>set ss. f \<longrightarrow> n < aligned bytes"
    and "final = headers h (heap_last h)"
    and "grow (if block_free final then sub32 (aligned bytes) (block_size final) else aligned bytes + SIZEOF_BLOCK) h = (ok, h1)"
  shows "(if ok then \<exists>p h'. take_block (heap_last h1) (aligned bytes) h1 = (p, h') \<and> p \<noteq> 0 \<and> alloc_result bytes h ss p h'
          else alloc_result bytes h ss 0 h1)"
proof -
  have inv: "heap_ok h ss" "ss \<noteq> []" "segs_ok ss" "heap_at h ss"
    using assms(1,2) by (auto simp: heap_view_def heap_ok_def)
  obtain us m f where ss: "ss = us @ [(m, f)]" using inv(2) by (metis rev_exhaust surj_pair)
  have fin: "block_free final = f" "block_size final = m"
    using heap_at_header [of h us m f "[]"] inv(4) assms(5) by (auto simp: ss heap_at_def)
  have m: "f \<Longrightarrow> m < aligned bytes" using assms(4) ss by auto
  define needed where "needed = (if snd (last ss) then aligned bytes - fst (last ss) else aligned bytes + SIZEOF_BLOCK)"
  have small: "aligned bytes < 2 ^ 32" using aligned_props(4) [OF assms(3)] HEAP_LIMIT_less by linarith
  have needed: "grow needed h = (ok, h1)" "0 < needed"
    using assms(6) fin m small by (auto simp: needed_def ss sub32_le)
  note G = grow_result [OF inv(1) needed(2,1)]
  show ?thesis
  proof (cases ok)
    case False
    then show ?thesis using G assms(1) by (simp add: alloc_result_def heap_view_def)
  next
    case True
    obtain xs n where g: "grow_segs (page_round needed) ss = xs @ [(n, True)]" "aligned bytes \<le> n"
        "live HEAP_BASE (xs @ [(n, True)]) = live HEAP_BASE ss" "last_at 0 HEAP_BASE (grow_segs (page_round needed) ss) = at xs"
      using grow_fits [OF inv(3,2) assms(4) needed_def] by blast
    have ok1: "heap_ok h1 (xs @ [(n, True)])" and r1: "heap_ready h1" using G True g(1) assms(2) by simp_all
    then have "heap_last h1 = at xs" using g(1,4) by (simp add: heap_ok_def heap_at_def)
    moreover obtain p h' where t: "take_block (at xs) (aligned bytes) h1 = (p, h')" by fastforce
    moreover note A = alloc_take [OF ok1 r1 assms(3) g(2) t]
    ultimately show ?thesis
      using True G g(3) by (simp add: alloc_result_def)
  qed
qed

lemma allocate_result:
  assumes "heap_view h ss"
  shows "\<exists>p h'. allocate bytes h = Some (p, h') \<and> alloc_result bytes h ss p h' \<and>
           (heap_ready h \<and> aligned bytes \<noteq> 0 \<and> (\<exists>n. (n, True) \<in> set ss \<and> aligned bytes \<le> n) \<longrightarrow> p \<noteq> 0)"
proof (cases "\<not> heap_ready h \<or> aligned bytes = 0")
  case True
  then have "allocate bytes h = Some (0, h)" by (auto simp: allocate_def Let_def)
  moreover have "alloc_result bytes h ss 0 h"
    using assms by (simp add: alloc_result_def restored_def heap_view_def heap_ok_def)
  ultimately show ?thesis using True by blast
next
  case False
  then have r: "heap_ready h" "aligned bytes \<noteq> 0" by auto
  obtain b where b: "fit_from (headers h) (aligned bytes) (heap_first h) = Some b"
      and fit: "if b = 0 then \<forall>(n, f)\<in>set ss. f \<longrightarrow> n < aligned bytes
                else \<exists>xs n ys. ss = xs @ (n, True) # ys \<and> b = at xs \<and> aligned bytes \<le> n"
    using fit_result [of h ss "aligned bytes"] assms unfolding heap_view_def heap_ok_def by blast
  show ?thesis
  proof (cases "b = 0")
    case False
    then obtain xs n ys where s: "ss = xs @ (n, True) # ys" "b = at xs" "aligned bytes \<le> n" using fit by auto
    obtain p h' where t: "take_block (at xs) (aligned bytes) h = (p, h')" by fastforce
    have "heap_ok h (xs @ (n, True) # ys)" using assms s(1) by (simp add: heap_view_def)
    from alloc_take [OF this r s(3) t] show ?thesis using r b False s t by (simp add: allocate_def)
  next
    case True
    then have none: "\<forall>(n, f)\<in>set ss. f \<longrightarrow> n < aligned bytes" using fit by simp
    define final where "final = headers h (heap_last h)"
    define needed where "needed = (if block_free final then sub32 (aligned bytes) (block_size final) else aligned bytes + SIZEOF_BLOCK)"
    obtain ok h1 where g: "grow needed h = (ok, h1)" by fastforce
    have eq: "allocate bytes h = (if ok then Some (take_block (heap_last h1) (aligned bytes) h1) else Some (0, h1))"
      using r b True g by (simp add: allocate_def Let_def final_def [symmetric] needed_def [symmetric])
    have "\<not> (\<exists>n. (n, True) \<in> set ss \<and> aligned bytes \<le> n)" using none by auto
    then show ?thesis
      using alloc_grow [OF assms r none final_def g [unfolded needed_def]] eq by (cases ok) auto
  qed
qed

section \<open>Release\<close>

lemma release_block:
  assumes "heap_view h (xs @ (n, False) # ys)"
  shows "heap_view (release (at xs) h) (free_seg xs n ys)" and "same_rest h (release (at xs) h)"
    and "live HEAP_BASE (free_seg xs n ys) = {x \<in> live HEAP_BASE (xs @ (n, False) # ys). fst x \<noteq> at xs + SIZEOF_BLOCK}"
proof -
  have inv: "heap_ok h (xs @ (n, False) # ys)" "segs_ok (xs @ (n, False) # ys)" "heap_at h (xs @ (n, False) # ys)" "heap_ready h"
    using assms by (simp_all add: heap_view_def heap_ok_def)
  note f = free_seg [OF inv(2)]
  show rest: "same_rest h (release (at xs) h)" by (rule same_rest_release [OF same_rest_steps(1)])
  have "heap_ok (release (at xs) h) (free_seg xs n ys)"
    by (rule heap_ok_update [OF inv(1) heap_at_release [OF inv(3)] f(1,2) rest])
  then show "heap_view (release (at xs) h) (free_seg xs n ys)"
    using f(3) inv(4) rest by (simp add: heap_view_def same_rest_def)
  show "live HEAP_BASE (free_seg xs n ys) = {x \<in> live HEAP_BASE (xs @ (n, False) # ys). fst x \<noteq> at xs + SIZEOF_BLOCK}"
    using live_bounds [of "at xs + SIZEOF_BLOCK" _ HEAP_BASE xs]
      live_bounds [of "at xs + SIZEOF_BLOCK" _ "at xs + SIZEOF_BLOCK + n" ys] unfolding f(4) by auto
qed

lemma kfree_result:
  assumes "heap_view h ss"
  shows "\<exists>ok h' ss'. kfree p h = Some (ok, h') \<and> same_rest h h' \<and> heap_view h' ss' \<and>
           (ok \<longleftrightarrow> p = 0 \<or> p \<in> fst ` live HEAP_BASE ss) \<and> (\<not> ok \<longrightarrow> h' = h) \<and>
           live HEAP_BASE ss' = {x \<in> live HEAP_BASE ss. fst x \<noteq> p}"
proof -
  have null: "0 \<notin> fst ` live HEAP_BASE ss" using live_bounds [of 0 _ HEAP_BASE ss] by auto
  have ha: "heap_at h ss" using assms by (simp add: heap_view_def heap_ok_def)
  obtain b where b: "find_block p h = Some b" and f: "if b = 0 then p \<notin> fst ` live HEAP_BASE ss
        else \<exists>xs n ys. ss = xs @ (n, False) # ys \<and> b = at xs \<and> p = b + SIZEOF_BLOCK"
    using find_result [OF ha] by blast
  consider "p = 0" | "p \<noteq> 0" "b = 0" | "p \<noteq> 0" "b \<noteq> 0" by blast
  then show ?thesis
  proof cases
    case 1
    have "live HEAP_BASE ss = {x \<in> live HEAP_BASE ss. fst x \<noteq> p}" using null 1 by force
    then show ?thesis using 1 assms same_rest_steps(1) by (auto simp: kfree_def)
  next
    case 2
    then have "live HEAP_BASE ss = {x \<in> live HEAP_BASE ss. fst x \<noteq> p}" using f by force
    then show ?thesis using 2 f b assms same_rest_steps(1) by (auto simp: kfree_def)
  next
    case 3
    then obtain xs n ys where s: "ss = xs @ (n, False) # ys" "b = at xs" "p = at xs + SIZEOF_BLOCK" using f by auto
    note R = release_block [OF assms [unfolded s(1)]]
    have "p \<in> fst ` live HEAP_BASE ss" using s by (simp add: image_Un)
    then show ?thesis using 3 b s R by (auto simp: kfree_def)
  qed
qed

section \<open>Reallocation\<close>

definition realloc_result :: "nat \<Rightarrow> heap \<Rightarrow> seg list \<Rightarrow> nat \<Rightarrow> nat \<Rightarrow> nat \<Rightarrow> heap \<Rightarrow> bool" where
  "realloc_result bytes h ss p n r h' \<longleftrightarrow>
     halted (km h') = halted (km h) \<and>
     (if r = 0 then heap_view h' ss \<and> payload h' = payload h \<and> restored (km h) (km h')
      else \<exists>ss' m. heap_view h' ss' \<and> bytes \<le> m \<and> live HEAP_BASE ss' = insert (r, m) (live HEAP_BASE ss - {(p, n)}) \<and>
             (r = p \<or> r \<notin> fst ` live HEAP_BASE ss) \<and>
             (\<forall>i<min n m. payload h' (r + i) = payload h (p + i)) \<and>
             (\<forall>q k i. (q, k) \<in> live HEAP_BASE ss - {(p, n)} \<longrightarrow> i < k \<longrightarrow> payload h' (q + i) = payload h (q + i)))"

lemma realloc_resultI:
  assumes "heap_view h' ss'" and "bytes \<le> m" and "live HEAP_BASE ss' = insert (r, m) (live HEAP_BASE ss - {(p, n)})"
    and "r \<noteq> 0" and "r = p \<or> r \<notin> fst ` live HEAP_BASE ss" and "halted (km h') = halted (km h)"
    and "\<forall>i<min n m. payload h' (r + i) = payload h (p + i)"
    and "\<forall>q k i. (q, k) \<in> live HEAP_BASE ss - {(p, n)} \<longrightarrow> i < k \<longrightarrow> payload h' (q + i) = payload h (q + i)"
  shows "realloc_result bytes h ss p n r h'"
  unfolding realloc_result_def if_not_P [OF assms(4)]
  by (intro conjI exI [of _ ss'] exI [of _ m]) (fact assms)+

lemma live_unique: "(p, n) \<in> live a ss \<Longrightarrow> (p, k) \<in> live a ss \<Longrightarrow> k = n"
  using live_apart [of p n a ss p k] by auto

lemma live_minus: "(p, n) \<in> live a ss \<Longrightarrow> live a ss - {(p, n)} = {x \<in> live a ss. fst x \<noteq> p}"
  using live_unique by fastforce

lemma live_minus_block:
  "live HEAP_BASE (xs @ (n, False) # ys) - {(at xs + SIZEOF_BLOCK, n)} =
     live HEAP_BASE xs \<union> live (at xs + SIZEOF_BLOCK + n) ys"
  using live_bounds [of "at xs + SIZEOF_BLOCK" _ HEAP_BASE xs]
    live_bounds [of "at xs + SIZEOF_BLOCK" _ "at xs + SIZEOF_BLOCK + n" ys] by auto

lemma realloc_in_place:
  assumes "heap_ok h0 (xs @ (N, False) # ys)" and "heap_ready h" and "same_rest h h0" and "aligned bytes \<noteq> 0"
    and "aligned bytes \<le> N" and "live HEAP_BASE ss - {(at xs + SIZEOF_BLOCK, n)} = live HEAP_BASE xs \<union> live (at xs + SIZEOF_BLOCK + N) ys"
  shows "realloc_result bytes h ss (at xs + SIZEOF_BLOCK) n (at xs + SIZEOF_BLOCK) (split (at xs) (aligned bytes) h0)"
proof -
  note al = aligned_props [OF assms(4)]
  let ?h = "split (at xs) (aligned bytes) h0" and ?ss = "xs @ split_seg (aligned bytes) N False ys"
  have ok: "heap_ok ?h ?ss" by (rule split_used [OF assms(1,5) al(2,3)])
  have rest: "same_rest h ?h" using assms(3) by (rule same_rest_split)
  have "?ss \<noteq> []" using split_seg_hd [of "aligned bytes" N ys] by auto
  then have view: "heap_view ?h ?ss" using ok assms(2) rest by (simp add: heap_view_def same_rest_def)
  obtain m where m: "aligned bytes \<le> m" "live (at xs) (split_seg (aligned bytes) N False ys) =
      insert (at xs + SIZEOF_BLOCK, m) (live (at xs + SIZEOF_BLOCK + N) ys)"
    using split_seg(2) [OF assms(5)] by blast
  have live: "live HEAP_BASE ?ss = insert (at xs + SIZEOF_BLOCK, m) (live HEAP_BASE ss - {(at xs + SIZEOF_BLOCK, n)})"
    unfolding assms(6) by (simp add: m(2))
  have "bytes \<le> m" using al(1) m(1) by simp
  from realloc_resultI [OF view this live] show ?thesis using rest by (simp add: same_rest_def)
qed

lemma realloc_join:
  assumes "heap_view h (xs @ (n, False) # (m, True) # ys)" and "aligned bytes \<noteq> 0"
    and "aligned bytes \<le> n + SIZEOF_BLOCK + m"
  shows "realloc_result bytes h (xs @ (n, False) # (m, True) # ys) (at xs + SIZEOF_BLOCK) n (at xs + SIZEOF_BLOCK)
           (split (at xs) (aligned bytes) (join_next (at xs) h))"
proof (rule realloc_in_place [OF _ _ _ assms(2,3)])
  have inv: "heap_ok h (xs @ (n, False) # (m, True) # ys)" "heap_ready h" using assms(1) by (simp_all add: heap_view_def)
  have "segs_ok (xs @ (n + SIZEOF_BLOCK + m, False) # ys)"
    using inv(1) dvd_SIZEOF by (auto simp: heap_ok_def segs_ok_append_iff segs_ok_Cons_iff)
  then show "heap_ok (join_next (at xs) h) (xs @ (n + SIZEOF_BLOCK + m, False) # ys)"
    using inv(1) heap_at_join [of h xs n False m True ys] same_rest_join [OF same_rest_steps(1)]
    by (intro heap_ok_update [OF inv(1)]) (simp_all add: heap_ok_def)
  show "same_rest h (join_next (at xs) h)" by (rule same_rest_join [OF same_rest_steps(1)])
  show "heap_ready h" by (rule inv(2))
  show "live HEAP_BASE (xs @ (n, False) # (m, True) # ys) - {(at xs + SIZEOF_BLOCK, n)} =
      live HEAP_BASE xs \<union> live (at xs + SIZEOF_BLOCK + (n + SIZEOF_BLOCK + m)) ys"
    unfolding live_minus_block by (simp add: add.assoc)
qed

lemma aligned_idem: "aligned n \<noteq> 0 \<Longrightarrow> aligned (aligned n) = aligned n"
proof -
  assume a: "aligned n \<noteq> 0"
  obtain k where k: "aligned n = 16 * k" using aligned_props(3) [OF a] by (auto simp: HEAP_ALIGNMENT_def)
  have "16 * k \<noteq> 0" "\<not> 16 * k > HEAP_LIMIT - SIZEOF_BLOCK" using a aligned_props(4) [OF a] unfolding k by auto
  then have "aligned (16 * k) = 16 * k" unfolding aligned_def by (simp add: HEAP_ALIGNMENT_def)
  then show ?thesis by (simp add: k)
qed

lemma wr_inside: "i < length bs \<Longrightarrow> wr mem a bs (a + i) = bs ! i"
  by (simp add: wr_def)

lemma wr_outside: "x < a \<or> a + length bs \<le> x \<Longrightarrow> wr mem a bs x = mem x"
  by (auto simp: wr_def)

lemma realloc_move:
  assumes "heap_view h (xs @ (n, False) # ys)" and "n < aligned bytes"
    and "alloc_result (aligned bytes) h (xs @ (n, False) # ys) r h1" and "r \<noteq> 0" and p: "p = at xs + SIZEOF_BLOCK"
  shows "realloc_result bytes h (xs @ (n, False) # ys) p n r
           (release (at xs) (copy_payload r p (block_size (headers h1 (at xs))) h1))"
proof -
  define ss where "ss = xs @ (n, False) # ys"
  have al: "aligned bytes \<noteq> 0" using assms(2) by simp
  obtain ss1 m where a: "heap_view h1 ss1" "aligned bytes \<le> m" "live HEAP_BASE ss1 = insert (r, m) (live HEAP_BASE ss)"
      "r \<notin> fst ` live HEAP_BASE ss" "payload h1 = payload h" "halted (km h1) = halted (km h)"
    using assms(3,4) unfolding alloc_result_def ss_def by auto
  have pin: "(p, n) \<in> live HEAP_BASE ss" by (simp add: p ss_def)
  then have "(p, n) \<in> live HEAP_BASE ss1" using a(3) by simp
  from live_split [OF this] obtain us vs where s1: "ss1 = us @ (n, False) # vs" "at us = at xs" by (auto simp: p)
  have view1: "heap_view h1 (us @ (n, False) # vs)" using a(1) s1(1) by simp
  then have size: "block_size (headers h1 (at xs)) = n"
    using heap_at_header [of h1 us n False vs] s1(2) by (simp add: heap_view_def heap_ok_def)
  define h2 where "h2 = copy_payload r p n h1"
  have view2: "heap_view h2 (us @ (n, False) # vs)"
    using view1 by (simp add: heap_view_def heap_ok_def heap_at_def h2_def copy_payload_def)
  note R = release_block [OF view2, unfolded s1(2)]
  have live: "live HEAP_BASE (free_seg us n vs) = insert (r, m) (live HEAP_BASE ss - {(p, n)})"
  proof -
    have "live HEAP_BASE ss - {(p, n)} = {x \<in> live HEAP_BASE ss. fst x \<noteq> p}" by (rule live_minus [OF pin])
    moreover have "r \<noteq> p" using a(4) pin by force
    moreover have "live HEAP_BASE (free_seg us n vs) = {x \<in> insert (r, m) (live HEAP_BASE ss). fst x \<noteq> p}"
      unfolding R(3) a(3) [symmetric] s1(1) p ..
    moreover have "{x \<in> insert (r, m) L. fst x \<noteq> p} = insert (r, m) {x \<in> L. fst x \<noteq> p}" if "r \<noteq> p" for L :: "(nat \<times> nat) set"
      using that by auto
    ultimately show ?thesis by (simp only: simp_thms)
  qed
  have rin: "(r, m) \<in> live HEAP_BASE ss1" using a(3) by simp
  have apart: "r + n \<le> q \<or> q + k \<le> r" if "(q, k) \<in> live HEAP_BASE ss" for q k
  proof -
    have "(q, k) \<in> live HEAP_BASE ss1" "(r, m) \<noteq> (q, k)" using that a(3,4) by force+
    from live_apart [OF rin this] show ?thesis using a(2) assms(2) by linarith
  qed
  have pay: "payload (release (at xs) h2) = wr (payload h) r (map (payload h) [p..<p + n])"
    using R(2) a(5) by (simp add: same_rest_def h2_def copy_payload_def)
  have "realloc_result bytes h ss p n r (release (at xs) h2)"
  proof (rule realloc_resultI [OF R(1) _ live assms(4)])
    show "bytes \<le> m" using aligned_props(1) [OF al] a(2) by simp
    show "r = p \<or> r \<notin> fst ` live HEAP_BASE ss" using a(4) by simp
    show "halted (km (release (at xs) h2)) = halted (km h)"
      using R(2) a(6) by (simp add: same_rest_def h2_def copy_payload_def)
    show "\<forall>i<min n m. payload (release (at xs) h2) (r + i) = payload h (p + i)"
      unfolding pay by (simp add: wr_inside)
    show "\<forall>q k i. (q, k) \<in> live HEAP_BASE ss - {(p, n)} \<longrightarrow> i < k \<longrightarrow> payload (release (at xs) h2) (q + i) = payload h (q + i)"
      unfolding pay using apart by (fastforce intro!: wr_outside)
  qed
  then show ?thesis by (simp add: h2_def size ss_def)
qed

text \<open>The three ways to serve a request, by the segments around the block.\<close>

lemma krealloc_cases:
  assumes "heap_at h (xs @ (n, False) # ys)" and "p = at xs + SIZEOF_BLOCK" and "bytes \<noteq> 0" and "aligned bytes \<noteq> 0"
    and "find_block p h = Some (at xs)"
  shows "krealloc p bytes h =
      (if aligned bytes \<le> n then Some (p, split (at xs) (aligned bytes) h)
       else if ys \<noteq> [] \<and> snd (hd ys) \<and> aligned bytes \<le> n + SIZEOF_BLOCK + fst (hd ys)
       then Some (p, split (at xs) (aligned bytes) (join_next (at xs) h))
       else map_option (\<lambda>(result, h1). (result, if result \<noteq> 0
              then release (at xs) (copy_payload result p (block_size (headers h1 (at xs))) h1) else h1)) (allocate (aligned bytes) h))"
proof -
  note hd1 = heap_at_header [OF assms(1)]
  have nb: "headers h (at xs + SIZEOF_BLOCK + n) = \<lparr>block_size = fst (hd ys), block_previous = at xs,
      block_next = (if tl ys = [] then 0 else at xs + SIZEOF_BLOCK + n + SIZEOF_BLOCK + fst (hd ys)), block_free = snd (hd ys)\<rparr>"
    if "ys \<noteq> []"
  proof -
    have "xs @ (n, False) # ys = (xs @ [(n, False)]) @ (fst (hd ys), snd (hd ys)) # tl ys" using that by simp
    from heap_at_header [OF assms(1) [unfolded this]] show ?thesis by (simp add: add.assoc)
  qed
  show ?thesis
    unfolding krealloc_def assms(5) option.case Let_def hd1
    using nb assms(2-4) by (cases "ys = []") simp_all
qed

lemma krealloc_result:
  assumes "heap_view h ss" and "p \<noteq> 0" and "bytes \<noteq> 0"
  shows "\<exists>r h'. krealloc p bytes h = Some (r, h') \<and>
           (if aligned bytes = 0 \<or> p \<notin> fst ` live HEAP_BASE ss then r = 0 \<and> h' = h
            else \<exists>n. (p, n) \<in> live HEAP_BASE ss \<and> realloc_result bytes h ss p n r h' \<and> (aligned bytes \<le> n \<longrightarrow> r = p))"
proof -
  have ha: "heap_at h ss" using assms(1) by (simp add: heap_view_def heap_ok_def)
  obtain b where b: "find_block p h = Some b" and f: "if b = 0 then p \<notin> fst ` live HEAP_BASE ss
        else \<exists>xs n ys. ss = xs @ (n, False) # ys \<and> b = at xs \<and> p = b + SIZEOF_BLOCK"
    using find_result [OF ha] by blast
  show ?thesis
  proof (cases "b = 0 \<or> aligned bytes = 0")
    case True
    have "b = 0 \<Longrightarrow> p \<notin> fst ` live HEAP_BASE ss" using f by simp
    with True show ?thesis using assms(2,3) b by (auto simp: krealloc_def Let_def)
  next
    case False
    then obtain xs n ys where s: "ss = xs @ (n, False) # ys" "b = at xs" "p = at xs + SIZEOF_BLOCK" and al: "aligned bytes \<noteq> 0"
      using f by auto
    have "(p, n) \<in> live HEAP_BASE ss" by (simp add: s)
    then have pin: "(p, n) \<in> live HEAP_BASE ss" "\<not> (aligned bytes = 0 \<or> p \<notin> fst ` live HEAP_BASE ss)" using al by force+
    note eq = krealloc_cases [OF ha [unfolded s(1)] s(3) assms(3) al b [unfolded s(2)]]
    have view: "heap_view h (xs @ (n, False) # ys)" using assms(1) s(1) by simp
    have "\<exists>r h'. krealloc p bytes h = Some (r, h') \<and> realloc_result bytes h ss p n r h' \<and> (aligned bytes \<le> n \<longrightarrow> r = p)"
    proof -
      consider (fit) "aligned bytes \<le> n"
        | (join) "\<not> aligned bytes \<le> n" "ys \<noteq> []" "snd (hd ys)" "aligned bytes \<le> n + SIZEOF_BLOCK + fst (hd ys)"
        | (move) "\<not> aligned bytes \<le> n" "\<not> (ys \<noteq> [] \<and> snd (hd ys) \<and> aligned bytes \<le> n + SIZEOF_BLOCK + fst (hd ys))" by blast
      then show ?thesis
      proof cases
        case fit
        have "realloc_result bytes h (xs @ (n, False) # ys) p n p (split (at xs) (aligned bytes) h)" unfolding s(3)
          using view by (intro realloc_in_place [OF _ _ same_rest_steps(1) al fit live_minus_block]) (simp_all add: heap_view_def)
        then show ?thesis using eq fit s(1) by simp
      next
        case join
        then have ys: "ys = (fst (hd ys), True) # tl ys" by (cases ys) (auto simp: prod_eq_iff)
        have "realloc_result bytes h (xs @ (n, False) # ys) p n p (split (at xs) (aligned bytes) (join_next (at xs) h))"
          unfolding s(3) using realloc_join [of h xs n "fst (hd ys)" "tl ys" bytes] ys view al join(4) by simp
        then show ?thesis using eq join s(1) by simp
      next
        case move
        obtain r h1 where a: "allocate (aligned bytes) h = Some (r, h1)" "alloc_result (aligned bytes) h (xs @ (n, False) # ys) r h1"
          using allocate_result [OF view, of "aligned bytes"] by blast
        show ?thesis
        proof (cases "r = 0")
          case True
          then have "realloc_result bytes h ss p n 0 h1" using a(2) s(1) by (simp add: realloc_result_def alloc_result_def)
          then show ?thesis using eq move a(1) True by simp
        next
          case False
          have "n < aligned bytes" using move(1) by simp
          from realloc_move [OF view this a(2) False s(3)] show ?thesis using eq move a(1) False s(1) by simp
        qed
      qed
    qed
    then show ?thesis using pin by auto
  qed
qed

section \<open>Start and statistics\<close>

lemma heap_initialize_result:
  assumes "heap_view h ss" and "heap_initialize h = (ok, h')"
  shows "if ok then ss = [] \<and> heap_view h' [(PAGE_SIZE - SIZEOF_BLOCK, True)] else heap_view h' ss"
proof (cases "heap_ready h")
  case True
  then show ?thesis using assms by (simp add: heap_initialize_def)
next
  case False
  then have ss: "ss = []" "heap_ok h []" using assms(1) by (auto simp: heap_view_def)
  obtain ok1 h1 where g: "grow PAGE_SIZE h = (ok1, h1)" by fastforce
  have "page_round PAGE_SIZE = PAGE_SIZE" by (simp add: page_round_def layout_defs)
  with grow_result [OF ss(2) PAGE_SIZE_pos(1) g] show ?thesis
    using assms(2) False g ss(1) by (auto simp: heap_initialize_def heap_view_def heap_ok_def heap_at_def grow_segs_def split: if_splits)
qed

lemma heap_stats_result:
  assumes "heap_view h ss"
  shows "heap_stats h = Some \<lparr>mapped_bytes = span ss, used_bytes = sum_list (map fst (filter (\<lambda>s. \<not> snd s) ss)),
      free_bytes = sum_list (map fst (filter snd ss)), allocations = length (filter (\<lambda>s. \<not> snd s) ss)\<rparr>"
  using stats_from_sum [of "headers h" 0 HEAP_BASE ss] assms
  by (simp add: heap_stats_def heap_view_def heap_ok_def heap_at_def)

lemma live_sum:
  "(\<Sum>x\<in>live a ss. snd x) = sum_list (map fst (filter (\<lambda>s. \<not> snd s) ss))" (is ?sum)
  "card (live a ss) = length (filter (\<lambda>s. \<not> snd s) ss)" (is ?card) "finite (live a ss)"
proof -
  have "finite (live a ss) \<and> (\<Sum>x\<in>live a ss. snd x) = sum_list (map fst (filter (\<lambda>s. \<not> snd s) ss)) \<and>
    card (live a ss) = length (filter (\<lambda>s. \<not> snd s) ss)"
  proof (induction ss arbitrary: a rule: span.induct)
    case (2 n f ss)
    have "(a + SIZEOF_BLOCK, n) \<notin> live (a + SIZEOF_BLOCK + n) ss"
      using live_bounds [of "a + SIZEOF_BLOCK" n "a + SIZEOF_BLOCK + n" ss] by auto
    with "2.IH" [of "a + SIZEOF_BLOCK + n"] show ?case by simp
  qed simp
  then show ?sum ?card "finite (live a ss)" by blast+
qed

lemma span_sums:
  "span ss = SIZEOF_BLOCK * length ss + sum_list (map fst (filter (\<lambda>s. \<not> snd s) ss)) + sum_list (map fst (filter snd ss))"
  by (induction ss rule: span.induct) auto

end
