(* ===== verification/Rum_Heap_Props.thy ===== *)
theory Rum_Heap_Props
  imports Rum_Heap_Ops Rum_Paging_Props
begin

text \<open>
  Properties of the kernel heap, stated over the set of live payloads (address and capacity): the
  contract its clients rely on, as a locale, and the heap as an instance of it.
\<close>

section \<open>The contract\<close>

text \<open>\<open>holds s L\<close>: the allocator is in good order and \<open>L\<close> are the payloads handed out.\<close>

locale block_allocator =
  fixes holds :: "'s \<Rightarrow> (nat \<times> nat) set \<Rightarrow> bool" and alloc :: "nat \<Rightarrow> 's \<Rightarrow> (nat \<times> 's) option"
    and dispose :: "nat \<Rightarrow> 's \<Rightarrow> (bool \<times> 's) option"
  assumes alloc_law: "holds s L \<Longrightarrow> \<exists>p s'. alloc n s = Some (p, s') \<and>
      (if p = 0 then holds s' L else p \<notin> fst ` L \<and> (\<exists>m\<ge>n. holds s' (insert (p, m) L)))"
    and dispose_law: "holds s L \<Longrightarrow> \<exists>ok s'. dispose p s = Some (ok, s') \<and>
      (ok \<longleftrightarrow> p = 0 \<or> p \<in> fst ` L) \<and> holds s' {x \<in> L. fst x \<noteq> p}"
begin

lemma alloc_dispose:
  assumes "holds s L" and "alloc n s = Some (p, s1)" and "p \<noteq> 0"
  shows "\<exists>s2. dispose p s1 = Some (True, s2) \<and> holds s2 L"
proof -
  obtain m where m: "p \<notin> fst ` L" "holds s1 (insert (p, m) L)" using alloc_law [OF assms(1), of n] assms(2,3) by auto
  obtain ok s2 where "dispose p s1 = Some (ok, s2)" "ok \<longleftrightarrow> p = 0 \<or> p \<in> fst ` insert (p, m) L"
      "holds s2 {x \<in> insert (p, m) L. fst x \<noteq> p}" using dispose_law [OF m(2)] by blast
  moreover have "{x \<in> insert (p, m) L. fst x \<noteq> p} = L" using m(1) by force
  ultimately show ?thesis by auto
qed

lemma dispose_twice:
  assumes "holds s L" and "p \<noteq> 0" and "dispose p s = Some (ok, s1)"
  shows "\<exists>s2. dispose p s1 = Some (False, s2)"
proof -
  have h: "holds s1 {x \<in> L. fst x \<noteq> p}" using dispose_law [OF assms(1), of p] assms(3) by auto
  obtain ok' s2 where "dispose p s1 = Some (ok', s2)" "ok' \<longleftrightarrow> p = 0 \<or> p \<in> fst ` {x \<in> L. fst x \<noteq> p}"
    using dispose_law [OF h, of p] by blast
  then show ?thesis using assms(2) by auto
qed

end

definition heap_holds :: "heap \<Rightarrow> (nat \<times> nat) set \<Rightarrow> bool" where
  "heap_holds h L \<longleftrightarrow> (\<exists>ss. heap_view h ss \<and> L = live HEAP_BASE ss)"

interpretation ka: block_allocator heap_holds kmalloc kfree
proof
  fix h L n p
  assume "heap_holds h L"
  then obtain ss where v: "heap_view h ss" "L = live HEAP_BASE ss" by (auto simp: heap_holds_def)
  show "\<exists>p s'. kmalloc n h = Some (p, s') \<and>
      (if p = 0 then heap_holds s' L else p \<notin> fst ` L \<and> (\<exists>m\<ge>n. heap_holds s' (insert (p, m) L)))"
    using allocate_result [OF v(1), of n] unfolding kmalloc_def heap_holds_def alloc_result_def v(2) by (metis (no_types, lifting))
  show "\<exists>ok s'. kfree p h = Some (ok, s') \<and> (ok \<longleftrightarrow> p = 0 \<or> p \<in> fst ` L) \<and> heap_holds s' {x \<in> L. fst x \<noteq> p}"
  proof -
    obtain ok h' ss' where "kfree p h = Some (ok, h')" "heap_view h' ss'" "ok \<longleftrightarrow> p = 0 \<or> p \<in> fst ` L"
        "live HEAP_BASE ss' = {x \<in> L. fst x \<noteq> p}"
      using kfree_result [OF v(1), of p] v(2) by blast
    then show ?thesis unfolding heap_holds_def by (intro exI conjI) auto
  qed
qed

text \<open>What the layout guarantees about the live payloads.\<close>

definition heap_range_ok :: "heap \<Rightarrow> (nat \<times> nat) set \<Rightarrow> bool" where
  "heap_range_ok h L \<longleftrightarrow>
     (\<forall>p m. (p, m) \<in> L \<longrightarrow> HEAP_ALIGNMENT dvd p \<and> 0 < m \<and> HEAP_BASE + SIZEOF_BLOCK \<le> p \<and> p + m \<le> RUM_HEAP_END \<and>
        (\<forall>a. p \<le> a \<and> a < p + m \<longrightarrow> paging_translate (km h) Space_Kernel a \<noteq> None)) \<and>
     (\<forall>p m q k. (p, m) \<in> L \<longrightarrow> (q, k) \<in> L \<longrightarrow> (p, m) \<noteq> (q, k) \<longrightarrow> p + m + SIZEOF_BLOCK \<le> q \<or> q + k + SIZEOF_BLOCK \<le> p)"

lemma pages_owned_translate:
  assumes "pages_owned m n" and "PAGE_SIZE dvd n" and "HEAP_BASE \<le> a" and "a < HEAP_BASE + n"
  shows "paging_translate m Space_Kernel a \<noteq> None"
proof
  assume none: "paging_translate m Space_Kernel a = None"
  define i where "i = (a - HEAP_BASE) div PAGE_SIZE * PAGE_SIZE"
  have i: "PAGE_SIZE dvd i" "i \<le> a - HEAP_BASE" "a - HEAP_BASE < i + PAGE_SIZE"
    using div_mult_mod_eq [of "a - HEAP_BASE" PAGE_SIZE] mod_less_divisor [OF PAGE_SIZE_pos(1), of "a - HEAP_BASE"]
    unfolding i_def by (simp, linarith, linarith)
  have "(HEAP_BASE + i) div PAGE_SIZE = a div PAGE_SIZE" using heap_page_div [OF i(1), of a] i assms(3) by auto
  from translate_none_page [OF this none] have "paging_translate m Space_Kernel (HEAP_BASE + i) = None" .
  moreover have "i < n" using i(2) assms(3,4) by linarith
  ultimately show False using assms(1) i(1) by (auto simp: pages_owned_def)
qed

lemma heap_holds_range: "heap_holds h L \<Longrightarrow> heap_range_ok h L"
proof -
  assume "heap_holds h L"
  then obtain ss where v: "heap_ok h ss" and L: "L = live HEAP_BASE ss" by (auto simp: heap_holds_def heap_view_def)
  have inv: "pages_owned (km h) (span ss)" "PAGE_SIZE dvd span ss" "segs_ok ss" "span ss \<le> HEAP_LIMIT"
    using v by (simp_all add: heap_ok_def)
  have lim: "HEAP_BASE + span ss \<le> RUM_HEAP_END" using inv(4) by (simp add: heap_consts)
  have "paging_translate (km h) Space_Kernel a \<noteq> None" if "(p, m) \<in> L" "p \<le> a" "a < p + m" for p m a
  proof -
    have "HEAP_BASE \<le> a" "a < HEAP_BASE + span ss" using live_bounds [OF that(1) [unfolded L]] that(2,3) by linarith+
    then show ?thesis by (rule pages_owned_translate [OF inv(1,2)])
  qed
  moreover have "HEAP_ALIGNMENT dvd p \<and> 0 < m \<and> HEAP_BASE + SIZEOF_BLOCK \<le> p \<and> p + m \<le> RUM_HEAP_END" if "(p, m) \<in> L" for p m
    using live_aligned [OF inv(3) that [unfolded L]] live_bounds [OF that [unfolded L]] lim by linarith
  moreover have "p + m + SIZEOF_BLOCK \<le> q \<or> q + k + SIZEOF_BLOCK \<le> p" if "(p, m) \<in> L" "(q, k) \<in> L" "(p, m) \<noteq> (q, k)" for p m q k
    using live_apart [of p m HEAP_BASE ss q k] that L by blast
  ultimately show ?thesis unfolding heap_range_ok_def by blast
qed

section \<open>A sample heap\<close>

text \<open>One page is mapped at the heap base, on frame 257; it is one free block.\<close>

definition heap_sample :: heap where
  "heap_sample =
     \<lparr> headers = (\<lambda>_. \<lparr>block_size = PAGE_SIZE - SIZEOF_BLOCK, block_previous = 0, block_next = 0, block_free = True\<rparr>),
       payload = (\<lambda>_. 0), heap_first = HEAP_BASE, heap_last = HEAP_BASE, heap_mapped = PAGE_SIZE, heap_ready = True,
       km = snd (paging_map_page Space_Kernel HEAP_BASE (257 * PAGE_SIZE) PAGING_WRITABLE machine_sample) \<rparr>"

lemma heap_sample_machine:
  "kernel_inv (km heap_sample)" "pages_owned (km heap_sample) PAGE_SIZE"
proof -
  let ?f = "257 * PAGE_SIZE"
  obtain ok m where e: "paging_map_page Space_Kernel HEAP_BASE ?f PAGING_WRITABLE machine_sample = (ok, m)" by fastforce
  have ks: "paging_kernel_space machine_sample = Space_Kernel" by (simp add: paging_kernel_space_def machine_sample_def)
  have data: "data_frames machine_sample = {256 * PAGE_SIZE, ?f}"
    using machine_sample_pm(2) by (auto simp: data_frames_def taken_def kernel_tables_def kernel_entry_def machine_sample_zero frames_def)
  have dirs: "dirs machine_sample = [256 * PAGE_SIZE]" by (simp add: dirs_def machine_sample_def)
  have i0: "?f \<in> data_frames machine_sample" "PAGE_SIZE dvd 0" "0 < HEAP_LIMIT" by (simp_all add: data heap_consts)
  note M = map_heap_page [OF machine_sample_inv i0(1), of 0 ok m, unfolded ks add_0_right, OF _ _ e]
  note T = map_page_translations [OF machine_sample_inv e]
  have known: "known_space machine_sample Space_Kernel" by (simp add: known_space_def machine_sample_def)
  have none: "paging_translate machine_sample Space_Kernel HEAP_BASE = None"
    using translate_kernel_half [OF machine_sample_inv known, of HEAP_BASE]
    by (simp add: kernel_walk_def kernel_entry_def machine_sample_zero heap_consts)
  have "map_guard machine_sample Space_Kernel HEAP_BASE ?f PAGING_WRITABLE"
    using pmm_is_allocated_iff [OF machine_sample_pm(1)] machine_sample_pm(2)
    by (simp add: map_guard_def memory_kernel_mapping_range_def memory_range_contains_def heap_consts PAGING_WRITABLE_def)
  then have ok: "ok" using T none machine_sample_pm(3) by simp
  have km: "km heap_sample = m" using e by (simp add: heap_sample_def)
  have tr: "paging_translate m Space_Kernel HEAP_BASE = Some ?f"
    using M(6) [of HEAP_BASE] ok by (simp add: heap_consts)
  have only: "i = 0" if "i < PAGE_SIZE" "PAGE_SIZE dvd i" for i using that dvd_imp_le [of PAGE_SIZE i] by linarith
  have f: "?f \<in> data_frames m - set (dirs m)" using M(3,4) data dirs by (simp add: heap_consts)
  show "kernel_inv (km heap_sample)" using M(1) i0 by (simp add: km)
  show "pages_owned (km heap_sample) PAGE_SIZE"
    unfolding pages_owned_def km using only tr f by (metis add_0_right)
qed

lemma heap_sample_view: "heap_view heap_sample [(PAGE_SIZE - SIZEOF_BLOCK, True)]"
proof -
  have "heap_at heap_sample [(PAGE_SIZE - SIZEOF_BLOCK, True)]" by (simp add: heap_at_def heap_sample_def heap_consts)
  moreover have "segs_ok [(PAGE_SIZE - SIZEOF_BLOCK, True)]" by (simp add: segs_ok_Cons_iff heap_consts)
  moreover have sp: "span [(PAGE_SIZE - SIZEOF_BLOCK, True)] = PAGE_SIZE" by (simp add: heap_consts)
  moreover have "heap_ready heap_sample" by (simp add: heap_sample_def)
  ultimately show ?thesis
    using heap_sample_machine unfolding heap_view_def heap_ok_def sp by (simp add: heap_consts)
qed

section \<open>Allocation\<close>

lemma aligned_le: "HEAP_ALIGNMENT dvd n \<Longrightarrow> bytes \<le> n \<Longrightarrow> aligned bytes \<le> n"
proof -
  assume "HEAP_ALIGNMENT dvd n" and le: "bytes \<le> n"
  then obtain k where k: "n = 16 * k" by (auto simp: HEAP_ALIGNMENT_def)
  then have "(bytes + 16 - 1) div 16 \<le> k" using le by (simp add: less_Suc_eq_le div_le_mono)
  then show ?thesis using k by (simp add: aligned_def HEAP_ALIGNMENT_def)
qed

text \<open>C3: kmalloc always returns. It returns null and changes no payload, header or kernel
  translation and keeps every frame where it was, or it returns a payload of at least the
  requested size that is aligned, mapped, inside the heap window and apart (with a header between)
  from every other live payload, and all other live payloads and all payload bytes are as they
  were. A request that fits a free block is never refused.\<close>

theorem kmalloc_correct:
  assumes "heap_view h ss"
  shows "\<exists>p h'. kmalloc bytes h = Some (p, h') \<and> payload h' = payload h \<and> halted (km h') = halted (km h) \<and>
     (if p = 0 then heap_view h' ss \<and> restored (km h) (km h')
      else p \<notin> fst ` live HEAP_BASE ss \<and>
           (\<exists>m\<ge>bytes. heap_holds h' (insert (p, m) (live HEAP_BASE ss)) \<and>
                      heap_range_ok h' (insert (p, m) (live HEAP_BASE ss)))) \<and>
     (0 < bytes \<and> bytes \<le> HEAP_LIMIT - SIZEOF_BLOCK \<and> (\<exists>n. (n, True) \<in> set ss \<and> bytes \<le> n) \<longrightarrow> p \<noteq> 0)"
proof -
  obtain p h' where a: "allocate bytes h = Some (p, h')" "alloc_result bytes h ss p h'"
      "heap_ready h \<and> aligned bytes \<noteq> 0 \<and> (\<exists>n. (n, True) \<in> set ss \<and> aligned bytes \<le> n) \<longrightarrow> p \<noteq> 0"
    using allocate_result [OF assms] by blast
  have "p \<noteq> 0" if b: "0 < bytes" "bytes \<le> HEAP_LIMIT - SIZEOF_BLOCK" "\<exists>n. (n, True) \<in> set ss \<and> bytes \<le> n"
  proof -
    have "heap_ready h" "\<And>n. (n, True) \<in> set ss \<Longrightarrow> HEAP_ALIGNMENT dvd n"
      using assms b(3) by (auto simp: heap_view_def heap_ok_def segs_ok_def)
    moreover have "aligned bytes \<noteq> 0" using b(1,2) by (simp add: aligned_def HEAP_ALIGNMENT_def)
    ultimately show ?thesis using a(3) b(3) aligned_le by blast
  qed
  moreover have "\<exists>m\<ge>bytes. heap_holds h' (insert (p, m) (live HEAP_BASE ss)) \<and>
      heap_range_ok h' (insert (p, m) (live HEAP_BASE ss))" if "p \<noteq> 0"
    using a(2) that heap_holds_range unfolding alloc_result_def heap_holds_def by (metis (no_types, lifting))
  ultimately show ?thesis using a(1,2) unfolding kmalloc_def alloc_result_def by auto
qed

theorem kmalloc_correct_witness:
  "\<exists>p h'. kmalloc 100 heap_sample = Some (p, h') \<and> p \<noteq> 0 \<and> (\<exists>m\<ge>100. heap_holds h' {(p, m)} \<and> heap_range_ok h' {(p, m)})"
  using kmalloc_correct [OF heap_sample_view, of 100] by (auto simp: heap_consts)

text \<open>C24: kfree always returns, reports success exactly for null and for the address of a live
  payload, removes exactly that payload, and otherwise changes nothing; it never touches payload
  bytes or the page tables.\<close>

theorem kfree_correct:
  assumes "heap_holds h L"
  shows "\<exists>ok h'. kfree p h = Some (ok, h') \<and> (ok \<longleftrightarrow> p = 0 \<or> p \<in> fst ` L) \<and> (\<not> ok \<longrightarrow> h' = h) \<and>
           heap_holds h' {x \<in> L. fst x \<noteq> p} \<and> payload h' = payload h \<and> km h' = km h"
proof -
  obtain ss where v: "heap_view h ss" "L = live HEAP_BASE ss" using assms by (auto simp: heap_holds_def)
  obtain ok h' ss' where "kfree p h = Some (ok, h')" "same_rest h h'" "heap_view h' ss'" "ok \<longleftrightarrow> p = 0 \<or> p \<in> fst ` L"
      "\<not> ok \<longrightarrow> h' = h" "live HEAP_BASE ss' = {x \<in> L. fst x \<noteq> p}"
    using kfree_result [OF v(1), of p] v(2) by blast
  then show ?thesis unfolding heap_holds_def same_rest_def by (intro exI [of _ ok] exI [of _ h']) auto
qed

theorem kfree_correct_witness:
  "\<exists>h'. kfree 12345 heap_sample = Some (False, h') \<and> h' = heap_sample"
proof -
  have "heap_holds heap_sample {}" unfolding heap_holds_def using heap_sample_view by fastforce
  from kfree_correct [OF this, of 12345] show ?thesis by auto
qed

text \<open>C25: an allocated block can be released, which restores the set of live payloads, and a second
  release of the same address is refused.\<close>

theorem kmalloc_kfree_roundtrip:
  assumes "heap_holds h L" and "kmalloc bytes h = Some (p, h1)" and "p \<noteq> 0"
  shows "\<exists>h2 h3. kfree p h1 = Some (True, h2) \<and> heap_holds h2 L \<and> kfree p h2 = Some (False, h3)"
proof -
  obtain h2 where h2: "kfree p h1 = Some (True, h2)" "heap_holds h2 L" using ka.alloc_dispose [OF assms] by blast
  obtain m where "heap_holds h1 (insert (p, m) L)" using ka.alloc_law [OF assms(1), of bytes] assms(2,3) by auto
  from ka.dispose_twice [OF this assms(3) h2(1)] show ?thesis using h2 by blast
qed

theorem kmalloc_kfree_roundtrip_witness:
  "\<exists>p h1 h2. kmalloc 100 heap_sample = Some (p, h1) \<and> kfree p h1 = Some (True, h2) \<and> heap_holds h2 {}"
proof -
  have hold: "heap_holds heap_sample {}" unfolding heap_holds_def using heap_sample_view by fastforce
  obtain p h1 where p: "kmalloc 100 heap_sample = Some (p, h1)" "p \<noteq> 0"
    using allocate_result [OF heap_sample_view, of 100]
    by (auto simp: kmalloc_def heap_consts aligned_def heap_sample_def)
  from kmalloc_kfree_roundtrip [OF hold p] p show ?thesis by blast
qed


text \<open>A heap with one live block of 112 bytes.\<close>

lemma heap_sample_used:
  "\<exists>h ss. heap_view h ss \<and> (HEAP_BASE + SIZEOF_BLOCK, 112) \<in> live HEAP_BASE ss"
proof -
  have v: "heap_ok heap_sample ([] @ (PAGE_SIZE - SIZEOF_BLOCK, True) # [])" "heap_ready heap_sample"
    using heap_sample_view by (simp_all add: heap_view_def)
  obtain p h' where t: "take_block (at []) 112 heap_sample = (p, h')" by fastforce
  have "(112 :: nat) \<le> PAGE_SIZE - SIZEOF_BLOCK" "HEAP_ALIGNMENT \<le> 112" "HEAP_ALIGNMENT dvd 112" by (simp_all add: heap_consts)
  note T = take_block [OF v(1) this t]
  have "split_seg 112 (PAGE_SIZE - SIZEOF_BLOCK) False [] = [(112, False), (3952, True)]"
    by (simp add: split_seg_def heap_consts)
  then have "heap_ok h' [(112, False), (3952, True)]" "heap_ready h'" using T v(2) by (simp_all add: same_rest_def)
  then have "heap_view h' [(112, False), (3952, True)]" by (simp add: heap_view_def)
  then show ?thesis by (intro exI conjI) auto
qed


lemma heap_holds_payload: "heap_holds h M \<Longrightarrow> heap_holds (h\<lparr>payload := x\<rparr>) M"
  by (auto simp: heap_holds_def heap_view_def heap_ok_def heap_at_def)

lemma kcalloc_result:
  assumes "heap_holds h L"
  shows "\<exists>p h'. kcalloc count bytes h = Some (p, h') \<and>
     (count * bytes > SIZE_MAX \<longrightarrow> p = 0 \<and> h' = h) \<and>
     (if p = 0 then heap_holds h' L \<and> payload h' = payload h
      else p \<notin> fst ` L \<and> (\<exists>m\<ge>count * bytes. heap_holds h' (insert (p, m) L)) \<and>
           (\<forall>i<count * bytes. payload h' (p + i) = 0) \<and>
           (\<forall>x. x < p \<or> p + count * bytes \<le> x \<longrightarrow> payload h' x = payload h x))"
proof (cases "count = 0 \<or> bytes = 0 \<or> count > SIZE_MAX div bytes")
  case True
  then show ?thesis using assms by (auto simp: kcalloc_def)
next
  case False
  obtain ss where v: "heap_view h ss" "L = live HEAP_BASE ss" using assms by (auto simp: heap_holds_def)
  have small: "\<not> count * bytes > SIZE_MAX" using False less_eq_div_iff_mult_less_eq [of bytes count SIZE_MAX] by simp
  obtain p h1 where p: "allocate (count * bytes) h = Some (p, h1)" "alloc_result (count * bytes) h ss p h1"
    using allocate_result [OF v(1)] by blast
  then have a: "kmalloc (count * bytes) h = Some (p, h1)" "payload h1 = payload h"
      "if p = 0 then heap_holds h1 L else p \<notin> fst ` L \<and> (\<exists>m\<ge>count * bytes. heap_holds h1 (insert (p, m) L))"
    using ka.alloc_law [OF assms, of "count * bytes"] by (auto simp: kmalloc_def alloc_result_def)
  show ?thesis
  proof (cases "p = 0")
    case True
    then show ?thesis using False small a by (simp add: kcalloc_def)
  next
    case p: False
    define h' where "h' = h1\<lparr>payload := wr (payload h1) p (replicate (count * bytes) 0)\<rparr>"
    have "kcalloc count bytes h = Some (p, h')" using False a(1) p by (simp add: kcalloc_def h'_def)
    moreover have "\<exists>m\<ge>count * bytes. heap_holds h' (insert (p, m) L)" "p \<notin> fst ` L"
      using a(3) p heap_holds_payload unfolding h'_def by auto
    moreover have "payload h' (p + i) = 0" if "i < count * bytes" for i using that by (simp add: h'_def wr_inside)
    moreover have "payload h' x = payload h x" if "x < p \<or> p + count * bytes \<le> x" for x
      using wr_outside [of x p "replicate (count * bytes) 0"] that a(2) by (simp add: h'_def)
    ultimately show ?thesis using small p by auto
  qed
qed

text \<open>C26: kcalloc always returns; a product that does not fit the size type is refused, and a
  payload it returns holds count * bytes zero bytes while every byte outside it is unchanged.\<close>

theorem kcalloc_correct:
  assumes "heap_holds h L"
  shows "\<exists>p h'. kcalloc count bytes h = Some (p, h') \<and>
     (count * bytes > SIZE_MAX \<longrightarrow> p = 0 \<and> h' = h) \<and>
     (if p = 0 then heap_holds h' L \<and> payload h' = payload h
      else p \<notin> fst ` L \<and> (\<exists>m\<ge>count * bytes. heap_holds h' (insert (p, m) L)) \<and>
           (\<forall>i<count * bytes. payload h' (p + i) = 0) \<and>
           (\<forall>x. x < p \<or> p + count * bytes \<le> x \<longrightarrow> payload h' x = payload h x))"
  by (rule kcalloc_result [OF assms])

theorem kcalloc_correct_witness: "kcalloc 65536 65536 heap_sample = Some (0, heap_sample)"
proof -
  have "heap_holds heap_sample {}" unfolding heap_holds_def using heap_sample_view by fastforce
  from kcalloc_correct [OF this, of 65536 65536] show ?thesis by auto
qed

text \<open>C27: the statistics are exact: used bytes and allocations count the live payloads, and headers,
  used and free bytes together are exactly the mapped bytes, which never exceed the window.\<close>

theorem heap_stats_correct:
  assumes "heap_view h ss"
  shows "\<exists>st. heap_stats h = Some st \<and> used_bytes st = (\<Sum>x\<in>live HEAP_BASE ss. snd x) \<and>
     allocations st = card (live HEAP_BASE ss) \<and> mapped_bytes st \<le> HEAP_LIMIT \<and>
     mapped_bytes st = SIZEOF_BLOCK * length ss + used_bytes st + free_bytes st"
  using heap_stats_result [OF assms] live_sum [of HEAP_BASE ss] span_sums [of ss] assms
  by (simp add: heap_view_def heap_ok_def)

theorem heap_stats_correct_witness:
  "\<exists>st. heap_stats heap_sample = Some st \<and> used_bytes st = 0 \<and> free_bytes st + 16 = mapped_bytes st"
  using heap_stats_correct [OF heap_sample_view] by (auto simp: SIZEOF_BLOCK_def)

section \<open>Sequences of operations\<close>

datatype heap_op = Malloc nat | Calloc nat nat | Realloc nat nat | Free nat

definition heap_do :: "heap_op \<Rightarrow> heap \<Rightarrow> heap option" where
  "heap_do c h =
     (case c of
        Malloc n \<Rightarrow> map_option snd (kmalloc n h)
      | Calloc k n \<Rightarrow> map_option snd (kcalloc k n h)
      | Realloc p n \<Rightarrow> map_option snd (krealloc p n h)
      | Free p \<Rightarrow> map_option snd (kfree p h))"

fun heap_run :: "heap_op list \<Rightarrow> heap \<Rightarrow> heap option" where
  "heap_run [] h = Some h"
| "heap_run (c # cs) h = (case heap_do c h of None \<Rightarrow> None | Some h1 \<Rightarrow> heap_run cs h1)"

lemma krealloc_holds:
  assumes "heap_holds h L"
  shows "\<exists>r h' L'. krealloc p n h = Some (r, h') \<and> heap_holds h' L'"
proof -
  obtain ss where v: "heap_view h ss" using assms by (auto simp: heap_holds_def)
  consider "p = 0" | "p \<noteq> 0" "n = 0" | "p \<noteq> 0" "n \<noteq> 0" by blast
  then show ?thesis
  proof cases
    case 1
    obtain q h' where "kmalloc n h = Some (q, h')"
        "if q = 0 then heap_holds h' L else q \<notin> fst ` L \<and> (\<exists>m\<ge>n. heap_holds h' (insert (q, m) L))"
      using ka.alloc_law [OF assms, of n] by blast
    then show ?thesis using 1 by (cases "q = 0") (auto simp: krealloc_def)
  next
    case 2
    then show ?thesis using ka.dispose_law [OF assms, of p] by (auto simp: krealloc_def)
  next
    case 3
    obtain r h' where e: "krealloc p n h = Some (r, h')" and k: "if aligned n = 0 \<or> p \<notin> fst ` live HEAP_BASE ss then r = 0 \<and> h' = h
            else \<exists>k. (p, k) \<in> live HEAP_BASE ss \<and> realloc_result n h ss p k r h' \<and> (aligned n \<le> k \<longrightarrow> r = p)"
      using krealloc_result [OF v 3] by blast
    have "\<exists>ss'. heap_view h' ss'" using k v unfolding realloc_result_def by (auto split: if_splits)
    then show ?thesis using e by (auto simp: heap_holds_def)
  qed
qed

lemma heap_do_holds: "heap_holds h L \<Longrightarrow> \<exists>h' L'. heap_do c h = Some h' \<and> heap_holds h' L'"
proof (cases c)
  case (Malloc n)
  assume "heap_holds h L"
  from ka.alloc_law [OF this, of n] show ?thesis unfolding heap_do_def Malloc by (auto split: if_splits)
next
  case (Calloc k n)
  assume "heap_holds h L"
  from kcalloc_result [OF this, of k n] have "\<exists>p h' L'. kcalloc k n h = Some (p, h') \<and> heap_holds h' L'" by metis
  then show ?thesis unfolding heap_do_def Calloc by auto
next
  case (Realloc p n)
  assume "heap_holds h L"
  from krealloc_holds [OF this, of p n] show ?thesis unfolding heap_do_def Realloc by auto
next
  case (Free p)
  assume "heap_holds h L"
  from ka.dispose_law [OF this, of p] show ?thesis unfolding heap_do_def Free by auto
qed

text \<open>C23: any sequence of heap operations on a sound heap, whatever its arguments, runs to the end:
  no walk over the block list diverges, and the heap stays sound, with live payloads aligned,
  mapped and pairwise apart.\<close>

theorem heap_run_total:
  assumes "heap_holds h L"
  shows "\<exists>h' L'. heap_run cs h = Some h' \<and> heap_holds h' L' \<and> heap_range_ok h' L'"
  using assms
proof (induction cs arbitrary: h L)
  case Nil
  then show ?case using heap_holds_range by auto
next
  case (Cons c cs)
  obtain h1 L1 where "heap_do c h = Some h1" "heap_holds h1 L1" using heap_do_holds [OF Cons.prems] by blast
  then show ?case using Cons.IH by simp
qed

theorem heap_run_total_witness:
  "\<exists>h' L'. heap_run [Malloc 40, Realloc 7 9, Free 3, Malloc 100] heap_sample = Some h' \<and> heap_holds h' L'"
proof -
  have "heap_holds heap_sample {}" unfolding heap_holds_def using heap_sample_view by fastforce
  from heap_run_total [OF this] show ?thesis by blast
qed

end
