(* ===== verification/Rum_Block.thy ===== *)
theory Rum_Block
  imports Rum_Errors
begin

text \<open>
  The block layer, \<open>kernel/io/block.c\<close>: admission of a request (device present, online, not
  busy), validation of its sector range and buffer, and the call of the driver. A driver is a
  table of optional operations on the device and its private state \<open>'d\<close>; a read returns the
  contents of the caller's buffer. The device pointer is taken to be non-null.
\<close>

section \<open>Devices and results\<close>

record block_result =
  br_error :: block_error
  br_completed :: nat
  br_status :: u8
  br_device_error :: u8

definition block_result_of :: "block_error \<Rightarrow> block_result" where
  "block_result_of e = \<lparr>br_error = e, br_completed = 0, br_status = 0, br_device_error = 0\<rparr>"

record 'd block_device =
  sector_count :: nat
  sector_size :: nat
  online :: bool
  dev_read_only :: bool
  dev_busy :: bool
  driver :: 'd

record 'd block_operations =
  bop_read :: "(nat \<Rightarrow> nat \<Rightarrow> u8 list \<Rightarrow> 'd block_device \<Rightarrow> block_result \<times> u8 list \<times> 'd block_device) option"
  bop_write :: "(nat \<Rightarrow> nat \<Rightarrow> u8 list \<Rightarrow> 'd block_device \<Rightarrow> block_result \<times> 'd block_device) option"
  bop_flush :: "('d block_device \<Rightarrow> block_result \<times> 'd block_device) option"

record 'd block_layer =
  device :: "'d block_device"
  active_requests :: nat

definition block_request_active :: "'d block_layer \<Rightarrow> bool" where
  "block_request_active s \<longleftrightarrow> active_requests s \<noteq> 0"

section \<open>Requests\<close>

definition block_acquire :: "'d block_operations option \<Rightarrow> 'd block_layer \<Rightarrow> block_error \<times> 'd block_layer" where
  "block_acquire ops s =
     (if ops = None \<or> sector_size (device s) = 0 then (BLOCK_INVALID, s)
      else
        (let error = (if \<not> online (device s) then BLOCK_NO_DEVICE
                      else if dev_busy (device s) \<or> active_requests s = UINT32_MAX then BLOCK_BUSY else BLOCK_OK)
         in (error, if error = BLOCK_OK
                    then s\<lparr>device := (device s)\<lparr>dev_busy := True\<rparr>, active_requests := active_requests s + 1\<rparr> else s)))"

definition block_release :: "'d block_layer \<Rightarrow> 'd block_layer" where
  "block_release s = s\<lparr>device := (device s)\<lparr>dev_busy := False\<rparr>, active_requests := active_requests s - 1\<rparr>"

definition block_validate :: "'d block_device \<Rightarrow> nat \<Rightarrow> nat \<Rightarrow> u8 list option \<Rightarrow> nat \<Rightarrow> block_error" where
  "block_validate dev lba count buffer bytes =
     (if lba > sector_count dev \<or> count > sector_count dev - lba then BLOCK_RANGE
      else if count \<noteq> 0 \<and> (buffer = None \<or> count > SIZE_MAX div sector_size dev \<or> count > bytes div sector_size dev)
      then BLOCK_INVALID
      else BLOCK_OK)"

definition block_read ::
  "'d block_operations option \<Rightarrow> nat \<Rightarrow> nat \<Rightarrow> u8 list option \<Rightarrow> nat \<Rightarrow> 'd block_layer \<Rightarrow>
     block_result \<times> u8 list option \<times> 'd block_layer" where
  "block_read ops lba count buffer bytes s =
     (let (error, s1) = block_acquire ops s in
      if error \<noteq> BLOCK_OK then (block_result_of error, buffer, s1)
      else
        (let error1 = block_validate (device s1) lba count buffer bytes;
             (result, buffer1, s2) =
               (if error1 = BLOCK_OK \<and> count \<noteq> 0 then
                  (case bop_read (the ops) of
                     Some f \<Rightarrow> (let (r, b, d) = f lba count (the buffer) (device s1) in (r, Some b, s1\<lparr>device := d\<rparr>))
                   | None \<Rightarrow> (block_result_of BLOCK_UNSUPPORTED, buffer, s1))
                else (block_result_of error1, buffer, s1))
         in (result, buffer1, block_release s2)))"

definition block_write ::
  "'d block_operations option \<Rightarrow> nat \<Rightarrow> nat \<Rightarrow> u8 list option \<Rightarrow> nat \<Rightarrow> 'd block_layer \<Rightarrow> block_result \<times> 'd block_layer" where
  "block_write ops lba count buffer bytes s =
     (let (error, s1) = block_acquire ops s in
      if error \<noteq> BLOCK_OK then (block_result_of error, s1)
      else
        (let error1 = block_validate (device s1) lba count buffer bytes;
             (result, s2) =
               (if error1 = BLOCK_OK \<and> count \<noteq> 0 then
                  (if dev_read_only (device s1) then (block_result_of BLOCK_READ_ONLY, s1)
                   else
                     (case bop_write (the ops) of
                        Some f \<Rightarrow> (let (r, d) = f lba count (the buffer) (device s1) in (r, s1\<lparr>device := d\<rparr>))
                      | None \<Rightarrow> (block_result_of BLOCK_UNSUPPORTED, s1)))
                else (block_result_of error1, s1))
         in (result, block_release s2)))"

definition block_flush :: "'d block_operations option \<Rightarrow> 'd block_layer \<Rightarrow> block_result \<times> 'd block_layer" where
  "block_flush ops s =
     (let (error, s1) = block_acquire ops s in
      if error \<noteq> BLOCK_OK then (block_result_of error, s1)
      else
        (let (result, s2) =
               (case bop_flush (the ops) of
                  Some f \<Rightarrow> (let (r, d) = f (device s1) in (r, s1\<lparr>device := d\<rparr>))
                | None \<Rightarrow> (block_result_of BLOCK_UNSUPPORTED, s1))
         in (result, block_release s2)))"

section \<open>Validation against unbounded arithmetic\<close>

text \<open>The subtractions and divisions of the code accept exactly the requests whose range and byte
  count fit, computed without overflow.\<close>

definition request_fits :: "'d block_device \<Rightarrow> nat \<Rightarrow> nat \<Rightarrow> u8 list option \<Rightarrow> nat \<Rightarrow> bool" where
  "request_fits dev lba count buffer bytes \<longleftrightarrow>
     lba + count \<le> sector_count dev \<and>
     (count = 0 \<or> buffer \<noteq> None \<and> count * sector_size dev \<le> bytes \<and> count * sector_size dev \<le> SIZE_MAX)"

lemma block_validate_fits:
  assumes "0 < sector_size dev"
  shows "block_validate dev lba count buffer bytes = BLOCK_OK \<longleftrightarrow> request_fits dev lba count buffer bytes"
proof -
  have d: "count > n div sector_size dev \<longleftrightarrow> \<not> count * sector_size dev \<le> n" for n
    using less_eq_div_iff_mult_less_eq [OF assms, of count n] by (simp add: not_le [symmetric])
  have r: "(lba > sector_count dev \<or> count > sector_count dev - lba) \<longleftrightarrow> \<not> lba + count \<le> sector_count dev" by linarith
  show ?thesis unfolding block_validate_def request_fits_def r d [of SIZE_MAX] d [of bytes]
    by (cases "lba + count \<le> sector_count dev"; cases "count = 0"; cases buffer; auto)
qed

text \<open>A driver that leaves the device's geometry and the request lock alone, and at most takes the
  device offline. This is what the
  lock protocol relies on.\<close>

definition keeps_device :: "'d block_device \<Rightarrow> 'd block_device \<Rightarrow> bool" where
  "keeps_device d d' \<longleftrightarrow>
     sector_count d' = sector_count d \<and> sector_size d' = sector_size d \<and> dev_read_only d' = dev_read_only d \<and>
     dev_busy d' = dev_busy d \<and> (online d' \<longrightarrow> online d)"

locale block_driver =
  fixes ops :: "'d block_operations"
  assumes read_keeps: "bop_read ops = Some f \<Longrightarrow> f lba n b d = (r, b', d') \<Longrightarrow> keeps_device d d'"
    and write_keeps: "bop_write ops = Some g \<Longrightarrow> g lba n b d = (r, d') \<Longrightarrow> keeps_device d d'"
    and flush_keeps: "bop_flush ops = Some k \<Longrightarrow> k d = (r, d') \<Longrightarrow> keeps_device d d'"
begin

lemma acquire_release:
  assumes "block_acquire (Some ops) s = (BLOCK_OK, s1)"
    and "s' = block_release s1 \<or> (\<exists>d. keeps_device (device s1) d \<and> s' = block_release (s1\<lparr>device := d\<rparr>))"
  shows "active_requests s' = active_requests s \<and> keeps_device (device s) (device s')"
  using assms by (auto simp: block_acquire_def block_release_def keeps_device_def Let_def split: if_splits)

lemma acquire_refused:
  "block_acquire (Some ops) s = (e, s1) \<Longrightarrow> e \<noteq> BLOCK_OK \<Longrightarrow> s1 = s"
  by (auto simp: block_acquire_def Let_def split: if_splits)

lemma keeps_refl [simp]: "keeps_device d d" by (simp add: keeps_device_def)

text \<open>Every request, granted or refused, leaves the request lock and the geometry as they were.\<close>

lemma read_unlocks:
  assumes "block_read (Some ops) lba n b m s = (r, b', s')"
  shows "active_requests s' = active_requests s \<and> keeps_device (device s) (device s')"
proof -
  obtain e s1 where a: "block_acquire (Some ops) s = (e, s1)" by fastforce
  show ?thesis
  proof (cases "e = BLOCK_OK")
    case False
    then show ?thesis using assms a acquire_refused [OF a] by (simp add: block_read_def)
  next
    case True
    have "s' = block_release s1 \<or> (\<exists>f r0 b0 d. bop_read ops = Some f \<and> f lba n (the b) (device s1) = (r0, b0, d) \<and> s' = block_release (s1\<lparr>device := d\<rparr>))"
      using assms a True by (auto simp: block_read_def Let_def split: if_splits option.splits prod.splits)
    then have "s' = block_release s1 \<or> (\<exists>d. keeps_device (device s1) d \<and> s' = block_release (s1\<lparr>device := d\<rparr>))"
      using read_keeps by blast
    from acquire_release [OF a [unfolded True] this] show ?thesis .
  qed
qed

lemma write_unlocks:
  assumes "block_write (Some ops) lba n b m s = (r, s')"
  shows "active_requests s' = active_requests s \<and> keeps_device (device s) (device s')"
proof -
  obtain e s1 where a: "block_acquire (Some ops) s = (e, s1)" by fastforce
  show ?thesis
  proof (cases "e = BLOCK_OK")
    case False
    then show ?thesis using assms a acquire_refused [OF a] by (simp add: block_write_def)
  next
    case True
    have "s' = block_release s1 \<or> (\<exists>f r0 d. bop_write ops = Some f \<and> f lba n (the b) (device s1) = (r0, d) \<and> s' = block_release (s1\<lparr>device := d\<rparr>))"
      using assms a True by (auto simp: block_write_def Let_def split: if_splits option.splits prod.splits)
    then have "s' = block_release s1 \<or> (\<exists>d. keeps_device (device s1) d \<and> s' = block_release (s1\<lparr>device := d\<rparr>))"
      using write_keeps by blast
    from acquire_release [OF a [unfolded True] this] show ?thesis .
  qed
qed

lemma flush_unlocks:
  assumes "block_flush (Some ops) s = (r, s')"
  shows "active_requests s' = active_requests s \<and> keeps_device (device s) (device s')"
proof -
  obtain e s1 where a: "block_acquire (Some ops) s = (e, s1)" by fastforce
  show ?thesis
  proof (cases "e = BLOCK_OK")
    case False
    then show ?thesis using assms a acquire_refused [OF a] by (simp add: block_flush_def)
  next
    case True
    have "s' = block_release s1 \<or> (\<exists>f r0 d. bop_flush ops = Some f \<and> f (device s1) = (r0, d) \<and> s' = block_release (s1\<lparr>device := d\<rparr>))"
      using assms a True by (auto simp: block_flush_def Let_def split: if_splits option.splits prod.splits)
    then have "s' = block_release s1 \<or> (\<exists>d. keeps_device (device s1) d \<and> s' = block_release (s1\<lparr>device := d\<rparr>))"
      using flush_keeps by blast
    from acquire_release [OF a [unfolded True] this] show ?thesis .
  qed
qed

end

end
