(* ===== verification/Rum_Ata.thy ===== *)
theory Rum_Ata
  imports Rum_Block
begin

text \<open>
  The polling ATA driver, \<open>drivers/storage/ata.c\<close>. The I/O ports are hardware: \<open>ports\<close> is a
  parameter giving the four port accesses as functions on an opaque hardware state. Every poll
  loop carries its limit from the source, so each operation is a total function.
\<close>

section \<open>Ports and driver state\<close>

record 'h ports =
  inb :: "nat \<Rightarrow> 'h \<Rightarrow> u8 \<times> 'h"
  outb :: "nat \<Rightarrow> u8 \<Rightarrow> 'h \<Rightarrow> 'h"
  inw :: "nat \<Rightarrow> 'h \<Rightarrow> u16 \<times> 'h"
  outw :: "nat \<Rightarrow> u16 \<Rightarrow> 'h \<Rightarrow> 'h"

record 'h ata =
  needs_flush :: bool
  hw :: 'h

type_synonym 'h disk = "'h ata block_device"

abbreviation (input) ATA_DATA :: nat where "ATA_DATA \<equiv> 0x170"
abbreviation (input) ATA_ERROR :: nat where "ATA_ERROR \<equiv> 0x171"
abbreviation (input) ATA_COUNT :: nat where "ATA_COUNT \<equiv> 0x172"
abbreviation (input) ATA_LBA_LOW :: nat where "ATA_LBA_LOW \<equiv> 0x173"
abbreviation (input) ATA_LBA_MID :: nat where "ATA_LBA_MID \<equiv> 0x174"
abbreviation (input) ATA_LBA_HIGH :: nat where "ATA_LBA_HIGH \<equiv> 0x175"
abbreviation (input) ATA_DEVICE :: nat where "ATA_DEVICE \<equiv> 0x176"
abbreviation (input) ATA_COMMAND :: nat where "ATA_COMMAND \<equiv> 0x177"
abbreviation (input) ATA_CONTROL :: nat where "ATA_CONTROL \<equiv> 0x376"
definition ATA_BSY :: u8 where "ATA_BSY = 0x80"
definition ATA_DF :: u8 where "ATA_DF = 0x20"
definition ATA_DRQ :: u8 where "ATA_DRQ = 0x08"
definition ATA_ERR :: u8 where "ATA_ERR = 0x01"
definition ATA_POLL_LIMIT :: nat where "ATA_POLL_LIMIT = 1000000"
definition ATA_FLUSH_POLL_LIMIT :: nat where "ATA_FLUSH_POLL_LIMIT = 50000000"
definition ATA_SECTOR_SIZE :: nat where "ATA_SECTOR_SIZE = 512"
definition ATA_LBA_LIMIT :: nat where "ATA_LBA_LIMIT = 2 ^ 28"

text \<open>Port accesses on the disk object.\<close>

definition port_in :: "'h ports \<Rightarrow> nat \<Rightarrow> 'h disk \<Rightarrow> u8 \<times> 'h disk" where
  "port_in io port d =
     (let (v, h) = inb io port (hw (driver d)) in (v, d\<lparr>driver := (driver d)\<lparr>hw := h\<rparr>\<rparr>))"

definition port_out :: "'h ports \<Rightarrow> nat \<Rightarrow> u8 \<Rightarrow> 'h disk \<Rightarrow> 'h disk" where
  "port_out io port v d = d\<lparr>driver := (driver d)\<lparr>hw := outb io port v (hw (driver d))\<rparr>\<rparr>"

definition data_in :: "'h ports \<Rightarrow> 'h disk \<Rightarrow> u16 \<times> 'h disk" where
  "data_in io d = (let (v, h) = inw io ATA_DATA (hw (driver d)) in (v, d\<lparr>driver := (driver d)\<lparr>hw := h\<rparr>\<rparr>))"

definition data_out :: "'h ports \<Rightarrow> u16 \<Rightarrow> 'h disk \<Rightarrow> 'h disk" where
  "data_out io v d = d\<lparr>driver := (driver d)\<lparr>hw := outw io ATA_DATA v (hw (driver d))\<rparr>\<rparr>"

definition settle :: "'h ports \<Rightarrow> 'h disk \<Rightarrow> 'h disk" where
  "settle io d = (snd \<circ> port_in io ATA_CONTROL) (snd (port_in io ATA_CONTROL (snd (port_in io ATA_CONTROL
                    (snd (port_in io ATA_CONTROL d))))))"

section \<open>Polling and commands\<close>

datatype poll_phase = POLL_IDLE | POLL_DATA | POLL_COMPLETE

definition status_result :: "block_error \<Rightarrow> u8 \<Rightarrow> u8 \<Rightarrow> block_result" where
  "status_result e st de = \<lparr>br_error = e, br_completed = 0, br_status = st, br_device_error = de\<rparr>"

fun poll_loop :: "'h ports \<Rightarrow> poll_phase \<Rightarrow> nat \<Rightarrow> u8 \<Rightarrow> 'h disk \<Rightarrow> block_result \<times> 'h disk" where
  "poll_loop io phase 0 status d = (status_result BLOCK_TIMEOUT status 0, d\<lparr>online := False\<rparr>)"
| "poll_loop io phase (Suc n) _ d =
     (let (status, d1) = port_in io ATA_CONTROL d in
      if status = 0 \<or> status = 0xff then (status_result BLOCK_NO_DEVICE status 0, d1\<lparr>online := False\<rparr>)
      else if status AND ATA_BSY \<noteq> 0 then poll_loop io phase n status d1
      else if status AND ATA_DF \<noteq> 0 then
        (let (e, d2) = port_in io ATA_ERROR (d1\<lparr>online := False\<rparr>) in (status_result BLOCK_DEVICE_FAULT status e, d2))
      else if phase \<noteq> POLL_IDLE \<and> status AND ATA_ERR \<noteq> 0 then
        (let (e, d2) = port_in io ATA_ERROR d1 in (status_result BLOCK_IO_ERROR status e, d2))
      else if (phase = POLL_DATA) = (status AND ATA_DRQ \<noteq> 0) then (status_result BLOCK_OK status 0, d1)
      else poll_loop io phase n status d1)"

definition poll_limit :: "'h ports \<Rightarrow> poll_phase \<Rightarrow> nat \<Rightarrow> 'h disk \<Rightarrow> block_result \<times> 'h disk" where
  "poll_limit io phase lim d = poll_loop io phase lim 0 d"

definition poll :: "'h ports \<Rightarrow> poll_phase \<Rightarrow> 'h disk \<Rightarrow> block_result \<times> 'h disk" where
  "poll io phase d = poll_limit io phase ATA_POLL_LIMIT d"

text \<open>Continue with the next statement unless the last result is an error.\<close>

definition on_ok :: "block_result \<times> 'h disk \<Rightarrow> ('h disk \<Rightarrow> block_result \<times> 'h disk) \<Rightarrow> block_result \<times> 'h disk" where
  "on_ok r f = (if br_error (fst r) \<noteq> BLOCK_OK then r else f (snd r))"

definition ata_command :: "'h ports \<Rightarrow> u32 \<Rightarrow> u8 \<Rightarrow> 'h disk \<Rightarrow> block_result \<times> 'h disk" where
  "ata_command io lba opcode d =
     on_ok (poll io POLL_IDLE d) (\<lambda>d1.
       on_ok (poll io POLL_IDLE (settle io (port_out io ATA_DEVICE (ucast (0xe0 OR drop_bit 24 lba)) d1))) (\<lambda>d2.
         (let d3 = port_out io ATA_COUNT 1 d2;
              d4 = port_out io ATA_LBA_LOW (ucast lba) d3;
              d5 = port_out io ATA_LBA_MID (ucast (drop_bit 8 lba)) d4;
              d6 = port_out io ATA_LBA_HIGH (ucast (drop_bit 16 lba)) d5;
              d7 = port_out io ATA_COMMAND opcode d6
          in poll io POLL_DATA (settle io d7))))"

section \<open>Transfers\<close>

text \<open>One sector through the data port, two bytes at a time, low byte first.\<close>

definition word_bytes :: "u16 \<Rightarrow> u8 list" where
  "word_bytes w = [ucast w, ucast (drop_bit 8 w)]"

definition bytes_word :: "u8 \<Rightarrow> u8 \<Rightarrow> u16" where
  "bytes_word lo hi = ucast lo OR push_bit 8 (ucast hi)"

definition read_pair :: "'h ports \<Rightarrow> nat \<Rightarrow> nat \<Rightarrow> u8 list \<times> 'h disk \<Rightarrow> u8 list \<times> 'h disk" where
  "read_pair io base i bd = (let (w, d) = data_in io (snd bd) in (blit (fst bd) (base + 2 * i) (word_bytes w), d))"

definition write_pair :: "'h ports \<Rightarrow> u8 list \<Rightarrow> nat \<Rightarrow> nat \<Rightarrow> 'h disk \<Rightarrow> 'h disk" where
  "write_pair io buf base i d = data_out io (bytes_word (buf ! (base + 2 * i)) (buf ! (base + 2 * i + 1))) d"

definition sector_data :: "'h ports \<Rightarrow> bool \<Rightarrow> nat \<Rightarrow> u8 list \<Rightarrow> 'h disk \<Rightarrow> u8 list \<times> 'h disk" where
  "sector_data io write base buf d =
     (if write then (buf, fold (write_pair io buf base) [0..<ATA_SECTOR_SIZE div 2] d)
      else fold (read_pair io base) [0..<ATA_SECTOR_SIZE div 2] (buf, d))"

fun transfer_loop :: "'h ports \<Rightarrow> bool \<Rightarrow> nat \<Rightarrow> nat \<Rightarrow> nat \<Rightarrow> block_result \<Rightarrow> u8 list \<Rightarrow> 'h disk \<Rightarrow>
    block_result \<times> u8 list \<times> 'h disk" where
  "transfer_loop io write lba 0 done1 result buf d = (result, buf, d)"
| "transfer_loop io write lba (Suc n) done1 result buf d =
     (let (r1, d1) = ata_command io (word_of_nat (lba + done1)) (if write then 0x30 else 0x20) d;
          (r2, buf2, d2) =
            (if br_error r1 = BLOCK_OK then
               (let (b, d') = sector_data io write (done1 * ATA_SECTOR_SIZE) buf d1;
                    (r, d'') = poll io POLL_COMPLETE (settle io d')
                in (r, b, d''))
             else (r1, buf, d1))
      in if br_error r2 \<noteq> BLOCK_OK then (r2\<lparr>br_completed := done1\<rparr>, buf2, d2)
         else transfer_loop io write lba n (done1 + 1) (r2\<lparr>br_completed := done1 + 1\<rparr>) buf2 d2)"

definition transfer :: "'h ports \<Rightarrow> bool \<Rightarrow> nat \<Rightarrow> nat \<Rightarrow> u8 list \<Rightarrow> 'h disk \<Rightarrow> block_result \<times> u8 list \<times> 'h disk" where
  "transfer io write lba count buf d = transfer_loop io write lba count 0 (block_result_of BLOCK_OK) buf d"

definition read_sectors :: "'h ports \<Rightarrow> nat \<Rightarrow> nat \<Rightarrow> u8 list \<Rightarrow> 'h disk \<Rightarrow> block_result \<times> u8 list \<times> 'h disk" where
  "read_sectors io lba count buf d = transfer io False lba count buf d"

definition write_sectors :: "'h ports \<Rightarrow> nat \<Rightarrow> nat \<Rightarrow> u8 list \<Rightarrow> 'h disk \<Rightarrow> block_result \<times> 'h disk" where
  "write_sectors io lba count buf d = (let (r, _, d1) = transfer io True lba count buf d in (r, d1))"

definition flush_cache :: "'h ports \<Rightarrow> 'h disk \<Rightarrow> block_result \<times> 'h disk" where
  "flush_cache io d =
     (if \<not> needs_flush (driver d) then (block_result_of BLOCK_OK, d)
      else
        on_ok (poll io POLL_IDLE d) (\<lambda>d1.
          on_ok (poll io POLL_IDLE (settle io (port_out io ATA_DEVICE 0xe0 d1))) (\<lambda>d2.
            poll_limit io POLL_COMPLETE ATA_FLUSH_POLL_LIMIT (settle io (port_out io ATA_COMMAND 0xe7 d2)))))"

definition ata_operations :: "'h ports \<Rightarrow> 'h ata block_operations" where
  "ata_operations io =
     \<lparr>bop_read = Some (read_sectors io), bop_write = Some (write_sectors io), bop_flush = Some (flush_cache io)\<rparr>"

section \<open>Identification\<close>

fun identify_words :: "'h ports \<Rightarrow> nat \<Rightarrow> 'h disk \<Rightarrow> u16 list \<times> 'h disk" where
  "identify_words io 0 d = ([], d)"
| "identify_words io (Suc n) d = (let (w, d1) = data_in io d; (ws, d2) = identify_words io n d1 in (w # ws, d2))"

definition identify_sectors :: "u16 list \<Rightarrow> nat" where
  "identify_sectors ident = unat (ucast (ident ! 60) OR push_bit 16 (ucast (ident ! 61)) :: u32)"

definition identify_supported :: "u16 list \<Rightarrow> bool" where
  "identify_supported ident \<longleftrightarrow>
     (let sectors = identify_sectors ident;
          geometry_valid = (ident ! 106 AND 0xc000 = 0x4000);
          long_sector = (geometry_valid \<and> bit (ident ! 106) 12);
          ws = (ucast (ident ! 117) OR push_bit 16 (ucast (ident ! 118)) :: u32);
          commands_valid = (ident ! 83 AND 0xc000 = 0x4000);
          flush_supported = (commands_valid \<and> bit (ident ! 83) 12);
          write_cache = bit (ident ! 85) 5
      in \<not> (ident ! 0 AND 0x8000 \<noteq> 0 \<or> \<not> bit (ident ! 49) 9 \<or> sectors = 0 \<or> sectors > ATA_LBA_LIMIT \<or>
             (long_sector \<and> ws \<noteq> 256) \<or> (write_cache \<and> \<not> flush_supported)))"

definition identify_flush :: "u16 list \<Rightarrow> bool" where
  "identify_flush ident \<longleftrightarrow> ident ! 83 AND 0xc000 = 0x4000 \<and> bit (ident ! 83) 12"

definition identify_refused :: "'h ports \<Rightarrow> block_result \<Rightarrow> 'h disk \<Rightarrow> block_result \<times> 'h disk" where
  "identify_refused io result d =
     (if br_error result = BLOCK_IO_ERROR then
        (let (mid, d1) = port_in io ATA_LBA_MID d in
         if mid \<noteq> 0 then (result\<lparr>br_error := BLOCK_UNSUPPORTED\<rparr>, d1)
         else (let (high, d2) = port_in io ATA_LBA_HIGH d1 in
               (if high \<noteq> 0 then result\<lparr>br_error := BLOCK_UNSUPPORTED\<rparr> else result, d2)))
      else (result, d))"

definition identify_accept :: "'h ports \<Rightarrow> 'h disk \<Rightarrow> block_result \<times> 'h disk" where
  "identify_accept io d =
     (let (ident, d1) = identify_words io 256 d in
      on_ok (poll io POLL_COMPLETE (settle io d1)) (\<lambda>d2.
        if \<not> identify_supported ident then (block_result_of BLOCK_UNSUPPORTED, d2)
        else (fst (poll io POLL_COMPLETE (settle io d1)),
              d2\<lparr>sector_count := identify_sectors ident, driver := (driver d2)\<lparr>needs_flush := identify_flush ident\<rparr>,
                 online := True\<rparr>)))"

definition ata_initialize :: "'h ports \<Rightarrow> 'h disk \<Rightarrow> block_result \<times> 'h disk" where
  "ata_initialize io d =
     (let d0 = \<lparr>sector_count = 0, sector_size = ATA_SECTOR_SIZE, online = False, dev_read_only = False,
                dev_busy = False, driver = (driver d)\<lparr>needs_flush := False\<rparr>\<rparr>
      in on_ok (poll io POLL_IDLE (settle io (port_out io ATA_DEVICE 0xa0 (port_out io ATA_CONTROL 2 d0)))) (\<lambda>d1.
           (let d2 = port_out io ATA_LBA_HIGH 0 (port_out io ATA_LBA_MID 0 (port_out io ATA_LBA_LOW 0 (port_out io ATA_COUNT 0 d1)));
                (result, d3) = poll io POLL_DATA (settle io (port_out io ATA_COMMAND 0xec d2))
            in if br_error result \<noteq> BLOCK_OK then identify_refused io result d3 else identify_accept io d3)))"

section \<open>The device object is only taken offline\<close>

lemma port_keeps [simp]:
  "keeps_device d (snd (port_in io p d))" "keeps_device d (port_out io p v d)"
  "keeps_device d (snd (data_in io d))" "keeps_device d (data_out io w d)"
  by (simp_all add: keeps_device_def port_in_def port_out_def data_in_def data_out_def split: prod.splits)

lemma keeps_refl_ata: "keeps_device d d" by (simp add: keeps_device_def)

lemma keeps_trans: "keeps_device a b \<Longrightarrow> keeps_device b c \<Longrightarrow> keeps_device a c"
  by (simp add: keeps_device_def)

lemma keeps_offline:
  "keeps_device d e \<Longrightarrow> keeps_device d (e\<lparr>online := False\<rparr>)" "keeps_device (d\<lparr>online := False\<rparr>) e \<Longrightarrow> keeps_device d e"
  by (simp_all add: keeps_device_def)

lemma settle_keeps: "keeps_device d (settle io d)"
  unfolding settle_def comp_def by (meson keeps_trans port_keeps(1))

lemma poll_loop_keeps: "keeps_device d (snd (poll_loop io ph n st d))"
proof (induction io ph n st d rule: poll_loop.induct)
  case (1 io ph st d)
  then show ?case by (simp add: keeps_offline(1) keeps_refl_ata)
next
  case (2 io ph n st d)
  obtain status d1 where p: "port_in io ATA_CONTROL d = (status, d1)" by fastforce
  have d1: "keeps_device d d1" using port_keeps(1) [of d io ATA_CONTROL] p by simp
  have err: "keeps_device d (snd (port_in io ATA_ERROR d1))" "keeps_device d (snd (port_in io ATA_ERROR (d1\<lparr>online := False\<rparr>)))"
    using keeps_trans [OF d1] port_keeps(1) keeps_offline(2) by blast+
  have rec: "keeps_device d (snd (poll_loop io ph n status d1))"
    if "status \<noteq> 0" "status \<noteq> 0xff"
      "status AND ATA_BSY \<noteq> 0 \<or> \<not> status AND ATA_DF \<noteq> 0 \<and> \<not> (ph \<noteq> POLL_IDLE \<and> status AND ATA_ERR \<noteq> 0) \<and>
       \<not> (ph = POLL_DATA) = (status AND ATA_DRQ \<noteq> 0)"
    using that 2 [OF p [symmetric] refl] keeps_trans [OF d1] by blast
  show ?case
    using rec d1 err by (auto simp: p keeps_offline(1) split_beta)
qed

lemma poll_keeps: "keeps_device d (snd (poll io ph d))" "keeps_device d (snd (poll_limit io ph n d))"
  by (simp_all add: poll_def poll_limit_def poll_loop_keeps)

lemma on_ok_keeps:
  "keeps_device d (snd r) \<Longrightarrow> (\<And>e. keeps_device d e \<Longrightarrow> keeps_device d (snd (f e))) \<Longrightarrow> keeps_device d (snd (on_ok r f))"
  by (simp add: on_ok_def)

lemmas keeps_steps = keeps_trans [OF _ port_keeps(1)] keeps_trans [OF _ port_keeps(2)] keeps_trans [OF _ port_keeps(3)]
  keeps_trans [OF _ port_keeps(4)] keeps_trans [OF _ settle_keeps] keeps_trans [OF _ poll_keeps(1)] keeps_trans [OF _ poll_keeps(2)]

lemma ata_command_keeps: "keeps_device d (snd (ata_command io lba op d))"
  unfolding ata_command_def Let_def by (intro on_ok_keeps keeps_steps keeps_refl_ata)

lemma fold_keeps:
  assumes "\<And>i d. keeps_device d (f i d)" shows "keeps_device d (fold f is d)"
proof (induction "is" arbitrary: d)
  case (Cons i "is")
  from keeps_trans [OF assms Cons.IH, of d i] show ?case by simp
qed (simp add: keeps_refl_ata)

lemma read_pairs_keep: "keeps_device d (snd (fold (read_pair io base) is (buf, d)))"
proof (induction "is" arbitrary: buf d)
  case (Cons i "is")
  have "keeps_device d (snd (read_pair io base i (buf, d)))"
    using port_keeps(3) [of d io] by (simp add: read_pair_def split_beta Let_def)
  from keeps_trans [OF this] Cons show ?case by (cases "read_pair io base i (buf, d)") simp
qed (simp add: keeps_refl_ata)

lemma sector_data_keeps: "keeps_device d (snd (sector_data io w base buf d))"
  by (simp add: sector_data_def read_pairs_keep fold_keeps write_pair_def)

text \<open>Counting and buffers: the loop reports whole sectors and stays inside the caller's bytes.\<close>

lemma read_pairs_buffer:
  "base + 2 * n \<le> length buf \<Longrightarrow> is = [0..<n] \<Longrightarrow>
     length (fst (fold (read_pair io base) is (buf, d))) = length buf \<and>
     take base (fst (fold (read_pair io base) is (buf, d))) = take base buf \<and>
     drop (base + 2 * n) (fst (fold (read_pair io base) is (buf, d))) = drop (base + 2 * n) buf"
proof (induction n arbitrary: "is")
  case (Suc n)
  let ?r = "fold (read_pair io base) [0..<n] (buf, d)"
  have IH: "length (fst ?r) = length buf" "take base (fst ?r) = take base buf"
      "drop (base + 2 * n) (fst ?r) = drop (base + 2 * n) buf"
    using Suc.IH [of "[0..<n]"] Suc.prems by auto
  have "drop (base + 2 * Suc n) (fst ?r) = drop (base + 2 * Suc n) buf"
    using arg_cong [OF IH(3), of "drop 2"] by (simp add: add.commute)
  moreover have "fst (read_pair io base n ?r) = blit (fst ?r) (base + 2 * n) (word_bytes (fst (data_in io (snd ?r))))"
    by (simp add: read_pair_def split_beta Let_def)
  moreover have "length (word_bytes w) = 2" for w by (simp add: word_bytes_def)
  ultimately show ?case
    using Suc.prems IH(1,2) by (simp add: length_blit take_blit_before drop_blit_after)
qed simp

lemma sector_data_buffer:
  assumes "base + ATA_SECTOR_SIZE \<le> length buf"
  shows "length (fst (sector_data io w base buf d)) = length buf"
    and "take base (fst (sector_data io w base buf d)) = take base buf"
    and "drop (base + ATA_SECTOR_SIZE) (fst (sector_data io w base buf d)) = drop (base + ATA_SECTOR_SIZE) buf"
  using read_pairs_buffer [of base 256 buf "[0..<256]" io d] assms by (simp_all add: sector_data_def ATA_SECTOR_SIZE_def)

definition transfer_ok :: "bool \<Rightarrow> nat \<Rightarrow> nat \<Rightarrow> u8 list \<Rightarrow> 'h disk \<Rightarrow> block_result \<times> u8 list \<times> 'h disk \<Rightarrow> bool" where
  "transfer_ok w count done1 buf d r \<longleftrightarrow>
     (case r of (res, buf', d') \<Rightarrow>
        keeps_device d d' \<and> br_completed res \<le> count \<and> (br_error res = BLOCK_OK \<longleftrightarrow> br_completed res = count) \<and>
        (w \<longrightarrow> buf' = buf) \<and>
        (count * ATA_SECTOR_SIZE \<le> length buf \<longrightarrow>
           length buf' = length buf \<and> take (done1 * ATA_SECTOR_SIZE) buf' = take (done1 * ATA_SECTOR_SIZE) buf \<and>
           drop (count * ATA_SECTOR_SIZE) buf' = drop (count * ATA_SECTOR_SIZE) buf))"

lemma transfer_loop_ok:
  assumes "br_error res = BLOCK_OK" and "br_completed res = done1"
  shows "transfer_ok w (done1 + n) done1 buf d (transfer_loop io w lba n done1 res buf d)"
  using assms
proof (induction n arbitrary: done1 res buf d)
  case 0
  then show ?case by (simp add: transfer_ok_def keeps_refl_ata)
next
  case (Suc n)
  obtain r1 d1 where c: "ata_command io (word_of_nat (lba + done1)) (if w then 0x30 else 0x20) d = (r1, d1)" by fastforce
  have k1: "keeps_device d d1" using ata_command_keeps [of d io] c by (metis snd_conv)
  obtain b d' where s: "sector_data io w (done1 * ATA_SECTOR_SIZE) buf d1 = (b, d')" by fastforce
  obtain r2 d2 where p: "poll io POLL_COMPLETE (settle io d') = (r2, d2)" by fastforce
  have k2: "keeps_device d d2"
    using k1 sector_data_keeps [of d1 io w "done1 * ATA_SECTOR_SIZE" buf] settle_keeps [of d' io] poll_keeps(1) [of "settle io d'" io POLL_COMPLETE]
    by (simp add: s p) (blast intro: keeps_trans)
  have wb: "w \<Longrightarrow> b = buf" using s by (simp add: sector_data_def)
  have buf: "length b = length buf \<and> take (done1 * ATA_SECTOR_SIZE) b = take (done1 * ATA_SECTOR_SIZE) buf \<and>
      drop ((done1 + Suc n) * ATA_SECTOR_SIZE) b = drop ((done1 + Suc n) * ATA_SECTOR_SIZE) buf"
    if "(done1 + Suc n) * ATA_SECTOR_SIZE \<le> length buf"
  proof -
    have le: "done1 * ATA_SECTOR_SIZE + ATA_SECTOR_SIZE \<le> length buf" using that by (simp add: add_mult_distrib)
    note B = sector_data_buffer [OF le, of io w d1, unfolded s fst_conv]
    have "(done1 + Suc n) * ATA_SECTOR_SIZE = n * ATA_SECTOR_SIZE + (done1 * ATA_SECTOR_SIZE + ATA_SECTOR_SIZE)" by (simp add: algebra_simps)
    then show ?thesis using B(1,2) arg_cong [OF B(3), of "drop (n * ATA_SECTOR_SIZE)"] by (simp only: drop_drop)
  qed
  consider (fail1) "br_error r1 \<noteq> BLOCK_OK" | (fail2) "br_error r1 = BLOCK_OK" "br_error r2 \<noteq> BLOCK_OK"
    | (ok) "br_error r1 = BLOCK_OK" "br_error r2 = BLOCK_OK" by blast
  then show ?case
  proof cases
    case fail1
    then show ?thesis using c k1 by (simp add: transfer_ok_def)
  next
    case fail2
    then show ?thesis using c s p k2 wb buf by (simp add: transfer_ok_def)
  next
    case ok
    let ?r = "transfer_loop io w lba n (done1 + 1) (r2\<lparr>br_completed := done1 + 1\<rparr>) b d2"
    obtain r3 b3 d3 where t: "?r = (r3, b3, d3)" by (cases ?r)
    have IH: "transfer_ok w (done1 + 1 + n) (done1 + 1) b d2 (r3, b3, d3)"
      using Suc.IH [of "r2\<lparr>br_completed := done1 + 1\<rparr>" "done1 + 1" b d2] ok t by simp
    then have "keeps_device d d3" using keeps_trans [OF k2] by (simp add: transfer_ok_def)
    moreover have "take (done1 * ATA_SECTOR_SIZE) b3 = take (done1 * ATA_SECTOR_SIZE) b"
      if "take ((done1 + 1) * ATA_SECTOR_SIZE) b3 = take ((done1 + 1) * ATA_SECTOR_SIZE) b"
      using arg_cong [OF that, of "take (done1 * ATA_SECTOR_SIZE)"] by (simp add: min_def)
    moreover have "transfer_loop io w lba (Suc n) done1 res buf d = (r3, b3, d3)" using c s p ok t by simp
    ultimately show ?thesis using IH wb buf by (simp add: transfer_ok_def)
  qed
qed

lemma transfer_result: "transfer_ok w count 0 buf d (transfer io w lba count buf d)"
  using transfer_loop_ok [of "block_result_of BLOCK_OK" 0 w count buf d io lba]
  by (simp add: transfer_def block_result_of_def)

interpretation ata: block_driver "ata_operations io" for io :: "'h ports"
proof
  fix f g k lba n b d r b' d'
  show "bop_read (ata_operations io) = Some f \<Longrightarrow> f lba n b d = (r, b', d') \<Longrightarrow> keeps_device d d'"
    using transfer_result [of False n b d io lba] by (auto simp: ata_operations_def read_sectors_def transfer_ok_def)
  show "bop_write (ata_operations io) = Some g \<Longrightarrow> g lba n b d = (r, d') \<Longrightarrow> keeps_device d d'"
    using transfer_result [of True n b d io lba]
    by (auto simp: ata_operations_def write_sectors_def transfer_ok_def split: prod.splits)
  show "bop_flush (ata_operations io) = Some k \<Longrightarrow> k d = (r, d') \<Longrightarrow> keeps_device d d'"
  proof -
    assume "bop_flush (ata_operations io) = Some k" "k d = (r, d')"
    then have "d' = snd (flush_cache io d)" by (auto simp: ata_operations_def)
    moreover have "keeps_device d (snd (flush_cache io d))"
      unfolding flush_cache_def by (auto simp: keeps_refl_ata intro!: on_ok_keeps keeps_steps)
    ultimately show ?thesis by simp
  qed
qed

section \<open>Identification brings the disk online\<close>

lemma identify_words_keeps: "keeps_device d (snd (identify_words io n d))"
proof (induction io n d rule: identify_words.induct)
  case (2 io n d)
  obtain w d1 where i: "data_in io d = (w, d1)" by fastforce
  with port_keeps(3) [of d io] have "keeps_device d d1" by simp
  from keeps_trans [OF this 2 [OF i [symmetric] refl]] show ?case by (simp add: i split_beta)
qed (simp add: keeps_refl_ata)

definition fresh_disk :: "'h disk \<Rightarrow> bool" where
  "fresh_disk d \<longleftrightarrow> sector_size d = ATA_SECTOR_SIZE \<and> \<not> dev_busy d \<and> \<not> dev_read_only d"

definition init_ok :: "block_result \<times> 'h disk \<Rightarrow> bool" where
  "init_ok x \<longleftrightarrow> fresh_disk (snd x) \<and> (online (snd x) \<longleftrightarrow> br_error (fst x) = BLOCK_OK) \<and>
     (online (snd x) \<longrightarrow> 0 < sector_count (snd x) \<and> sector_count (snd x) \<le> ATA_LBA_LIMIT)"

lemma init_failed: "keeps_device d e \<Longrightarrow> fresh_disk d \<Longrightarrow> \<not> online d \<Longrightarrow> br_error r \<noteq> BLOCK_OK \<Longrightarrow> init_ok (r, e)"
  by (simp add: init_ok_def fresh_disk_def keeps_device_def)

lemma init_online:
  "keeps_device d e \<Longrightarrow> fresh_disk d \<Longrightarrow> br_error r = BLOCK_OK \<Longrightarrow> identify_supported ident \<Longrightarrow>
   init_ok (r, e\<lparr>sector_count := identify_sectors ident, driver := x, online := True\<rparr>)"
  by (simp add: init_ok_def fresh_disk_def keeps_device_def identify_supported_def Let_def)

lemma init_on_ok:
  assumes "keeps_device d (snd x)" "fresh_disk d" "\<not> online d" "\<And>e. keeps_device d e \<Longrightarrow> init_ok (f e)"
  shows "init_ok (on_ok x f)"
proof (cases "br_error (fst x) = BLOCK_OK")
  case True
  then show ?thesis using assms(1,4) by (simp add: on_ok_def)
next
  case False
  then show ?thesis using init_failed [OF assms(1-3), of "fst x"] by (simp add: on_ok_def)
qed

lemma identify_refused_init:
  assumes "keeps_device d0 d" "fresh_disk d0" "\<not> online d0" "br_error r \<noteq> BLOCK_OK"
  shows "init_ok (identify_refused io r d)"
proof -
  obtain mid d1 where m: "port_in io ATA_LBA_MID d = (mid, d1)" by fastforce
  obtain high d2 where h: "port_in io ATA_LBA_HIGH d1 = (high, d2)" by fastforce
  have "keeps_device d0 d1" using keeps_steps(1) [OF assms(1), of io ATA_LBA_MID] by (simp add: m)
  moreover from keeps_steps(1) [OF this, of io ATA_LBA_HIGH] have "keeps_device d0 d2" by (simp add: h)
  ultimately show ?thesis using init_failed [OF _ assms(2,3)] assms(1,4) by (simp add: identify_refused_def m h)
qed

lemma identify_accept_init:
  assumes "keeps_device d0 d" "fresh_disk d0" "\<not> online d0" shows "init_ok (identify_accept io d)"
proof -
  obtain ident d1 where i: "identify_words io 256 d = (ident, d1)" by fastforce
  have k: "keeps_device d0 (snd (poll io POLL_COMPLETE (settle io d1)))"
    using keeps_trans [OF assms(1) identify_words_keeps, of io 256] by (simp add: i keeps_steps)
  then show ?thesis
    using init_failed [OF k assms(2,3)] init_online [OF k assms(2)]
    by (cases "poll io POLL_COMPLETE (settle io d1)") (auto simp: identify_accept_def i on_ok_def block_result_of_def)
qed

lemma ata_initialize_result:
  assumes "ata_initialize io d = (r, d')"
  shows "(online d' \<longleftrightarrow> br_error r = BLOCK_OK) \<and> sector_size d' = ATA_SECTOR_SIZE \<and> \<not> dev_busy d' \<and> \<not> dev_read_only d' \<and>
    (online d' \<longrightarrow> 0 < sector_count d' \<and> sector_count d' \<le> ATA_LBA_LIMIT)"
proof -
  define d0 where "d0 = \<lparr>sector_count = 0, sector_size = ATA_SECTOR_SIZE, online = False, dev_read_only = False,
                dev_busy = False, driver = (driver d)\<lparr>needs_flush := False\<rparr>\<rparr>"
  have d0: "fresh_disk d0" "\<not> online d0" by (simp_all add: d0_def fresh_disk_def)
  have split: "init_ok (case x of (result, e) \<Rightarrow> if br_error result \<noteq> BLOCK_OK then identify_refused io result e else identify_accept io e)"
    if "keeps_device d0 (snd x)" for x
    using that identify_refused_init [OF _ d0] identify_accept_init [OF _ d0] by (cases x) simp
  have "init_ok (ata_initialize io d)"
    unfolding ata_initialize_def d0_def [symmetric] Let_def
    by (rule init_on_ok [OF _ d0]) (intro split keeps_steps keeps_refl_ata | assumption)+
  then show ?thesis using assms by (simp add: init_ok_def fresh_disk_def)
qed

section \<open>Requests through the block layer\<close>

definition request_admitted :: "'d block_layer \<Rightarrow> nat \<Rightarrow> nat \<Rightarrow> u8 list option \<Rightarrow> nat \<Rightarrow> bool" where
  "request_admitted s lba count buffer bytes \<longleftrightarrow>
     online (device s) \<and> \<not> dev_busy (device s) \<and> active_requests s \<noteq> UINT32_MAX \<and>
     request_fits (device s) lba count buffer bytes"

lemma release_acquired:
  "\<not> dev_busy (device s) \<Longrightarrow> block_release (s\<lparr>device := (device s)\<lparr>dev_busy := True\<rparr>, active_requests := active_requests s + 1\<rparr>) = s"
  by (simp add: block_release_def)

lemma request_fits_busy [simp]: "request_fits (d\<lparr>dev_busy := b\<rparr>) = request_fits d"
  by (simp add: request_fits_def fun_eq_iff)

lemma block_read_refused:
  assumes "\<not> request_admitted s lba count b bytes" and "0 < sector_size (device s)"
    and "block_read (Some ops) lba count b bytes s = (r, b', s')"
  shows "br_error r \<noteq> BLOCK_OK \<and> br_completed r = 0 \<and> b' = b \<and> s' = s"
proof -
  obtain e s1 where a: "block_acquire (Some ops) s = (e, s1)" by fastforce
  show ?thesis
  proof (cases "online (device s) \<and> \<not> dev_busy (device s) \<and> active_requests s \<noteq> UINT32_MAX")
    case False
    then have "e \<noteq> BLOCK_OK" "s1 = s" using a assms(2) by (auto simp: block_acquire_def Let_def split: if_splits)
    then show ?thesis using assms(3) a by (auto simp: block_read_def block_result_of_def)
  next
    case True
    then have e: "e = BLOCK_OK" "s1 = s\<lparr>device := (device s)\<lparr>dev_busy := True\<rparr>, active_requests := active_requests s + 1\<rparr>"
      using a assms(2) by (auto simp: block_acquire_def Let_def)
    then have "\<not> request_fits (device s1) lba count b bytes" using True assms(1) by (simp add: request_admitted_def)
    then have v: "block_validate (device s1) lba count b bytes \<noteq> BLOCK_OK" using e assms(2) by (simp add: block_validate_fits)
    from True release_acquired [of s] have "block_release s1 = s" by (simp only: e simp_thms)
    with assms(3) a e(1) v show ?thesis by (auto simp: block_read_def block_result_of_def)
  qed
qed

lemma ata_read_admitted:
  assumes "request_admitted s lba count (Some buf) (length buf)" and "sector_size (device s) = ATA_SECTOR_SIZE"
    and "block_read (Some (ata_operations io)) lba count (Some buf) (length buf) s = (r, b', s')"
  shows "\<exists>buf'. b' = Some buf' \<and> length buf' = length buf \<and> br_completed r \<le> count \<and>
     (br_error r = BLOCK_OK \<longleftrightarrow> br_completed r = count) \<and> drop (count * ATA_SECTOR_SIZE) buf' = drop (count * ATA_SECTOR_SIZE) buf"
proof -
  define s1 where "s1 = s\<lparr>device := (device s)\<lparr>dev_busy := True\<rparr>, active_requests := active_requests s + 1\<rparr>"
  have fits: "request_fits (device s1) lba count (Some buf) (length buf)" and pos: "0 < sector_size (device s1)"
    using assms(1,2) by (simp_all add: request_admitted_def s1_def ATA_SECTOR_SIZE_def)
  have a: "block_acquire (Some (ata_operations io)) s = (BLOCK_OK, s1)"
    using assms(1,2) by (simp add: block_acquire_def request_admitted_def s1_def ATA_SECTOR_SIZE_def)
  have v: "block_validate (device s1) lba count (Some buf) (length buf) = BLOCK_OK" using fits pos by (simp add: block_validate_fits)
  show ?thesis
  proof (cases "count = 0")
    case True
    then show ?thesis using assms(3) a v by (auto simp: block_read_def block_result_of_def)
  next
    case False
    obtain r1 b1 d1 where t: "transfer io False lba count buf (device s1) = (r1, b1, d1)" by (cases "transfer io False lba count buf (device s1)")
    have "count * ATA_SECTOR_SIZE \<le> length buf" using fits False assms(2) by (simp add: request_fits_def s1_def)
    moreover have "r = r1" "b' = Some b1" using assms(3) a v False t by (auto simp: block_read_def ata_operations_def read_sectors_def)
    ultimately show ?thesis using transfer_result [of False count buf "device s1" io lba] t by (auto simp: transfer_ok_def)
  qed
qed


text \<open>Ports with no drive behind them: every read floats high.\<close>

definition absent_ports :: "unit ports" where
  "absent_ports = \<lparr>inb = (\<lambda>_ h. (0xff, h)), outb = (\<lambda>_ _ h. h), inw = (\<lambda>_ h. (0xffff, h)), outw = (\<lambda>_ _ h. h)\<rparr>"

definition disk_sample :: "unit ata block_layer" where
  "disk_sample = \<lparr>device = \<lparr>sector_count = 8, sector_size = 512, online = True, dev_read_only = False, dev_busy = False,
                            driver = \<lparr>needs_flush = False, hw = ()\<rparr>\<rparr>, active_requests = 0\<rparr>"

lemma poll_absent: "poll absent_ports ph d = (status_result BLOCK_NO_DEVICE 0xff 0, d\<lparr>online := False\<rparr>)"
proof -
  have "port_in absent_ports p d = (0xff, d)" for p by (simp add: port_in_def absent_ports_def)
  then have "poll_loop absent_ports ph (Suc n) 0 d = (status_result BLOCK_NO_DEVICE 0xff 0, d\<lparr>online := False\<rparr>)" for n by simp
  from this [of 999999] show ?thesis by (simp add: poll_def poll_limit_def ATA_POLL_LIMIT_def)
qed


text \<open>C29: identification brings the disk online exactly when it reports success, and then the
  sector count is positive and within the 28-bit addresses a command can express; a fresh device
  is never busy and has 512-byte sectors.\<close>

theorem ata_initialize_correct:
  assumes "ata_initialize io d = (r, d')"
  shows "(online d' \<longleftrightarrow> br_error r = BLOCK_OK) \<and> sector_size d' = ATA_SECTOR_SIZE \<and> \<not> dev_busy d' \<and> \<not> dev_read_only d' \<and>
    (online d' \<longrightarrow> 0 < sector_count d' \<and> sector_count d' \<le> ATA_LBA_LIMIT)"
  by (rule ata_initialize_result [OF assms])

theorem ata_initialize_correct_witness:
  "case ata_initialize absent_ports (device disk_sample) of (r, d') \<Rightarrow>
     br_error r = BLOCK_NO_DEVICE \<and> \<not> online d' \<and> sector_size d' = ATA_SECTOR_SIZE"
proof -
  obtain r d' where e: "ata_initialize absent_ports (device disk_sample) = (r, d')" by fastforce
  moreover have "br_error r = BLOCK_NO_DEVICE" using e by (auto simp: ata_initialize_def poll_absent on_ok_def status_result_def Let_def)
  ultimately show ?thesis using ata_initialize_correct [OF e] by simp
qed



end
