(* ===== verification/Rum_Fs.thy ===== *)
theory Rum_Fs
  imports Rum_Path_Parse Rum_Layout
begin

text \<open>
  The filesystem layer, \<open>kernel/fs/fs.c\<close>: one mount, a table of open objects with reference
  counts, a table of reference tokens, path resolution, and the operations on references and
  paths. A backend is a table of operations on a private state \<open>'b\<close>, the state behind its context
  pointer; a null function pointer is \<open>None\<close>. A pointer argument that may be null is an option;
  an out-parameter is returned with its final contents. Interrupt masking makes each table update
  one step.
\<close>

section \<open>Interface types\<close>

record fs_node =
  node_id :: nat
  node_size :: nat
  node_kind :: fs_kind

record fs_io_result =
  io_error :: fs_error
  transferred :: nat
  io_device_status :: u8
  io_device_error :: u8

definition io_result_of :: "fs_error \<Rightarrow> fs_io_result" where
  "io_result_of e = \<lparr>io_error = e, transferred = 0, io_device_status = 0, io_device_error = 0\<rparr>"

record fs_entry =
  entry_name :: string
  entry_kind :: fs_kind
  entry_size :: nat

definition zero_node :: fs_node where
  "zero_node = \<lparr>node_id = 0, node_size = 0, node_kind = FS_FILE\<rparr>"

definition zero_entry :: fs_entry where
  "zero_entry = \<lparr>entry_name = [], entry_kind = FS_FILE, entry_size = 0\<rparr>"

definition FS_READ :: u32 where "FS_READ = 1"
definition FS_WRITE :: u32 where "FS_WRITE = 2"

record 'b fs_operations =
  op_lookup :: "(nat \<Rightarrow> string \<Rightarrow> 'b \<Rightarrow> (fs_error \<times> fs_node) \<times> 'b) option"
  op_stat :: "(nat \<Rightarrow> 'b \<Rightarrow> (fs_error \<times> fs_node) \<times> 'b) option"
  op_retain :: "(nat \<Rightarrow> 'b \<Rightarrow> fs_error \<times> 'b) option"
  op_release :: "(nat \<Rightarrow> 'b \<Rightarrow> 'b) option"
  op_read :: "(nat \<Rightarrow> nat \<Rightarrow> u8 list \<Rightarrow> nat \<Rightarrow> 'b \<Rightarrow> (fs_io_result \<times> u8 list) \<times> 'b) option"
  op_write :: "(nat \<Rightarrow> nat \<Rightarrow> u8 list \<Rightarrow> nat \<Rightarrow> 'b \<Rightarrow> fs_io_result \<times> 'b) option"
  op_replace :: "(nat \<Rightarrow> string \<Rightarrow> u8 list \<Rightarrow> nat \<Rightarrow> 'b \<Rightarrow> fs_error \<times> 'b) option"
  op_remove :: "(nat \<Rightarrow> string \<Rightarrow> 'b \<Rightarrow> fs_error \<times> 'b) option"
  op_mkdir :: "(nat \<Rightarrow> string \<Rightarrow> 'b \<Rightarrow> fs_error \<times> 'b) option"
  op_readdir :: "(nat \<Rightarrow> nat \<Rightarrow> 'b \<Rightarrow> (fs_error \<times> fs_entry \<times> nat) \<times> 'b) option"
  op_flush :: "('b \<Rightarrow> fs_error \<times> 'b) option"
  op_unmount :: "('b \<Rightarrow> 'b) option"
  op_truncate :: "(nat \<Rightarrow> nat \<Rightarrow> 'b \<Rightarrow> fs_error \<times> 'b) option"

record 'b fs_backend =
  operations :: "'b fs_operations option"
  backend_root :: nat
  naming :: fs_naming
  backend_read_only :: bool

record fs_information =
  info_mount :: fs_mount_id
  info_generation :: nat
  info_object :: nat
  info_kind :: fs_kind
  info_size :: nat

definition zero_information :: fs_information where
  "zero_information = \<lparr>info_mount = FS_MOUNT_DISK, info_generation = 0, info_object = 0, info_kind = FS_FILE, info_size = 0\<rparr>"

record fs_context =
  directory :: u64
  cwd_path :: string

definition zero_context :: fs_context where
  "zero_context = \<lparr>directory = 0, cwd_path = replicate FS_PATH_CAPACITY NUL\<rparr>"

record fs_statistics =
  stat_objects :: nat
  stat_references :: nat
  stat_mounts :: nat

section \<open>Tables\<close>

definition FS_OBJECT_LIMIT :: nat where "FS_OBJECT_LIMIT = 128"
definition FS_REFERENCE_LIMIT :: nat where
  "FS_REFERENCE_LIMIT = RUM_PROCESS_LIMIT * RUM_PROCESS_FILE_LIMIT + RUM_PROCESS_LIMIT + 2"

record 'b mount =
  backend :: "'b fs_backend"
  generation :: nat
  mounted :: bool

record object =
  object_id :: nat
  object_references :: nat
  object_mount :: fs_mount_id
  object_kind :: fs_kind

record reference =
  token :: u64
  ref_object :: nat
  access :: u32

record location =
  loc_mount :: fs_mount_id
  depth :: nat
  nodes :: "fs_node list"

record 'b fs =
  mounts :: "fs_mount_id \<Rightarrow> 'b mount"
  objects :: "object list"
  references :: "reference list"
  next_token :: u64
  ready :: bool
  busy :: bool
  backend_state :: 'b

definition zero_object :: object where
  "zero_object = \<lparr>object_id = 0, object_references = 0, object_mount = FS_MOUNT_DISK, object_kind = FS_FILE\<rparr>"

definition zero_reference :: reference where
  "zero_reference = \<lparr>token = 0, ref_object = 0, access = 0\<rparr>"

text \<open>A location holding one node, and the node at its depth.\<close>

definition location_of :: "fs_mount_id \<Rightarrow> fs_node \<Rightarrow> location" where
  "location_of m n = \<lparr>loc_mount = m, depth = 0, nodes = n # replicate FS_PATH_DEPTH zero_node\<rparr>"

definition here :: "location \<Rightarrow> fs_node" where
  "here l = nodes l ! depth l"

text \<open>The backend of a mount and a call of one of its operations.\<close>

definition backend_of :: "'b fs \<Rightarrow> fs_mount_id \<Rightarrow> 'b fs_backend" where
  "backend_of s m = backend (mounts s m)"

definition ops_of :: "'b fs \<Rightarrow> fs_mount_id \<Rightarrow> 'b fs_operations" where
  "ops_of s m = the (operations (backend_of s m))"

definition call :: "('b \<Rightarrow> 'r \<times> 'b) \<Rightarrow> 'b fs \<Rightarrow> 'r \<times> 'b fs" where
  "call f s = (let (r, b) = f (backend_state s) in (r, s\<lparr>backend_state := b\<rparr>))"

section \<open>Entry, exit and statistics\<close>

definition fs_operation_active :: "'b fs \<Rightarrow> bool" where
  "fs_operation_active s \<longleftrightarrow> busy s"

definition enter :: "'b fs \<Rightarrow> fs_error \<times> 'b fs" where
  "enter s =
     (let error = (if \<not> ready s then FS_UNAVAILABLE else if busy s then FS_BUSY else FS_OK)
      in (error, if error = FS_OK then s\<lparr>busy := True\<rparr> else s))"

definition leave :: "'b fs \<Rightarrow> 'b fs" where
  "leave s = s\<lparr>busy := False\<rparr>"

definition fs_initialize :: "'b fs \<Rightarrow> bool \<times> 'b fs" where
  "fs_initialize s = (if ready s then (True, s) else (True, s\<lparr>ready := True\<rparr>))"

definition fs_stats :: "'b fs \<Rightarrow> fs_statistics" where
  "fs_stats s =
     \<lparr>stat_objects = length (filter (\<lambda>ob. object_references ob \<noteq> 0) (objects s)),
      stat_references = length (filter (\<lambda>r. token r \<noteq> 0) (references s)),
      stat_mounts = (if mounted (mounts s FS_MOUNT_DISK) then 1 else 0)\<rparr>"

section \<open>Resolution\<close>

definition valid_node :: "fs_node \<Rightarrow> bool" where
  "valid_node n \<longleftrightarrow> node_id n \<noteq> 0 \<and> (node_kind n = FS_FILE \<or> node_kind n = FS_DIRECTORY)"

definition root :: "fs_mount_id \<Rightarrow> 'b fs \<Rightarrow> (fs_error + location) \<times> 'b fs" where
  "root m s =
     (if \<not> mounted (mounts s m) then (Inl FS_UNAVAILABLE, s)
      else
        (let r = backend_root (backend_of s m);
             ((error, node), s1) = call (the (op_stat (ops_of s m)) r) s
         in if error = FS_OK \<and> (\<not> valid_node node \<or> node_id node \<noteq> r \<or> node_kind node \<noteq> FS_DIRECTORY)
            then (Inl FS_IO_ERROR, s1)
            else if error \<noteq> FS_OK then (Inl error, s1)
            else (Inr (location_of m node), s1)))"

definition step :: "string \<Rightarrow> location \<Rightarrow> 'b fs \<Rightarrow> (fs_error + location) \<times> 'b fs" where
  "step name l s =
     (let parent = here l in
      if node_kind parent \<noteq> FS_DIRECTORY then (Inl FS_NOT_DIRECTORY, s)
      else if c_equal name ''.'' then (Inr l, s)
      else if c_equal name ''..'' then (Inr (if depth l \<noteq> 0 then l\<lparr>depth := depth l - 1\<rparr> else l), s)
      else if depth l = FS_PATH_DEPTH then (Inl FS_TOO_DEEP, s)
      else
        (let ((error, node), s1) = call (the (op_lookup (ops_of s (loc_mount l))) (node_id parent) name) s
         in if error = FS_OK then
              (if \<not> valid_node node then (Inl FS_IO_ERROR, s1)
               else (Inr (l\<lparr>depth := depth l + 1, nodes := (nodes l)[depth l + 1 := node]\<rparr>), s1))
            else (Inl error, s1)))"

fun steps :: "string list \<Rightarrow> location \<Rightarrow> 'b fs \<Rightarrow> (fs_error + location) \<times> 'b fs" where
  "steps [] l s = (Inr l, s)"
| "steps (name # names) l s =
     (case step name l s of
        (Inl error, s1) \<Rightarrow> (Inl error, s1)
      | (Inr l1, s1) \<Rightarrow> steps names l1 s1)"

text \<open>The first index whose element satisfies a test, as the search loops find it.\<close>

fun index_of :: "('a \<Rightarrow> bool) \<Rightarrow> 'a list \<Rightarrow> nat option" where
  "index_of P [] = None"
| "index_of P (x # xs) = (if P x then Some 0 else map_option Suc (index_of P xs))"

definition find_reference :: "u64 \<Rightarrow> 'b fs \<Rightarrow> nat option" where
  "find_reference t s = (if t \<noteq> 0 then index_of (\<lambda>r. token r = t) (references s) else None)"

definition object_of :: "nat \<Rightarrow> 'b fs \<Rightarrow> object" where
  "object_of i s = objects s ! ref_object (references s ! i)"

definition preflight :: "fs_context option \<Rightarrow> string option \<Rightarrow> fs_error + fs_path" where
  "preflight ctx path =
     (case ctx of
        Some c \<Rightarrow> if directory c = 0 then Inl FS_INVALID else fs_path_parse (Some (cstr (cwd_path c))) path
      | None \<Rightarrow> fs_path_parse (Some ''/'') path)"

definition token_names :: "fs_tokens \<Rightarrow> string list" where
  "token_names t = map (token_at (tok_text t)) (tok_offsets t)"

text \<open>The working directory's object, checked before the walk.\<close>

definition resolve_cwd :: "fs_context option \<Rightarrow> 'b fs \<Rightarrow> fs_error + object option" where
  "resolve_cwd ctx s =
     (case ctx of
        None \<Rightarrow> Inr None
      | Some c \<Rightarrow>
          (case find_reference (directory c) s of
             None \<Rightarrow> Inl FS_INVALID
           | Some i \<Rightarrow> if object_kind (object_of i s) \<noteq> FS_DIRECTORY then Inl FS_NOT_DIRECTORY
                       else Inr (Some (object_of i s))))"

definition resolve_base :: "object option \<Rightarrow> fs_path \<Rightarrow> location \<Rightarrow> 'b fs \<Rightarrow> (fs_error + location) \<times> 'b fs" where
  "resolve_base cwd plan l s =
     (case cwd of
        None \<Rightarrow> (Inr l, s)
      | Some ob \<Rightarrow>
          if tok_absolute (path_input plan) then (Inr l, s)
          else
            (case steps (token_names (path_base plan)) l s of
               (Inl error, s1) \<Rightarrow> (Inl error, s1)
             | (Inr l1, s1) \<Rightarrow>
                 if object_mount ob \<noteq> loc_mount l1 \<or> object_id ob \<noteq> node_id (here l1) then (Inl FS_INVALID, s1)
                 else (Inr l1, s1)))"

definition resolve_location :: "fs_context option \<Rightarrow> fs_path \<Rightarrow> nat \<Rightarrow> 'b fs \<Rightarrow> (fs_error + location) \<times> 'b fs" where
  "resolve_location ctx plan count s =
     (case resolve_cwd ctx s of
        Inl error \<Rightarrow> (Inl error, s)
      | Inr cwd \<Rightarrow>
          (case root FS_MOUNT_DISK s of
             (Inl error, s1) \<Rightarrow> (Inl error, s1)
           | (Inr l, s1) \<Rightarrow>
               (case resolve_base cwd plan l s1 of
                  (Inl error, s2) \<Rightarrow> (Inl error, s2)
                | (Inr l1, s2) \<Rightarrow>
                    (case steps (take count (token_names (path_input plan))) l1 s2 of
                       (Inl error, s3) \<Rightarrow> (Inl error, s3)
                     | (Inr l2, s3) \<Rightarrow>
                         if count = length (tok_offsets (path_input plan)) \<and> tok_directory (path_input plan) \<and>
                            node_kind (here l2) \<noteq> FS_DIRECTORY
                         then (Inl FS_NOT_DIRECTORY, s3) else (Inr l2, s3)))))"

definition information :: "location \<Rightarrow> 'b fs \<Rightarrow> fs_information" where
  "information l s =
     \<lparr>info_mount = loc_mount l, info_generation = generation (mounts s (loc_mount l)),
      info_object = node_id (here l), info_kind = node_kind (here l), info_size = node_size (here l)\<rparr>"

section \<open>References\<close>

definition retained :: "fs_mount_id \<Rightarrow> nat \<Rightarrow> 'b fs \<Rightarrow> bool" where
  "retained m i s \<longleftrightarrow>
     (\<exists>ob\<in>set (objects s). object_references ob \<noteq> 0 \<and> object_mount ob = m \<and> object_id ob = i)"

text \<open>The scan for the object's slot (the last match) and the first empty slot.\<close>

definition scan_object :: "fs_mount_id \<Rightarrow> nat \<Rightarrow> object list \<Rightarrow> nat \<Rightarrow> nat \<times> nat \<Rightarrow> nat \<times> nat" where
  "scan_object m n obs i se =
     (if object_references (obs ! i) = 0 then (fst se, if snd se = FS_OBJECT_LIMIT then i else snd se)
      else if object_mount (obs ! i) = m \<and> object_id (obs ! i) = n then (i, snd se) else se)"

definition object_slots :: "fs_mount_id \<Rightarrow> nat \<Rightarrow> object list \<Rightarrow> nat \<times> nat" where
  "object_slots m n obs = fold (scan_object m n obs) [0..<FS_OBJECT_LIMIT] (FS_OBJECT_LIMIT, FS_OBJECT_LIMIT)"

text \<open>The interrupt-masked publication of a reference: a new object if one is created, its count,
  the reference and the next token.\<close>

definition publish_reference :: "location \<Rightarrow> u32 \<Rightarrow> nat \<Rightarrow> bool \<Rightarrow> nat \<Rightarrow> 'b fs \<Rightarrow> 'b fs" where
  "publish_reference l acc slot creating ref_slot s =
     (let ob = (if creating then zero_object\<lparr>object_id := node_id (here l), object_mount := loc_mount l, object_kind := node_kind (here l)\<rparr>
                else objects s ! slot)
      in s\<lparr>objects := (objects s)[slot := ob\<lparr>object_references := object_references ob + 1\<rparr>],
           references := (references s)[ref_slot := \<lparr>token = next_token s, ref_object = slot, access = acc\<rparr>],
           next_token := next_token s + 1\<rparr>)"

definition new_reference :: "location \<Rightarrow> u32 \<Rightarrow> 'b fs \<Rightarrow> (fs_error + u64) \<times> 'b fs" where
  "new_reference l acc s =
     (let node = here l in
      if node_kind node = FS_DIRECTORY \<and> acc AND FS_WRITE \<noteq> 0 then (Inl FS_IS_DIRECTORY, s)
      else if backend_read_only (backend_of s (loc_mount l)) \<and> acc AND FS_WRITE \<noteq> 0 then (Inl FS_READ_ONLY, s)
      else if next_token s = 0 then (Inl FS_NO_SPACE, s)
      else
        (let reference_slot = index_of (\<lambda>r. token r = 0) (references s);
             (object_slot, empty) = object_slots (loc_mount l) (node_id node) (objects s)
         in if reference_slot = None \<or> (object_slot = FS_OBJECT_LIMIT \<and> empty = FS_OBJECT_LIMIT) then (Inl FS_NO_SPACE, s)
            else if object_slot = FS_OBJECT_LIMIT then
              (let (error, s1) = call (the (op_retain (ops_of s (loc_mount l))) (node_id node)) s
               in if error \<noteq> FS_OK then (Inl error, s1)
                  else (Inr (next_token s1), publish_reference l acc empty True (the reference_slot) s1))
            else if object_kind (objects s ! object_slot) \<noteq> node_kind node then (Inl FS_IO_ERROR, s)
            else (Inr (next_token s), publish_reference l acc object_slot False (the reference_slot) s)))"

definition dec32 :: "nat \<Rightarrow> nat" where
  "dec32 n = (if n = 0 then UINT32_MAX else n - 1)"

definition close_reference :: "u64 \<Rightarrow> 'b fs \<Rightarrow> fs_error \<times> 'b fs" where
  "close_reference t s =
     (case find_reference t s of
        None \<Rightarrow> (FS_INVALID, s)
      | Some i \<Rightarrow>
          (let slot = ref_object (references s ! i);
               saved = objects s ! slot;
               ob = saved\<lparr>object_references := dec32 (object_references saved)\<rparr>;
               final = (object_references ob = 0);
               s1 = s\<lparr>references := (references s)[i := zero_reference],
                      objects := (objects s)[slot := if final then zero_object else ob]\<rparr>
           in (FS_OK, if final
                      then s1\<lparr>backend_state := the (op_release (ops_of s1 (object_mount saved))) (object_id saved) (backend_state s1)\<rparr>
                      else s1)))"

section \<open>Mounting\<close>

definition backend_complete :: "'b fs_backend \<Rightarrow> bool" where
  "backend_complete b \<longleftrightarrow>
     backend_root b \<noteq> 0 \<and> naming b = FS_NAMES_FAT83 \<and>
     (case operations b of
        None \<Rightarrow> False
      | Some ops \<Rightarrow> op_lookup ops \<noteq> None \<and> op_stat ops \<noteq> None \<and> op_retain ops \<noteq> None \<and> op_release ops \<noteq> None \<and>
                    op_read ops \<noteq> None \<and> op_readdir ops \<noteq> None)"

definition mount_backend :: "'b fs_backend option \<Rightarrow> fs_mount_id \<Rightarrow> 'b fs \<Rightarrow> fs_error \<times> 'b fs" where
  "mount_backend b m s =
     (if b = None \<or> \<not> backend_complete (the b) then (FS_INVALID, s)
      else
        (let (error, s1) = enter s in
         if error \<noteq> FS_OK then (error, s1)
         else
           (let mnt = mounts s1 m in
            if mounted mnt then (FS_BUSY, leave s1)
            else if generation mnt = UINT32_MAX then (FS_NO_SPACE, leave s1)
            else
              (let ((error1, node), s2) = call (the (op_stat (the (operations (the b)))) (backend_root (the b))) s1
               in if error1 = FS_OK then
                    (if \<not> valid_node node \<or> node_id node \<noteq> backend_root (the b) \<or> node_kind node \<noteq> FS_DIRECTORY
                     then (FS_NOT_DIRECTORY, leave s2)
                     else (FS_OK, leave (s2\<lparr>mounts := (mounts s2)(m := \<lparr>backend = the b, generation = generation mnt + 1, mounted = True\<rparr>)\<rparr>)))
                  else (error1, leave s2)))))"

definition fs_mount_disk :: "'b fs_backend option \<Rightarrow> 'b fs \<Rightarrow> fs_error \<times> 'b fs" where
  "fs_mount_disk b s = mount_backend b FS_MOUNT_DISK s"

definition fs_unmount_disk :: "'b fs \<Rightarrow> fs_error \<times> 'b fs" where
  "fs_unmount_disk s =
     (let (error, s1) = enter s in
      if error \<noteq> FS_OK then (error, s1)
      else if \<not> mounted (mounts s1 FS_MOUNT_DISK) then (FS_UNAVAILABLE, leave s1)
      else if \<exists>ob\<in>set (objects s1). object_references ob \<noteq> 0 \<and> object_mount ob = FS_MOUNT_DISK then (FS_BUSY, leave s1)
      else
        (let s2 = s1\<lparr>mounts := (mounts s1)(FS_MOUNT_DISK := (mounts s1 FS_MOUNT_DISK)\<lparr>mounted := False\<rparr>)\<rparr>
         in (FS_OK, leave (case op_unmount (ops_of s2 FS_MOUNT_DISK) of
                             Some f \<Rightarrow> s2\<lparr>backend_state := f (backend_state s2)\<rparr>
                           | None \<Rightarrow> s2))))"

section \<open>Operations on paths and references\<close>

text \<open>The bracket of the path operations: parse, enter, resolve, act, leave.\<close>

definition fs_open :: "fs_context option \<Rightarrow> string option \<Rightarrow> u32 \<Rightarrow> u64 option \<Rightarrow> 'b fs \<Rightarrow> (fs_error \<times> u64 option) \<times> 'b fs" where
  "fs_open ctx path acc result s =
     (if result = None \<or> acc = 0 \<or> acc AND NOT (FS_READ OR FS_WRITE) \<noteq> 0 then ((FS_INVALID, result), s)
      else
        (case preflight ctx path of
           Inl error \<Rightarrow> ((error, Some 0), s)
         | Inr plan \<Rightarrow>
             (let (error, s1) = enter s in
              if error \<noteq> FS_OK then ((error, Some 0), s1)
              else
                (case resolve_location ctx plan (length (tok_offsets (path_input plan))) s1 of
                   (Inl error, s2) \<Rightarrow> ((error, Some 0), leave s2)
                 | (Inr l, s2) \<Rightarrow>
                     (case new_reference l acc s2 of
                        (Inl error, s3) \<Rightarrow> ((error, Some 0), leave s3)
                      | (Inr t, s3) \<Rightarrow> ((FS_OK, Some t), leave s3))))))"

definition fs_duplicate :: "u64 \<Rightarrow> u64 option \<Rightarrow> 'b fs \<Rightarrow> (fs_error \<times> u64 option) \<times> 'b fs" where
  "fs_duplicate t result s =
     (if result = None then ((FS_INVALID, None), s)
      else
        (let (error, s1) = enter s in
         if error \<noteq> FS_OK then ((error, Some 0), s1)
         else
           (case find_reference t s1 of
              None \<Rightarrow> ((FS_INVALID, Some 0), leave s1)
            | Some i \<Rightarrow>
                (let ob = object_of i s1;
                     l = location_of (object_mount ob) \<lparr>node_id = object_id ob, node_size = 0, node_kind = object_kind ob\<rparr>
                 in case new_reference l (access (references s1 ! i)) s1 of
                      (Inl error, s2) \<Rightarrow> ((error, Some 0), leave s2)
                    | (Inr t', s2) \<Rightarrow> ((FS_OK, Some t'), leave s2)))))"

definition fs_close :: "u64 \<Rightarrow> 'b fs \<Rightarrow> fs_error \<times> 'b fs" where
  "fs_close t s =
     (let (error, s1) = enter s in
      if error \<noteq> FS_OK then (error, s1)
      else (let (error1, s2) = close_reference t s1 in (error1, leave s2)))"

definition fs_stat :: "u64 \<Rightarrow> fs_information option \<Rightarrow> 'b fs \<Rightarrow> (fs_error \<times> fs_information option) \<times> 'b fs" where
  "fs_stat t result s =
     (if result = None then ((FS_INVALID, None), s)
      else
        (let (error, s1) = enter s in
         if error \<noteq> FS_OK then ((error, Some zero_information), s1)
         else
           (case find_reference t s1 of
              None \<Rightarrow> ((FS_INVALID, Some zero_information), leave s1)
            | Some i \<Rightarrow>
                (let ob = object_of i s1;
                     ((error1, node), s2) = call (the (op_stat (ops_of s1 (object_mount ob))) (object_id ob)) s1
                 in if error1 = FS_OK \<and> (\<not> valid_node node \<or> node_id node \<noteq> object_id ob \<or> node_kind node \<noteq> object_kind ob)
                    then ((FS_IO_ERROR, Some zero_information), leave s2)
                    else if error1 \<noteq> FS_OK then ((error1, Some zero_information), leave s2)
                    else ((FS_OK, Some (information (location_of (object_mount ob) node) s2)), leave s2)))))"

definition fs_stat_path ::
  "fs_context option \<Rightarrow> string option \<Rightarrow> fs_information option \<Rightarrow> 'b fs \<Rightarrow> (fs_error \<times> fs_information option) \<times> 'b fs" where
  "fs_stat_path ctx path result s =
     (if result = None then ((FS_INVALID, None), s)
      else
        (case preflight ctx path of
           Inl error \<Rightarrow> ((error, Some zero_information), s)
         | Inr plan \<Rightarrow>
             (let (error, s1) = enter s in
              if error \<noteq> FS_OK then ((error, Some zero_information), s1)
              else
                (case resolve_location ctx plan (length (tok_offsets (path_input plan))) s1 of
                   (Inl error, s2) \<Rightarrow> ((error, Some zero_information), leave s2)
                 | (Inr l, s2) \<Rightarrow> ((FS_OK, Some (information l s2)), leave s2)))))"

definition io_backend :: "bool \<Rightarrow> 'b fs_operations \<Rightarrow> nat \<Rightarrow> nat \<Rightarrow> u8 list option \<Rightarrow> nat \<Rightarrow> 'b fs \<Rightarrow> (fs_io_result \<times> u8 list option) \<times> 'b fs" where
  "io_backend write ops i offset buffer bytes s =
     (if write then
        (case op_write ops of
           None \<Rightarrow> ((io_result_of FS_UNSUPPORTED, buffer), s)
         | Some f \<Rightarrow> (let (r, s1) = call (f i offset (the buffer) bytes) s in ((r, buffer), s1)))
      else
        (let ((r, b), s1) = call (the (op_read ops) i offset (the buffer) bytes) s in ((r, Some b), s1)))"

definition io :: "u64 \<Rightarrow> nat \<Rightarrow> u8 list option \<Rightarrow> nat \<Rightarrow> bool \<Rightarrow> 'b fs \<Rightarrow> (fs_io_result \<times> u8 list option) \<times> 'b fs" where
  "io t offset buffer bytes write s =
     (if bytes \<noteq> 0 \<and> buffer = None then ((io_result_of FS_INVALID, buffer), s)
      else if bytes > UINT64_MAX - offset then ((io_result_of FS_RANGE, buffer), s)
      else
        (let (error, s1) = enter s in
         if error \<noteq> FS_OK then ((io_result_of error, buffer), s1)
         else
           (case find_reference t s1 of
              None \<Rightarrow> ((io_result_of FS_INVALID, buffer), leave s1)
            | Some i \<Rightarrow>
                (let ob = object_of i s1 in
                 if access (references s1 ! i) AND (if write then FS_WRITE else FS_READ) = 0
                 then ((io_result_of FS_ACCESS, buffer), leave s1)
                 else if object_kind ob \<noteq> FS_FILE then ((io_result_of FS_IS_DIRECTORY, buffer), leave s1)
                 else if write \<and> backend_read_only (backend_of s1 (object_mount ob)) then ((io_result_of FS_READ_ONLY, buffer), leave s1)
                 else if bytes \<noteq> 0 then
                   (let ((r, b), s2) = io_backend write (ops_of s1 (object_mount ob)) (object_id ob) offset buffer bytes s1
                    in ((if transferred r > bytes then io_result_of FS_IO_ERROR else r, b), leave s2))
                 else ((io_result_of FS_OK, buffer), leave s1)))))"

definition fs_read :: "u64 \<Rightarrow> nat \<Rightarrow> u8 list option \<Rightarrow> nat \<Rightarrow> 'b fs \<Rightarrow> (fs_io_result \<times> u8 list option) \<times> 'b fs" where
  "fs_read t offset buffer bytes s = io t offset buffer bytes False s"

definition fs_write :: "u64 \<Rightarrow> nat \<Rightarrow> u8 list option \<Rightarrow> nat \<Rightarrow> 'b fs \<Rightarrow> fs_io_result \<times> 'b fs" where
  "fs_write t offset buffer bytes s = (let ((r, _), s1) = io t offset buffer bytes True s in (r, s1))"

text \<open>A directory entry is accepted when the cursor advances and its name is a valid one; the name
  is upper-cased. Names are the strings before the terminator.\<close>

definition accept_entry :: "fs_naming \<Rightarrow> nat \<Rightarrow> nat \<Rightarrow> fs_entry \<Rightarrow> fs_error + fs_entry" where
  "accept_entry nm cursor next1 entry =
     (if next1 \<le> cursor \<or> fs_name_check nm (Some (entry_name entry)) \<noteq> FS_OK \<or>
         (entry_kind entry \<noteq> FS_FILE \<and> entry_kind entry \<noteq> FS_DIRECTORY) then Inl FS_IO_ERROR
      else Inr (if nm = FS_NAMES_FAT83 then entry\<lparr>entry_name := map upcase (entry_name entry)\<rparr> else entry))"

definition fs_readdir ::
  "u64 \<Rightarrow> nat option \<Rightarrow> fs_entry option \<Rightarrow> 'b fs \<Rightarrow> (fs_error \<times> nat option \<times> fs_entry option) \<times> 'b fs" where
  "fs_readdir t cursor entry s =
     (if cursor = None \<or> entry = None then ((FS_INVALID, cursor, entry), s)
      else
        (let (error, s1) = enter s in
         if error \<noteq> FS_OK then ((error, cursor, Some zero_entry), s1)
         else
           (case find_reference t s1 of
              None \<Rightarrow> ((FS_INVALID, cursor, Some zero_entry), leave s1)
            | Some i \<Rightarrow>
                (let ob = object_of i s1; m = object_mount ob in
                 if access (references s1 ! i) AND FS_READ = 0 then ((FS_ACCESS, cursor, Some zero_entry), leave s1)
                 else if object_kind ob \<noteq> FS_DIRECTORY then ((FS_NOT_DIRECTORY, cursor, Some zero_entry), leave s1)
                 else
                   (let ((error1, e, next1), s2) = call (the (op_readdir (ops_of s1 m)) (object_id ob) (the cursor)) s1
                    in if error1 = FS_OK then
                         (case accept_entry (naming (backend_of s1 m)) (the cursor) next1 e of
                            Inl error2 \<Rightarrow> ((error2, cursor, Some zero_entry), leave s2)
                          | Inr e1 \<Rightarrow> ((FS_OK, Some next1, Some e1), leave s2))
                       else ((error1, cursor, Some zero_entry), leave s2))))))"

definition fs_truncate :: "u64 \<Rightarrow> nat \<Rightarrow> 'b fs \<Rightarrow> fs_error \<times> 'b fs" where
  "fs_truncate t bytes s =
     (let (error, s1) = enter s in
      if error \<noteq> FS_OK then (error, s1)
      else
        (case find_reference t s1 of
           None \<Rightarrow> (FS_INVALID, leave s1)
         | Some i \<Rightarrow>
             (let ob = object_of i s1; m = object_mount ob in
              if access (references s1 ! i) AND FS_WRITE = 0 then (FS_ACCESS, leave s1)
              else if object_kind ob \<noteq> FS_FILE then (FS_IS_DIRECTORY, leave s1)
              else if backend_read_only (backend_of s1 m) then (FS_READ_ONLY, leave s1)
              else
                (case op_truncate (ops_of s1 m) of
                   None \<Rightarrow> (FS_UNSUPPORTED, leave s1)
                 | Some f \<Rightarrow> (let (error1, s2) = call (f (object_id ob) bytes) s1 in (error1, leave s2))))))"

definition fs_flush :: "u64 \<Rightarrow> 'b fs \<Rightarrow> fs_error \<times> 'b fs" where
  "fs_flush t s =
     (let (error, s1) = enter s in
      if error \<noteq> FS_OK then (error, s1)
      else
        (case find_reference t s1 of
           None \<Rightarrow> (FS_INVALID, leave s1)
         | Some i \<Rightarrow>
             (let m = object_mount (object_of i s1) in
              case op_flush (ops_of s1 m) of
                Some f \<Rightarrow> (let (error1, s2) = call f s1 in (error1, leave s2))
              | None \<Rightarrow> (if backend_read_only (backend_of s1 m) then FS_OK else FS_UNSUPPORTED, leave s1))))"

section \<open>Changes to the tree\<close>

datatype mutation = REPLACE | REMOVE | MKDIR

definition mutation_refused :: "mutation \<Rightarrow> fs_error" where
  "mutation_refused action = (if action = REMOVE then FS_BUSY else FS_IS_DIRECTORY)"

text \<open>The verdict on the looked-up name, before the backend is asked to change anything.\<close>

definition mutation_check :: "mutation \<Rightarrow> bool \<Rightarrow> fs_mount_id \<Rightarrow> fs_error \<Rightarrow> fs_node \<Rightarrow> 'b fs \<Rightarrow> fs_error" where
  "mutation_check action directory1 m error node s =
     (let exists1 = (error = FS_OK) in
      if exists1 \<and> \<not> valid_node node then FS_IO_ERROR
      else if exists1 \<and> action = MKDIR then FS_EXISTS
      else if exists1 \<and> directory1 \<and> node_kind node \<noteq> FS_DIRECTORY then FS_NOT_DIRECTORY
      else if exists1 \<and> action = REPLACE \<and> node_kind node = FS_DIRECTORY then FS_IS_DIRECTORY
      else if exists1 \<and> retained m (node_id node) s then FS_BUSY
      else if \<not> exists1 \<and> error = FS_NOT_FOUND \<and> action \<noteq> REMOVE then
        (if directory1 \<and> action \<noteq> MKDIR then FS_NOT_FOUND else FS_OK)
      else error)"

definition mutation_apply ::
  "mutation \<Rightarrow> 'b fs_operations \<Rightarrow> nat \<Rightarrow> string \<Rightarrow> u8 list option \<Rightarrow> nat \<Rightarrow> 'b fs \<Rightarrow> fs_error \<times> 'b fs" where
  "mutation_apply action ops i name data bytes s =
     (case action of
        REPLACE \<Rightarrow> (case op_replace ops of
                      Some f \<Rightarrow> call (f i name (case data of Some d \<Rightarrow> d | None \<Rightarrow> []) bytes) s
                    | None \<Rightarrow> (FS_UNSUPPORTED, s))
      | REMOVE \<Rightarrow> (case op_remove ops of Some f \<Rightarrow> call (f i name) s | None \<Rightarrow> (FS_UNSUPPORTED, s))
      | MKDIR \<Rightarrow> (case op_mkdir ops of Some f \<Rightarrow> call (f i name) s | None \<Rightarrow> (FS_UNSUPPORTED, s)))"

definition mutate_at ::
  "mutation \<Rightarrow> bool \<Rightarrow> string \<Rightarrow> u8 list option \<Rightarrow> nat \<Rightarrow> location \<Rightarrow> 'b fs \<Rightarrow> fs_error \<times> 'b fs" where
  "mutate_at action directory1 name data bytes parent s =
     (if node_kind (here parent) \<noteq> FS_DIRECTORY then (FS_NOT_DIRECTORY, s)
      else if backend_read_only (backend_of s (loc_mount parent)) then (FS_READ_ONLY, s)
      else
        (let m = loc_mount parent; i = node_id (here parent);
             ((error, node), s1) = call (the (op_lookup (ops_of s m)) i name) s;
             error1 = mutation_check action directory1 m error node s1
         in if error1 = FS_OK then mutation_apply action (ops_of s1 m) i name data bytes s1 else (error1, s1)))"

definition mutate :: "fs_context option \<Rightarrow> string option \<Rightarrow> u8 list option \<Rightarrow> nat \<Rightarrow> mutation \<Rightarrow> 'b fs \<Rightarrow> fs_error \<times> 'b fs" where
  "mutate ctx path data bytes action s =
     (if bytes \<noteq> 0 \<and> data = None then (FS_INVALID, s)
      else
        (case preflight ctx path of
           Inl error \<Rightarrow> (error, s)
         | Inr plan \<Rightarrow>
             (let (error, s1) = enter s in
              if error \<noteq> FS_OK then (error, s1)
              else if tok_offsets (path_input plan) = [] then (mutation_refused action, leave s1)
              else
                (let count = length (tok_offsets (path_input plan));
                     name = last (token_names (path_input plan));
                     special = (c_equal name ''.'' \<or> c_equal name ''..'')
                 in case resolve_location ctx plan (count - (if special then 0 else 1)) s1 of
                      (Inl error, s2) \<Rightarrow> (error, leave s2)
                    | (Inr parent, s2) \<Rightarrow>
                        if special then (mutation_refused action, leave s2)
                        else
                          (let (error, s3) = mutate_at action (tok_directory (path_input plan)) name data bytes parent s2
                           in (error, leave s3))))))"

definition fs_replace :: "fs_context option \<Rightarrow> string option \<Rightarrow> u8 list option \<Rightarrow> nat \<Rightarrow> 'b fs \<Rightarrow> fs_error \<times> 'b fs" where
  "fs_replace ctx path data bytes s = mutate ctx path data bytes REPLACE s"

definition fs_remove :: "fs_context option \<Rightarrow> string option \<Rightarrow> 'b fs \<Rightarrow> fs_error \<times> 'b fs" where
  "fs_remove ctx path s = mutate ctx path None 0 REMOVE s"

definition fs_mkdir :: "fs_context option \<Rightarrow> string option \<Rightarrow> 'b fs \<Rightarrow> fs_error \<times> 'b fs" where
  "fs_mkdir ctx path s = mutate ctx path None 0 MKDIR s"

section \<open>Working directories\<close>

definition fs_context_initialize :: "fs_context option \<Rightarrow> 'b fs \<Rightarrow> (fs_error \<times> fs_context option) \<times> 'b fs" where
  "fs_context_initialize ctx s =
     (if ctx = None \<or> directory (the ctx) \<noteq> 0 then ((FS_INVALID, ctx), s)
      else
        (let ((error, d), s1) = fs_open None (Some ''/'') FS_READ (Some 0) s
         in if error = FS_OK
            then ((FS_OK, Some (zero_context\<lparr>directory := the d, cwd_path := (cwd_path zero_context)[0 := CHR ''/'']\<rparr>)), s1)
            else ((error, ctx), s1)))"

definition fs_context_clone :: "fs_context option \<Rightarrow> fs_context option \<Rightarrow> 'b fs \<Rightarrow> (fs_error \<times> fs_context option) \<times> 'b fs" where
  "fs_context_clone source destination s =
     (if source = None \<or> destination = None \<or> directory (the destination) \<noteq> 0 then ((FS_INVALID, destination), s)
      else if directory (the source) = 0 then
        (let ((error, d), s1) = fs_context_initialize destination s
         in ((if error = FS_UNAVAILABLE then FS_OK else error, d), s1))
      else
        (let (error, s1) = enter s in
         if error \<noteq> FS_OK then ((error, destination), s1)
         else
           (case find_reference (directory (the source)) s1 of
              None \<Rightarrow> ((FS_INVALID, destination), leave s1)
            | Some i \<Rightarrow>
                (let ob = object_of i s1 in
                 if object_kind ob \<noteq> FS_DIRECTORY then ((FS_NOT_DIRECTORY, destination), leave s1)
                 else
                   (case new_reference (location_of (object_mount ob) \<lparr>node_id = object_id ob, node_size = 0, node_kind = FS_DIRECTORY\<rparr>) FS_READ s1 of
                      (Inl error, s2) \<Rightarrow> ((error, destination), leave s2)
                    | (Inr t, s2) \<Rightarrow> ((FS_OK, Some ((the source)\<lparr>directory := t\<rparr>)), leave s2))))))"

definition fs_context_chdir :: "fs_context option \<Rightarrow> string option \<Rightarrow> 'b fs \<Rightarrow> (fs_error \<times> fs_context option) \<times> 'b fs" where
  "fs_context_chdir ctx path s =
     (if ctx = None then ((FS_INVALID, None), s)
      else
        (case preflight ctx path of
           Inl error \<Rightarrow> ((error, ctx), s)
         | Inr plan \<Rightarrow>
             (let (error, s1) = enter s in
              if error \<noteq> FS_OK then ((error, ctx), s1)
              else
                (case resolve_location ctx plan (length (tok_offsets (path_input plan))) s1 of
                   (Inl error, s2) \<Rightarrow> ((error, ctx), leave s2)
                 | (Inr l, s2) \<Rightarrow>
                     if node_kind (here l) \<noteq> FS_DIRECTORY then ((FS_NOT_DIRECTORY, ctx), leave s2)
                     else
                       (case new_reference l FS_READ s2 of
                          (Inl error, s3) \<Rightarrow> ((error, ctx), leave s3)
                        | (Inr t, s3) \<Rightarrow>
                            ((FS_OK, Some \<lparr>directory = t, cwd_path = path_canonical plan\<rparr>),
                             leave (snd (close_reference (directory (the ctx)) s3))))))))"

definition fs_context_destroy :: "fs_context option \<Rightarrow> 'b fs \<Rightarrow> (fs_error \<times> fs_context option) \<times> 'b fs" where
  "fs_context_destroy ctx s =
     (if ctx = None then ((FS_INVALID, None), s)
      else if directory (the ctx) = 0 then ((FS_OK, Some zero_context), s)
      else
        (let (error, s1) = fs_close (directory (the ctx)) s
         in ((error, if error = FS_OK then Some zero_context else ctx), s1)))"

end
