(* ===== verification/Rum_Fs_Inv.thy ===== *)
theory Rum_Fs_Inv
  imports Rum_Fs
begin

text \<open>
  The invariant of the filesystem tables and their abstraction, for an arbitrary backend. The
  abstract view \<open>open_refs\<close> is a map from tokens to what they name and allow; object slots and
  reference counts do not appear in it. Opening adds one fresh token, closing removes one, and no
  backend behaviour can break the tables.
\<close>

section \<open>Searching a table\<close>

lemma index_of_Some: "index_of P xs = Some i \<longleftrightarrow> i < length xs \<and> P (xs ! i) \<and> (\<forall>j<i. \<not> P (xs ! j))"
proof (induction xs arbitrary: i)
  case (Cons x xs)
  show ?case
  proof (cases i)
    case 0
    then show ?thesis using Cons by (cases "index_of P xs") auto
  next
    case (Suc k)
    have "(\<forall>j<Suc k. \<not> P ((x # xs) ! j)) \<longleftrightarrow> \<not> P x \<and> (\<forall>j<k. \<not> P (xs ! j))" by (auto simp: less_Suc_eq_0_disj)
    then show ?thesis using Cons [of k] Suc by auto
  qed
qed simp

lemma index_of_None: "index_of P xs = None \<longleftrightarrow> (\<forall>x\<in>set xs. \<not> P x)"
  by (induction xs) auto

text \<open>A predicate that at most one slot satisfies.\<close>

lemma index_of_unique:
  assumes "i < length xs" "P (xs ! i)" "\<And>j. j < length xs \<Longrightarrow> P (xs ! j) \<Longrightarrow> j = i"
  shows "index_of P xs = Some i"
  unfolding index_of_Some using assms by (metis order.strict_trans less_irrefl)

text \<open>The object scan: the slot of the object if it has one, and the first empty slot.\<close>

lemma object_slots_fold:
  assumes "n \<le> FS_OBJECT_LIMIT" "fold (scan_object m k obs) [0..<n] (FS_OBJECT_LIMIT, FS_OBJECT_LIMIT) = (slot, e)"
  shows "(slot = FS_OBJECT_LIMIT \<longrightarrow> (\<forall>i<n. object_references (obs ! i) \<noteq> 0 \<longrightarrow> \<not> (object_mount (obs ! i) = m \<and> object_id (obs ! i) = k))) \<and>
    (slot \<noteq> FS_OBJECT_LIMIT \<longrightarrow> slot < n \<and> object_references (obs ! slot) \<noteq> 0 \<and> object_mount (obs ! slot) = m \<and> object_id (obs ! slot) = k) \<and>
    (e = FS_OBJECT_LIMIT \<longrightarrow> (\<forall>i<n. object_references (obs ! i) \<noteq> 0)) \<and>
    (e \<noteq> FS_OBJECT_LIMIT \<longrightarrow> e < n \<and> object_references (obs ! e) = 0)"
  using assms
proof (induction n arbitrary: slot e)
  case (Suc n)
  obtain slot1 e1 where f: "fold (scan_object m k obs) [0..<n] (FS_OBJECT_LIMIT, FS_OBJECT_LIMIT) = (slot1, e1)" by fastforce
  have n: "n < FS_OBJECT_LIMIT" using Suc.prems(1) by simp
  have r: "scan_object m k obs n (slot1, e1) = (slot, e)" using Suc.prems(2) f by simp
  note IH = Suc.IH [OF less_imp_le [OF n] f]
  show ?case
  proof (cases "object_references (obs ! n) = 0")
    case True
    then show ?thesis using r IH n by (cases "e1 = FS_OBJECT_LIMIT") (auto simp: scan_object_def less_Suc_eq)
  next
    case False
    then show ?thesis using r IH n
      by (cases "object_mount (obs ! n) = m \<and> object_id (obs ! n) = k") (auto simp: scan_object_def less_Suc_eq)
  qed
qed simp

lemmas object_slots_result = object_slots_fold [OF order.refl, folded object_slots_def]

section \<open>Invariant and abstraction\<close>

definition refs_to :: "reference list \<Rightarrow> nat \<Rightarrow> nat" where
  "refs_to rs i = length (filter (\<lambda>r. token r \<noteq> 0 \<and> ref_object r = i) rs)"

definition live_object :: "object \<Rightarrow> bool" where
  "live_object ob \<longleftrightarrow> object_references ob \<noteq> 0"

definition objects_ok :: "'b fs \<Rightarrow> bool" where
  "objects_ok s \<longleftrightarrow> length (objects s) = FS_OBJECT_LIMIT \<and>
     (\<forall>i<FS_OBJECT_LIMIT. object_references (objects s ! i) = refs_to (references s) i) \<and>
     (\<forall>i<FS_OBJECT_LIMIT. live_object (objects s ! i) \<longrightarrow>
        object_id (objects s ! i) \<noteq> 0 \<and> mounted (mounts s (object_mount (objects s ! i)))) \<and>
     (\<forall>i<FS_OBJECT_LIMIT. \<forall>j<FS_OBJECT_LIMIT. live_object (objects s ! i) \<longrightarrow> live_object (objects s ! j) \<longrightarrow>
        object_mount (objects s ! i) = object_mount (objects s ! j) \<longrightarrow> object_id (objects s ! i) = object_id (objects s ! j) \<longrightarrow> i = j)"

definition reference_ok :: "u64 \<Rightarrow> object list \<Rightarrow> reference \<Rightarrow> bool" where
  "reference_ok nt obs r \<longleftrightarrow> token r \<noteq> 0 \<longrightarrow>
     ref_object r < FS_OBJECT_LIMIT \<and> (nt = 0 \<or> token r < nt) \<and> access r \<in> {FS_READ, FS_WRITE, FS_READ OR FS_WRITE} \<and>
     (access r AND FS_WRITE \<noteq> 0 \<longrightarrow> object_kind (obs ! ref_object r) = FS_FILE)"

definition references_ok :: "'b fs \<Rightarrow> bool" where
  "references_ok s \<longleftrightarrow> length (references s) = FS_REFERENCE_LIMIT \<and>
     (\<forall>r\<in>set (references s). reference_ok (next_token s) (objects s) r) \<and>
     (\<forall>i<FS_REFERENCE_LIMIT. \<forall>j<FS_REFERENCE_LIMIT. token (references s ! i) \<noteq> 0 \<longrightarrow>
        token (references s ! i) = token (references s ! j) \<longrightarrow> i = j)"

definition mounts_ok :: "'b fs \<Rightarrow> bool" where
  "mounts_ok s \<longleftrightarrow> (\<forall>m. mounted (mounts s m) \<longrightarrow> backend_complete (backend (mounts s m)))"

definition fs_inv :: "'b fs \<Rightarrow> bool" where
  "fs_inv s \<longleftrightarrow> objects_ok s \<and> references_ok s \<and> mounts_ok s"

record open_ref =
  open_mount :: fs_mount_id
  open_id :: nat
  open_kind :: fs_kind
  open_access :: u32

definition open_refs :: "'b fs \<Rightarrow> u64 \<rightharpoonup> open_ref" where
  "open_refs s t = map_option (\<lambda>i. \<lparr>open_mount = object_mount (object_of i s), open_id = object_id (object_of i s),
      open_kind = object_kind (object_of i s), open_access = access (references s ! i)\<rparr>) (find_reference t s)"

text \<open>Everything but the backend's state and the busy flag.\<close>

definition tables :: "'b fs \<Rightarrow> (fs_mount_id \<Rightarrow> 'b mount) \<times> object list \<times> reference list \<times> u64 \<times> bool" where
  "tables s = (mounts s, objects s, references s, next_token s, ready s)"

lemma tables_simps [simp]:
  "tables (s\<lparr>backend_state := b\<rparr>) = tables s" "tables (s\<lparr>busy := x\<rparr>) = tables s" "tables (leave s) = tables s"
  by (simp_all add: tables_def leave_def)

lemma tables_view:
  assumes "tables s' = tables s"
  shows "fs_inv s' = fs_inv s" "open_refs s' = open_refs s" "find_reference t s' = find_reference t s" "object_of i s' = object_of i s"
    "references s' = references s" "mounts s' = mounts s" "retained m k s' = retained m k s" "ready s' = ready s"
    "ops_of s' m = ops_of s m" "backend_of s' m = backend_of s m" "objects s' = objects s" "next_token s' = next_token s"
  using assms by (auto simp: tables_def fs_inv_def objects_ok_def references_ok_def mounts_ok_def open_refs_def
      find_reference_def object_of_def retained_def ops_of_def backend_of_def fun_eq_iff)

lemma call_tables [simp]: "tables (snd (call f s)) = tables s"
  by (simp add: call_def split_beta)

lemma call_eq: "call f s = (r, s') \<Longrightarrow> tables s' = tables s \<and> busy s' = busy s \<and> f (backend_state s) = (r, backend_state s')"
  by (auto simp: call_def split: prod.splits)

section \<open>Counting references\<close>

lemma refs_to_update:
  assumes "k < length rs"
  shows "refs_to (rs[k := r]) i + (if token (rs ! k) \<noteq> 0 \<and> ref_object (rs ! k) = i then 1 else 0)
       = refs_to rs i + (if token r \<noteq> 0 \<and> ref_object r = i then 1 else 0)"
proof -
  have "rs = take k rs @ rs ! k # drop (Suc k) rs" using assms by (simp add: id_take_nth_drop)
  then have "refs_to rs i = refs_to (take k rs) i + refs_to [rs ! k] i + refs_to (drop (Suc k) rs) i"
    unfolding refs_to_def by (metis (no_types, lifting) add.assoc append_Cons append_Nil filter_append length_append)
  moreover have "refs_to (rs[k := r]) i = refs_to (take k rs) i + refs_to [r] i + refs_to (drop (Suc k) rs) i"
    using assms by (simp add: refs_to_def upd_conv_take_nth_drop)
  ultimately show ?thesis by (simp add: refs_to_def)
qed

lemma refs_to_pos: "refs_to rs i \<noteq> 0 \<longleftrightarrow> (\<exists>r\<in>set rs. token r \<noteq> 0 \<and> ref_object r = i)"
  by (auto simp: refs_to_def filter_empty_conv)

lemma find_reference_Some:
  assumes "references_ok s"
  shows "find_reference t s = Some i \<longleftrightarrow> t \<noteq> 0 \<and> i < FS_REFERENCE_LIMIT \<and> token (references s ! i) = t"
proof
  assume "find_reference t s = Some i"
  then show "t \<noteq> 0 \<and> i < FS_REFERENCE_LIMIT \<and> token (references s ! i) = t"
    using assms by (auto simp: find_reference_def references_ok_def index_of_Some split: if_splits)
next
  assume "t \<noteq> 0 \<and> i < FS_REFERENCE_LIMIT \<and> token (references s ! i) = t"
  then show "find_reference t s = Some i"
    using assms unfolding find_reference_def references_ok_def by (auto intro!: index_of_unique)
qed

lemma find_reference_live:
  assumes "fs_inv s" "find_reference t s = Some i"
  shows "ref_object (references s ! i) < FS_OBJECT_LIMIT" "live_object (object_of i s)" "object_id (object_of i s) \<noteq> 0"
    "mounted (mounts s (object_mount (object_of i s)))" "access (references s ! i) \<in> {FS_READ, FS_WRITE, FS_READ OR FS_WRITE}"
    "access (references s ! i) AND FS_WRITE \<noteq> 0 \<Longrightarrow> object_kind (object_of i s) = FS_FILE"
proof -
  have r: "references_ok s" "objects_ok s" using assms(1) by (auto simp: fs_inv_def)
  have i: "t \<noteq> 0" "i < FS_REFERENCE_LIMIT" "token (references s ! i) = t" using assms(2) find_reference_Some [OF r(1)] by auto
  then have m: "references s ! i \<in> set (references s)" using r(1) by (simp add: references_ok_def)
  then have ok: "reference_ok (next_token s) (objects s) (references s ! i)" using r(1) by (simp add: references_ok_def)
  then show a: "ref_object (references s ! i) < FS_OBJECT_LIMIT" using i by (simp add: reference_ok_def)
  show "access (references s ! i) \<in> {FS_READ, FS_WRITE, FS_READ OR FS_WRITE}" using ok i by (simp add: reference_ok_def)
  show "access (references s ! i) AND FS_WRITE \<noteq> 0 \<Longrightarrow> object_kind (object_of i s) = FS_FILE"
    using ok i by (simp add: reference_ok_def object_of_def)
  have "refs_to (references s) (ref_object (references s ! i)) \<noteq> 0" unfolding refs_to_pos using m i by blast
  then show l: "live_object (object_of i s)" using r(2) a by (simp add: objects_ok_def live_object_def object_of_def)
  show "object_id (object_of i s) \<noteq> 0" "mounted (mounts s (object_mount (object_of i s)))"
    using r(2) a l by (simp_all add: objects_ok_def object_of_def)
qed

section \<open>Publishing and closing references\<close>

lemma open_refs_token:
  assumes "references_ok s"
  shows "open_refs s t \<noteq> None \<longleftrightarrow> t \<noteq> 0 \<and> t \<in> token ` set (references s)"
proof -
  have "open_refs s t \<noteq> None \<longleftrightarrow> (\<exists>i. find_reference t s = Some i)" by (auto simp: open_refs_def)
  also have "\<dots> \<longleftrightarrow> t \<noteq> 0 \<and> (\<exists>i<length (references s). token (references s ! i) = t)"
    using assms find_reference_Some [OF assms] by (auto simp: references_ok_def)
  also have "(\<exists>i<length (references s). token (references s ! i) = t) \<longleftrightarrow> t \<in> token ` set (references s)"
    unfolding image_iff Bex_def in_set_conv_nth by blast
  finally show ?thesis .
qed

lemma next_token_fresh: "fs_inv s \<Longrightarrow> next_token s \<noteq> 0 \<Longrightarrow> open_refs s (next_token s) = None"
  using open_refs_token [of s "next_token s"]
  by (auto simp: fs_inv_def references_ok_def reference_ok_def)

lemma next_token_Suc:
  assumes "nt \<noteq> 0" and "x = 0 \<or> x \<noteq> 0 \<and> (nt = 0 \<or> x < nt) \<or> x = nt"
  shows "x = 0 \<or> nt + 1 = 0 \<or> x < nt + (1 :: u64)"
proof (cases "nt + 1 = 0")
  case False
  then have "nt < nt + 1" using unatSuc [of nt] by (simp add: word_less_nat_alt add.commute)
  then show ?thesis using assms by (auto dest: less_trans)
qed simp

definition slot_free :: "location \<Rightarrow> nat \<Rightarrow> bool \<Rightarrow> nat \<Rightarrow> 'b fs \<Rightarrow> bool" where
  "slot_free l slot creating k s \<longleftrightarrow>
     slot < FS_OBJECT_LIMIT \<and> k < FS_REFERENCE_LIMIT \<and> token (references s ! k) = 0 \<and> next_token s \<noteq> 0 \<and>
     (if creating then \<not> live_object (objects s ! slot) \<and> \<not> retained (loc_mount l) (node_id (here l)) s
      else live_object (objects s ! slot) \<and> object_mount (objects s ! slot) = loc_mount l \<and>
           object_id (objects s ! slot) = node_id (here l) \<and> object_kind (objects s ! slot) = node_kind (here l))"

lemma retained_slot:
  "objects_ok s \<Longrightarrow> i < FS_OBJECT_LIMIT \<Longrightarrow> live_object (objects s ! i) \<Longrightarrow> retained (object_mount (objects s ! i)) (object_id (objects s ! i)) s"
  unfolding retained_def live_object_def objects_ok_def by (metis nth_mem)

lemma publish_objects_ok:
  assumes inv: "fs_inv s" and free: "slot_free l slot creating k s" and m: "mounted (mounts s (loc_mount l))" and n: "node_id (here l) \<noteq> 0"
  shows "objects_ok (publish_reference l acc slot creating k s)"
proof -
  let ?s = "publish_reference l acc slot creating k s"
  define ob where "ob = objects ?s ! slot"
  have len: "length (objects s) = FS_OBJECT_LIMIT" "length (references s) = FS_REFERENCE_LIMIT"
    using inv by (simp_all add: fs_inv_def objects_ok_def references_ok_def)
  have slot: "slot < FS_OBJECT_LIMIT" "k < FS_REFERENCE_LIMIT" "token (references s ! k) = 0" "next_token s \<noteq> 0"
    using free by (simp_all add: slot_free_def)
  have os: "objects ?s = (objects s)[slot := ob]" by (simp add: ob_def publish_reference_def Let_def len slot)
  have obs: "object_mount ob = loc_mount l" "object_id ob = node_id (here l)"
      "object_references ob = object_references (objects s ! slot) + 1"
    using free by (simp_all add: ob_def publish_reference_def Let_def len slot slot_free_def zero_object_def live_object_def split: if_splits)
  have rs: "refs_to (references ?s) i = refs_to (references s) i + (if i = slot then 1 else 0)" for i
    using refs_to_update [of k "references s" "\<lparr>token = next_token s, ref_object = slot, access = acc\<rparr>" i] slot len
    by (simp add: publish_reference_def Let_def)
  have other: "i = slot" if "i < FS_OBJECT_LIMIT" "live_object (objects s ! i)"
      "object_mount (objects s ! i) = loc_mount l" "object_id (objects s ! i) = node_id (here l)" for i
  proof (cases creating)
    case True
    then show ?thesis using free that retained_slot [of s i] inv by (simp add: slot_free_def fs_inv_def)
  next
    case False
    then show ?thesis using free that inv unfolding slot_free_def fs_inv_def objects_ok_def by metis
  qed
  have mnt: "mounts ?s = mounts s" by (simp add: publish_reference_def Let_def)
  have O: "\<And>i. i < FS_OBJECT_LIMIT \<Longrightarrow> object_references (objects s ! i) = refs_to (references s) i"
    "\<And>i. i < FS_OBJECT_LIMIT \<Longrightarrow> live_object (objects s ! i) \<Longrightarrow> object_id (objects s ! i) \<noteq> 0 \<and> mounted (mounts s (object_mount (objects s ! i)))"
    "\<And>i j. i < FS_OBJECT_LIMIT \<Longrightarrow> j < FS_OBJECT_LIMIT \<Longrightarrow> live_object (objects s ! i) \<Longrightarrow> live_object (objects s ! j) \<Longrightarrow>
       object_mount (objects s ! i) = object_mount (objects s ! j) \<Longrightarrow> object_id (objects s ! i) = object_id (objects s ! j) \<Longrightarrow> i = j"
    using inv unfolding fs_inv_def objects_ok_def by blast+
  have nth: "objects ?s ! i = (if i = slot then ob else objects s ! i)" if "i < FS_OBJECT_LIMIT" for i
    using that by (simp add: os nth_list_update len)
  show ?thesis unfolding objects_ok_def
  proof (intro conjI allI impI)
    show "length (objects ?s) = FS_OBJECT_LIMIT" by (simp add: os len)
    show "object_references (objects ?s ! i) = refs_to (references ?s) i" if "i < FS_OBJECT_LIMIT" for i
      using that O(1) obs(3) by (simp add: nth rs)
    show "object_id (objects ?s ! i) \<noteq> 0" "mounted (mounts ?s (object_mount (objects ?s ! i)))"
      if "i < FS_OBJECT_LIMIT" "live_object (objects ?s ! i)" for i
      using that O(2) m n obs by (auto simp: nth mnt split: if_splits)
    show "i = j" if "i < FS_OBJECT_LIMIT" "j < FS_OBJECT_LIMIT" "live_object (objects ?s ! i)" "live_object (objects ?s ! j)"
      "object_mount (objects ?s ! i) = object_mount (objects ?s ! j)" "object_id (objects ?s ! i) = object_id (objects ?s ! j)" for i j
    proof (rule ccontr)
      note T = that(3-6) [unfolded nth [OF that(1)] nth [OF that(2)]]
      assume ne: "i \<noteq> j"
      show False
        by (cases "i = slot"; cases "j = slot")
          (use ne T obs(1,2) other [OF that(1)] other [OF that(2)] O(3) [OF that(1,2)] in simp_all)
    qed
  qed
qed

lemma publish_references_ok:
  assumes inv: "fs_inv s" and free: "slot_free l slot creating k s" and acc: "acc \<in> {FS_READ, FS_WRITE, FS_READ OR FS_WRITE}"
    and w: "acc AND FS_WRITE \<noteq> 0 \<Longrightarrow> node_kind (here l) = FS_FILE"
  shows "references_ok (publish_reference l acc slot creating k s)"
proof -
  let ?s = "publish_reference l acc slot creating k s"
  let ?r = "\<lparr>token = next_token s, ref_object = slot, access = acc\<rparr>"
  have len: "length (objects s) = FS_OBJECT_LIMIT" "length (references s) = FS_REFERENCE_LIMIT"
    using inv by (simp_all add: fs_inv_def objects_ok_def references_ok_def)
  have slot: "slot < FS_OBJECT_LIMIT" "k < FS_REFERENCE_LIMIT" "next_token s \<noteq> 0"
    using free by (simp_all add: slot_free_def)
  have kind: "object_kind (objects ?s ! slot) = node_kind (here l)"
    using free by (simp add: publish_reference_def Let_def len slot slot_free_def)
  have same_kind: "object_kind (objects ?s ! i) = object_kind (objects s ! i)" if "live_object (objects s ! i)" for i
    using that free by (cases "i = slot") (auto simp: publish_reference_def Let_def len slot slot_free_def)
  have live: "live_object (objects s ! ref_object r)" if "r \<in> set (references s)" "token r \<noteq> 0" for r
  proof -
    have "ref_object r < FS_OBJECT_LIMIT" using that inv by (auto simp: fs_inv_def references_ok_def reference_ok_def)
    moreover have "refs_to (references s) (ref_object r) \<noteq> 0" unfolding refs_to_pos using that by blast
    ultimately show ?thesis using inv by (simp add: fs_inv_def objects_ok_def live_object_def)
  qed
  have old: "reference_ok (next_token s + 1) (objects ?s) r" if "r \<in> set (references s)" for r
  proof (cases "token r = 0")
    case False
    have "reference_ok (next_token s) (objects s) r" using that inv by (simp add: fs_inv_def references_ok_def)
    with False slot next_token_Suc [of "next_token s" "token r"] same_kind [OF live [OF that False]]
    show ?thesis by (auto simp: reference_ok_def)
  qed (simp add: reference_ok_def)
  have new: "reference_ok (next_token s + 1) (objects ?s) ?r"
    using slot acc w kind next_token_Suc [of "next_token s" "next_token s"] by (auto simp: reference_ok_def)
  have rs: "references ?s = (references s)[k := ?r]" by (simp add: publish_reference_def Let_def)
  have fresh: "token (references s ! i) \<noteq> next_token s" if "i < FS_REFERENCE_LIMIT" for i
  proof -
    have "references s ! i \<in> set (references s)" using that len by simp
    then have "reference_ok (next_token s) (objects s) (references s ! i)" using inv by (simp add: fs_inv_def references_ok_def)
    then show ?thesis using slot(3) by (auto simp: reference_ok_def)
  qed
  have nthr: "references ?s ! i = (if i = k then ?r else references s ! i)" if "i < FS_REFERENCE_LIMIT" for i
    using that by (simp add: rs nth_list_update len)
  have D: "i < FS_REFERENCE_LIMIT \<Longrightarrow> j < FS_REFERENCE_LIMIT \<Longrightarrow> token (references s ! i) \<noteq> 0 \<Longrightarrow>
      token (references s ! i) = token (references s ! j) \<Longrightarrow> i = j" for i j
    using inv unfolding fs_inv_def references_ok_def by blast
  have nt: "next_token ?s = next_token s + 1" by (simp add: publish_reference_def Let_def)
  show ?thesis unfolding references_ok_def
  proof (intro conjI allI impI ballI)
    show "length (references ?s) = FS_REFERENCE_LIMIT" by (simp add: rs len)
    show "reference_ok (next_token ?s) (objects ?s) r" if "r \<in> set (references ?s)" for r
      using that old new set_update_subset_insert [of "references s" k ?r] unfolding rs nt by blast
    show "i = j" if "i < FS_REFERENCE_LIMIT" "j < FS_REFERENCE_LIMIT" "token (references ?s ! i) \<noteq> 0"
        "token (references ?s ! i) = token (references ?s ! j)" for i j
      using that fresh [of i] fresh [of j] D [of i j] by (cases "i = k"; cases "j = k") (simp_all add: nthr)
  qed
qed

text \<open>Tokens other than the old and the new one of an updated slot are found where they were.\<close>

lemma find_reference_update:
  assumes "references_ok s" "references_ok s'" "references s' = (references s)[k := r]" "k < FS_REFERENCE_LIMIT"
    and "t \<noteq> token r" "t \<noteq> token (references s ! k)"
  shows "find_reference t s' = find_reference t s"
proof (rule option.expand [rotated])
  have len: "length (references s) = FS_REFERENCE_LIMIT" using assms(1) by (simp add: references_ok_def)
  have *: "find_reference t s' = Some i \<longleftrightarrow> find_reference t s = Some i" for i
    unfolding find_reference_Some [OF assms(1)] find_reference_Some [OF assms(2)] assms(3)
    using assms(4-6) by (cases "i = k") (auto simp: len)
  then show "(find_reference t s' = None) = (find_reference t s = None)" by (metis not_None_eq)
  show "find_reference t s' \<noteq> None \<Longrightarrow> find_reference t s \<noteq> None \<Longrightarrow> the (find_reference t s') = the (find_reference t s)"
    using * by (metis option.collapse)
qed

lemma find_reference_at:
  "references_ok s \<Longrightarrow> i < FS_REFERENCE_LIMIT \<Longrightarrow> token (references s ! i) \<noteq> 0 \<Longrightarrow> find_reference (token (references s ! i)) s = Some i"
  by (simp add: find_reference_Some)

lemma publish_open_refs:
  assumes inv: "fs_inv s" and free: "slot_free l slot creating k s" and ok: "references_ok (publish_reference l acc slot creating k s)"
  shows "open_refs (publish_reference l acc slot creating k s) =
    (open_refs s)(next_token s \<mapsto> \<lparr>open_mount = loc_mount l, open_id = node_id (here l), open_kind = node_kind (here l), open_access = acc\<rparr>)"
proof
  fix t
  let ?s = "publish_reference l acc slot creating k s"
  let ?r = "\<lparr>token = next_token s, ref_object = slot, access = acc\<rparr>"
  have R: "references_ok s" using inv by (simp add: fs_inv_def)
  have len: "length (objects s) = FS_OBJECT_LIMIT" "length (references s) = FS_REFERENCE_LIMIT"
    using inv by (simp_all add: fs_inv_def objects_ok_def references_ok_def)
  have slot: "slot < FS_OBJECT_LIMIT" "k < FS_REFERENCE_LIMIT" "next_token s \<noteq> 0" "token (references s ! k) = 0"
    using free by (simp_all add: slot_free_def)
  have rs: "references ?s = (references s)[k := ?r]" by (simp add: publish_reference_def Let_def)
  have new: "object_mount (objects ?s ! slot) = loc_mount l" "object_id (objects ?s ! slot) = node_id (here l)"
      "object_kind (objects ?s ! slot) = node_kind (here l)"
    using free by (simp_all add: publish_reference_def Let_def len slot slot_free_def)
  have old: "object_mount (objects ?s ! i) = object_mount (objects s ! i) \<and> object_id (objects ?s ! i) = object_id (objects s ! i) \<and>
      object_kind (objects ?s ! i) = object_kind (objects s ! i)" if "live_object (objects s ! i)" for i
    using that free by (cases "i = slot") (auto simp: publish_reference_def Let_def len slot slot_free_def)
  show "open_refs ?s t = ((open_refs s)(next_token s \<mapsto> \<lparr>open_mount = loc_mount l, open_id = node_id (here l), open_kind = node_kind (here l), open_access = acc\<rparr>)) t"
  proof (cases "t = next_token s")
    case True
    have "references ?s ! k = ?r" using slot by (simp add: rs len)
    then have "find_reference t ?s = Some k" using find_reference_at [OF ok slot(2)] slot True by simp
    then show ?thesis using True slot new by (simp add: open_refs_def object_of_def rs len)
  next
    case False
    then show ?thesis
    proof (cases "t = 0")
      case False
      have f: "find_reference t ?s = find_reference t s"
        using find_reference_update [OF R ok rs slot(2)] \<open>t \<noteq> next_token s\<close> False slot by simp
      show ?thesis
      proof (cases "find_reference t s")
        case (Some i)
        then have "i \<noteq> k" "token (references s ! i) = t" using find_reference_Some [OF R] slot False by auto
        then have "references ?s ! i = references s ! i" by (simp add: rs)
        then show ?thesis using Some f old find_reference_live(2) [OF inv Some] \<open>t \<noteq> next_token s\<close> by (simp add: open_refs_def object_of_def)
      qed (use f \<open>t \<noteq> next_token s\<close> in \<open>simp add: open_refs_def\<close>)
    qed (use slot in \<open>simp add: open_refs_def find_reference_def\<close>)
  qed
qed

text \<open>The outcome of opening a reference on a resolved location.\<close>

definition reference_added :: "'b fs \<Rightarrow> location \<Rightarrow> u32 \<Rightarrow> u64 \<Rightarrow> 'b fs \<Rightarrow> bool" where
  "reference_added s l acc t s' \<longleftrightarrow>
     fs_inv s' \<and> t \<noteq> 0 \<and> t = next_token s \<and> next_token s' = next_token s + 1 \<and> open_refs s t = None \<and> busy s' = busy s \<and> ready s' = ready s \<and> mounts s' = mounts s \<and>
     open_refs s' = (open_refs s)(t \<mapsto> \<lparr>open_mount = loc_mount l, open_id = node_id (here l), open_kind = node_kind (here l), open_access = acc\<rparr>)"

lemma publish_added:
  assumes inv: "fs_inv s" and free: "slot_free l slot creating k s" and acc: "acc \<in> {FS_READ, FS_WRITE, FS_READ OR FS_WRITE}"
    and w: "acc AND FS_WRITE \<noteq> 0 \<Longrightarrow> node_kind (here l) = FS_FILE" and m: "mounted (mounts s (loc_mount l))" and n: "node_id (here l) \<noteq> 0"
  shows "reference_added s l acc (next_token s) (publish_reference l acc slot creating k s)"
proof -
  have nt: "next_token s \<noteq> 0" using free by (simp add: slot_free_def)
  have "mounts_ok (publish_reference l acc slot creating k s)" using inv by (simp add: fs_inv_def mounts_ok_def publish_reference_def Let_def)
  with publish_objects_ok [OF inv free m n] publish_references_ok [OF inv free acc w]
  have "fs_inv (publish_reference l acc slot creating k s)" by (simp add: fs_inv_def)
  with nt next_token_fresh [OF inv nt] publish_open_refs [OF inv free publish_references_ok [OF inv free acc w]]
  show ?thesis by (simp add: reference_added_def publish_reference_def Let_def)
qed

lemma reference_added_tables:
  assumes "tables s1 = tables s" "busy s1 = busy s"
  shows "reference_added s1 l acc t s' = reference_added s l acc t s'"
  unfolding reference_added_def tables_view [OF assms(1)] assms(2) by simp

lemma new_reference_result:
  assumes inv: "fs_inv s" and acc: "acc \<in> {FS_READ, FS_WRITE, FS_READ OR FS_WRITE}"
    and m: "mounted (mounts s (loc_mount l))" and n: "node_id (here l) \<noteq> 0"
  shows "case new_reference l acc s of
     (Inl e, s') \<Rightarrow> e \<noteq> FS_OK \<and> tables s' = tables s \<and> busy s' = busy s
   | (Inr t, s') \<Rightarrow> reference_added s l acc t s'"
proof -
  let ?node = "here l"
  obtain slot empty where o: "object_slots (loc_mount l) (node_id ?node) (objects s) = (slot, empty)" by fastforce
  note O = object_slots_result [OF o]
  have len: "length (objects s) = FS_OBJECT_LIMIT" using inv by (simp add: fs_inv_def objects_ok_def)
  have w: "node_kind ?node = FS_FILE" if "\<not> (node_kind ?node = FS_DIRECTORY \<and> acc AND FS_WRITE \<noteq> 0)" "acc AND FS_WRITE \<noteq> 0"
    using that by (cases "node_kind ?node") auto
  show ?thesis
  proof (cases "(node_kind ?node = FS_DIRECTORY \<and> acc AND FS_WRITE \<noteq> 0) \<or>
      (backend_read_only (backend_of s (loc_mount l)) \<and> acc AND FS_WRITE \<noteq> 0) \<or> next_token s = 0 \<or>
      index_of (\<lambda>r. token r = 0) (references s) = None \<or> (slot = FS_OBJECT_LIMIT \<and> empty = FS_OBJECT_LIMIT)")
    case True
    then show ?thesis by (auto simp: new_reference_def o Let_def)
  next
    case False
    then obtain k where k: "index_of (\<lambda>r. token r = 0) (references s) = Some k" by auto
    then have k': "k < FS_REFERENCE_LIMIT" "token (references s ! k) = 0" using inv by (auto simp: index_of_Some fs_inv_def references_ok_def)
    show ?thesis
    proof (cases "slot = FS_OBJECT_LIMIT")
      case True
      obtain e s1 where c: "call (the (op_retain (ops_of s (loc_mount l))) (node_id ?node)) s = (e, s1)" by fastforce
      have t: "tables s1 = tables s" "busy s1 = busy s" using call_eq [OF c] by auto
      have "\<not> retained (loc_mount l) (node_id ?node) s"
        using O True by (auto simp: retained_def in_set_conv_nth len)
      then have free: "slot_free l empty True k s1"
        using O True False k' by (auto simp: slot_free_def tables_view [OF t(1)] live_object_def)
      have "reference_added s1 l acc (next_token s1) (publish_reference l acc empty True k s1)" if "e = FS_OK"
        by (rule publish_added [OF _ free acc]) (use False w inv m n in \<open>auto simp: tables_view [OF t(1)]\<close>)
      moreover have "new_reference l acc s = (if e \<noteq> FS_OK then (Inl e, s1) else (Inr (next_token s1), publish_reference l acc empty True k s1))"
        using False True k c by (auto simp: new_reference_def o)
      ultimately show ?thesis using t by (simp add: reference_added_tables [OF t])
    next
      case slot: False
      have "slot_free l slot False k s" if "object_kind (objects s ! slot) = node_kind ?node"
        using O slot False k' that by (auto simp: slot_free_def live_object_def)
      then have "reference_added s l acc (next_token s) (publish_reference l acc slot False k s)" if "object_kind (objects s ! slot) = node_kind ?node"
        using that by (intro publish_added [OF inv _ acc _ m n]) (use False w in auto)
      moreover have "new_reference l acc s = (if object_kind (objects s ! slot) \<noteq> node_kind ?node then (Inl FS_IO_ERROR, s)
          else (Inr (next_token s), publish_reference l acc slot False k s))"
        using False slot k by (auto simp: new_reference_def o)
      ultimately show ?thesis by simp
    qed
  qed
qed

section \<open>Closing\<close>

text \<open>The tables after the interrupt-masked part of \<open>close_reference\<close>.\<close>

definition dropped :: "nat \<Rightarrow> 'b fs \<Rightarrow> 'b fs" where
  "dropped i s =
     (let slot = ref_object (references s ! i); ob = objects s ! slot in
      s\<lparr>references := (references s)[i := zero_reference],
        objects := (objects s)[slot := if object_references ob = 1 then zero_object
                                       else ob\<lparr>object_references := object_references ob - 1\<rparr>]\<rparr>)"

definition released :: "nat \<Rightarrow> 'b fs \<Rightarrow> 'b fs" where
  "released i s =
     (let ob = object_of i s in
      if object_references ob = 1
      then (dropped i s)\<lparr>backend_state := the (op_release (ops_of s (object_mount ob))) (object_id ob) (backend_state s)\<rparr>
      else dropped i s)"

lemma close_reference_eq:
  assumes "fs_inv s"
  shows "close_reference t s = (case find_reference t s of None \<Rightarrow> (FS_INVALID, s) | Some i \<Rightarrow> (FS_OK, released i s))"
proof (cases "find_reference t s")
  case (Some i)
  then have "object_references (object_of i s) \<noteq> 0" using find_reference_live(2) [OF assms Some] by (simp add: live_object_def)
  then show ?thesis
    using Some by (simp add: close_reference_def released_def dropped_def object_of_def ops_of_def backend_of_def dec32_def Let_def)
qed (simp add: close_reference_def)

lemma dropped_refs_to:
  assumes "fs_inv s" "find_reference t s = Some i"
  shows "refs_to (references (dropped i s)) j = refs_to (references s) j - (if j = ref_object (references s ! i) then 1 else 0)"
proof -
  have "references_ok s" using assms(1) by (simp add: fs_inv_def)
  then have "i < length (references s)" "token (references s ! i) \<noteq> 0"
    using assms(2) find_reference_Some [of s t i] by (auto simp: references_ok_def)
  then show ?thesis using refs_to_update [of i "references s" zero_reference j]
    by (auto simp: dropped_def Let_def zero_reference_def split: if_splits)
qed

lemma dropped_object:
  assumes "fs_inv s" "find_reference t s = Some i" "j < FS_OBJECT_LIMIT" "refs_to (references (dropped i s)) j \<noteq> 0"
  shows "object_id (objects (dropped i s) ! j) = object_id (objects s ! j)" "object_mount (objects (dropped i s) ! j) = object_mount (objects s ! j)"
    "object_kind (objects (dropped i s) ! j) = object_kind (objects s ! j)"
proof -
  have len: "length (objects s) = FS_OBJECT_LIMIT" and n: "object_references (objects s ! j) = refs_to (references s) j"
    using assms(1,3) by (auto simp: fs_inv_def objects_ok_def)
  have "object_references (objects s ! j) \<noteq> 1" if "j = ref_object (references s ! i)"
    using that n assms(4) dropped_refs_to [OF assms(1,2), of j] by simp
  then have "objects (dropped i s) ! j = (objects s ! j)\<lparr>object_references := object_references (objects (dropped i s) ! j)\<rparr>"
    using len assms(3) by (cases "j = ref_object (references s ! i)") (simp_all add: dropped_def Let_def)
  then show "object_id (objects (dropped i s) ! j) = object_id (objects s ! j)" "object_mount (objects (dropped i s) ! j) = object_mount (objects s ! j)"
    "object_kind (objects (dropped i s) ! j) = object_kind (objects s ! j)"
    by (metis object.ext_inject object.surjective object.update_convs(2))+
qed

lemma dropped_objects_ok:
  assumes inv: "fs_inv s" and i: "find_reference t s = Some i"
  shows "objects_ok (dropped i s)"
proof -
  let ?s = "dropped i s"
  have slot: "ref_object (references s ! i) < FS_OBJECT_LIMIT" using find_reference_live(1) [OF inv i] .
  have O: "length (objects s) = FS_OBJECT_LIMIT" "\<And>j. j < FS_OBJECT_LIMIT \<Longrightarrow> object_references (objects s ! j) = refs_to (references s) j"
    "\<And>j. j < FS_OBJECT_LIMIT \<Longrightarrow> live_object (objects s ! j) \<Longrightarrow> object_id (objects s ! j) \<noteq> 0 \<and> mounted (mounts s (object_mount (objects s ! j)))"
    "\<And>i j. i < FS_OBJECT_LIMIT \<Longrightarrow> j < FS_OBJECT_LIMIT \<Longrightarrow> live_object (objects s ! i) \<Longrightarrow> live_object (objects s ! j) \<Longrightarrow>
       object_mount (objects s ! i) = object_mount (objects s ! j) \<Longrightarrow> object_id (objects s ! i) = object_id (objects s ! j) \<Longrightarrow> i = j"
    using inv unfolding fs_inv_def objects_ok_def by blast+
  have cnt: "object_references (objects ?s ! j) = refs_to (references ?s) j" if "j < FS_OBJECT_LIMIT" for j
    using O(2) [OF that] dropped_refs_to [OF inv i, of j] that O(1)
    by (cases "j = ref_object (references s ! i)") (simp_all add: dropped_def Let_def zero_object_def)
  have live: "live_object (objects s ! j)" if "j < FS_OBJECT_LIMIT" "live_object (objects ?s ! j)" for j
    using that O(2) cnt [OF that(1)] dropped_refs_to [OF inv i, of j] by (auto simp: live_object_def)
  have same: "object_id (objects ?s ! j) = object_id (objects s ! j)" "object_mount (objects ?s ! j) = object_mount (objects s ! j)"
    if "j < FS_OBJECT_LIMIT" "live_object (objects ?s ! j)" for j
    using dropped_object [OF inv i that(1)] that cnt [OF that(1)] by (auto simp: live_object_def)
  have mnt: "mounts ?s = mounts s" by (simp add: dropped_def Let_def)
  show ?thesis unfolding objects_ok_def
  proof (intro conjI allI impI)
    show "length (objects ?s) = FS_OBJECT_LIMIT" using O(1) by (simp add: dropped_def Let_def)
    show "i' = j" if "i' < FS_OBJECT_LIMIT" "j < FS_OBJECT_LIMIT" "live_object (objects ?s ! i')" "live_object (objects ?s ! j)"
      "object_mount (objects ?s ! i') = object_mount (objects ?s ! j)" "object_id (objects ?s ! i') = object_id (objects ?s ! j)" for i' j
      using O(4) [OF that(1,2) live live] that same [of i'] same [of j] by simp
  qed (use cnt O(3) live same mnt in auto)
qed

lemma dropped_references_ok:
  assumes inv: "fs_inv s" and i: "find_reference t s = Some i"
  shows "references_ok (dropped i s)"
proof -
  let ?s = "dropped i s"
  have R: "length (references s) = FS_REFERENCE_LIMIT" "\<And>r. r \<in> set (references s) \<Longrightarrow> reference_ok (next_token s) (objects s) r"
    "\<And>i j. i < FS_REFERENCE_LIMIT \<Longrightarrow> j < FS_REFERENCE_LIMIT \<Longrightarrow> token (references s ! i) \<noteq> 0 \<Longrightarrow>
       token (references s ! i) = token (references s ! j) \<Longrightarrow> i = j"
    using inv unfolding fs_inv_def references_ok_def by blast+
  have rs: "references ?s = (references s)[i := zero_reference]" "next_token ?s = next_token s" by (simp_all add: dropped_def Let_def)
  show ?thesis unfolding references_ok_def
  proof (intro conjI allI impI ballI)
    show "length (references ?s) = FS_REFERENCE_LIMIT" by (simp add: rs R)
    show "reference_ok (next_token ?s) (objects ?s) r" if "r \<in> set (references ?s)" for r
    proof (cases "token r = 0")
      case False
      then have r: "r \<in> set (references s)"
        using that set_update_subset_insert [of "references s" i zero_reference] by (auto simp: rs zero_reference_def)
      have "refs_to (references ?s) (ref_object r) \<noteq> 0" unfolding refs_to_pos using that False by blast
      then show ?thesis using R(2) [OF r] False dropped_object(3) [OF inv i, of "ref_object r"] by (auto simp: reference_ok_def rs)
    qed (simp add: reference_ok_def)
    show "i' = j" if "i' < FS_REFERENCE_LIMIT" "j < FS_REFERENCE_LIMIT" "token (references ?s ! i') \<noteq> 0"
        "token (references ?s ! i') = token (references ?s ! j)" for i' j
      using that R(3) [of i' j] by (cases "i' = i"; cases "j = i") (simp_all add: rs R zero_reference_def)
  qed
qed

lemma dropped_open_refs:
  assumes inv: "fs_inv s" and i: "find_reference t s = Some i"
  shows "open_refs (dropped i s) = (open_refs s)(t := None)"
proof
  fix u
  let ?s = "dropped i s"
  have R: "references_ok s" and R': "references_ok ?s" using inv dropped_references_ok [OF inv i] by (simp_all add: fs_inv_def)
  have t: "t \<noteq> 0" "i < FS_REFERENCE_LIMIT" "token (references s ! i) = t" using i find_reference_Some [OF R] by auto
  have rs: "references ?s = (references s)[i := zero_reference]" by (simp add: dropped_def Let_def)
  have len: "length (references s) = FS_REFERENCE_LIMIT" using R by (simp add: references_ok_def)
  show "open_refs ?s u = ((open_refs s)(t := None)) u"
  proof (cases "u = 0 \<or> u = t")
    case True
    have "find_reference t ?s \<noteq> Some j" for j
    proof
      assume "find_reference t ?s = Some j"
      then have j: "j < FS_REFERENCE_LIMIT" "token (references ?s ! j) = t" using find_reference_Some [OF R'] by auto
      then have "j \<noteq> i" using t by (auto simp: rs len zero_reference_def)
      then have "token (references s ! j) = t" using j by (simp add: rs)
      then show False using R t j(1) \<open>j \<noteq> i\<close> unfolding references_ok_def by metis
    qed
    then show ?thesis using True t(1) by (auto simp: open_refs_def find_reference_def)
  next
    case False
    then have f: "find_reference u ?s = find_reference u s"
      using find_reference_update [OF R R' rs t(2)] t by (simp add: zero_reference_def)
    show ?thesis
    proof (cases "find_reference u s")
      case (Some j)
      then have j: "j < FS_REFERENCE_LIMIT" "token (references s ! j) = u" using find_reference_Some [OF R] by auto
      then have ne: "j \<noteq> i" using t False by auto
      then have rj: "references ?s ! j = references s ! j" by (simp add: rs)
      have "references ?s ! j \<in> set (references ?s)" using j(1) by (simp add: rs len)
      then have "refs_to (references ?s) (ref_object (references s ! j)) \<noteq> 0" unfolding refs_to_pos using rj j False by metis
      from dropped_object [OF inv i find_reference_live(1) [OF inv Some] this] False Some f rj
      show ?thesis by (simp add: open_refs_def object_of_def)
    qed (use f False in \<open>simp add: open_refs_def\<close>)
  qed
qed

text \<open>Closing removes exactly one token; an unknown token changes nothing.\<close>

lemma close_reference_result:
  assumes inv: "fs_inv s" and c: "close_reference t s = (e, s')"
  shows "if open_refs s t = None then e = FS_INVALID \<and> s' = s
    else e = FS_OK \<and> fs_inv s' \<and> open_refs s' = (open_refs s)(t := None) \<and> busy s' = busy s \<and> ready s' = ready s \<and> mounts s' = mounts s \<and>
      next_token s' = next_token s"
proof (cases "find_reference t s")
  case None
  then show ?thesis using c close_reference_eq [OF inv, of t] by (simp add: open_refs_def)
next
  case (Some i)
  have s': "e = FS_OK" "s' = released i s" using c close_reference_eq [OF inv, of t] Some by simp_all
  have t: "tables s' = tables (dropped i s)" "busy s' = busy s" unfolding s'(2) by (simp_all add: released_def dropped_def Let_def)
  have "mounts_ok (dropped i s)" using inv by (simp add: fs_inv_def mounts_ok_def dropped_def Let_def)
  then have "fs_inv (dropped i s)" using dropped_objects_ok [OF inv Some] dropped_references_ok [OF inv Some] by (simp add: fs_inv_def)
  then show ?thesis
    using s'(1) t(2) dropped_open_refs [OF inv Some] Some tables_view [OF t(1)]
    by (simp add: open_refs_def dropped_def Let_def)
qed

end
