(* ===== verification/Rum_Fs_Ops.thy ===== *)
theory Rum_Fs_Ops
  imports Rum_Fs_Inv
begin

text \<open>
  The effect of the filesystem operations on the tables, for an arbitrary backend: resolution
  touches no table and returns a location inside the mount, and every public call keeps the
  invariant, gives the entry lock back, adds only tokens that were never issued before and never
  changes what an open token names.
\<close>

section \<open>Quiet steps and resolution\<close>

definition quiet :: "'b fs \<Rightarrow> 'b fs \<Rightarrow> bool" where
  "quiet s s' \<longleftrightarrow> tables s' = tables s \<and> busy s' = busy s"

lemma quiet_refl [simp]: "quiet s s" by (simp add: quiet_def)
lemma quiet_trans: "quiet s s1 \<Longrightarrow> quiet s1 s2 \<Longrightarrow> quiet s s2" by (simp add: quiet_def)
lemma quiet_call: "call f s = (r, s') \<Longrightarrow> quiet s s'" using call_eq [of f s r s'] by (simp add: quiet_def)

text \<open>A location: nodes from the root of the mounted disk down to its depth, all valid. Its path
  is the stack of nodes in use.\<close>

definition location_ok :: "'b fs \<Rightarrow> location \<Rightarrow> bool" where
  "location_ok s l \<longleftrightarrow>
     mounted (mounts s (loc_mount l)) \<and> length (nodes l) = FS_PATH_DEPTH + 1 \<and> depth l \<le> FS_PATH_DEPTH \<and>
     (\<forall>i\<le>depth l. valid_node (nodes l ! i))"

definition node_path :: "location \<Rightarrow> fs_node list" where
  "node_path l = take (Suc (depth l)) (nodes l)"

lemma location_ok_quiet: "quiet s s' \<Longrightarrow> location_ok s' l = location_ok s l"
  by (simp add: location_ok_def quiet_def tables_def)

lemma location_ok_here: "location_ok s l \<Longrightarrow> node_id (here l) \<noteq> 0"
  by (simp add: location_ok_def here_def valid_node_def)

lemma location_ok_of: "mounted (mounts s m) \<Longrightarrow> valid_node n \<Longrightarrow> location_ok s (location_of m n)"
  by (simp add: location_ok_def location_of_def)

lemma here_of [simp]: "here (location_of m n) = n" "loc_mount (location_of m n) = m"
  by (simp_all add: here_def location_of_def)

text \<open>One step moves along the stack: a dot stays, a double dot drops the last node but never the
  root, and a name pushes the node the backend found.\<close>

definition stack_step :: "string \<Rightarrow> fs_node list \<Rightarrow> fs_node list \<Rightarrow> bool" where
  "stack_step name st st' \<longleftrightarrow>
     (if name = ''.'' then st' = st
      else if name = ''..'' then st' = (if length st > 1 then butlast st else st)
      else \<exists>node. valid_node node \<and> st' = st @ [node])"

lemma step_result:
  assumes ok: "location_ok s l" and st: "step name l s = (r, s')"
  shows "quiet s s' \<and> (case r of Inl e \<Rightarrow> e \<noteq> FS_OK
     | Inr l' \<Rightarrow> location_ok s l' \<and> loc_mount l' = loc_mount l \<and> node_kind (here l) = FS_DIRECTORY \<and> stack_step name (node_path l) (node_path l'))"
proof -
  obtain e node s1 where c: "call (the (op_lookup (ops_of s (loc_mount l))) (node_id (here l)) name) s = ((e, node), s1)"
    by (metis prod.exhaust)
  have q: "quiet s s1" using quiet_call [OF c] .
  have len: "length (nodes l) = FS_PATH_DEPTH + 1" "depth l \<le> FS_PATH_DEPTH" using ok by (auto simp: location_ok_def)
  have "node_path l \<noteq> []" using len by (auto simp: node_path_def)
  have dots: "stack_step ''..'' (node_path l) (node_path (if depth l \<noteq> 0 then l\<lparr>depth := depth l - 1\<rparr> else l))"
    using len by (auto simp: stack_step_def node_path_def butlast_take)
  have push: "stack_step name (node_path l) (node_path (l\<lparr>depth := depth l + 1, nodes := (nodes l)[depth l + 1 := node]\<rparr>))"
    if "valid_node node" "depth l \<noteq> FS_PATH_DEPTH" "name \<noteq> ''.''" "name \<noteq> ''..''"
    using that len by (auto simp: stack_step_def node_path_def take_Suc_conv_app_nth)
  have push_ok: "location_ok s (l\<lparr>depth := depth l + 1, nodes := (nodes l)[depth l + 1 := node]\<rparr>)"
    if "valid_node node" "depth l \<noteq> FS_PATH_DEPTH"
    using that ok by (auto simp: location_ok_def nth_list_update)
  show ?thesis
    using st ok q dots push push_ok
    by (auto simp: step_def c c_equal_eq Let_def location_ok_def stack_step_def split: if_splits)
qed

lemma steps_result:
  "location_ok s l \<Longrightarrow> steps names l s = (r, s') \<Longrightarrow>
   quiet s s' \<and> (case r of Inl e \<Rightarrow> e \<noteq> FS_OK | Inr l' \<Rightarrow> location_ok s l' \<and> loc_mount l' = loc_mount l)"
proof (induction names arbitrary: l s)
  case (Cons name names)
  obtain r1 s1 where st: "step name l s = (r1, s1)" by fastforce
  note S = step_result [OF Cons.prems(1) st]
  show ?case
  proof (cases r1)
    case (Inl e)
    then show ?thesis using S st Cons.prems(2) by auto
  next
    case (Inr l1)
    then have l1: "location_ok s1 l1" "loc_mount l1 = loc_mount l" "quiet s s1" using S location_ok_quiet [of s s1 l1] by auto
    have "steps names l1 s1 = (r, s')" using Cons.prems(2) st Inr by simp
    from Cons.IH [OF l1(1) this] l1 show ?thesis
      using quiet_trans [of s s1 s'] location_ok_quiet [OF l1(3)] by (auto split: sum.splits)
  qed
qed auto

lemma root_result:
  assumes "root m s = (r, s')"
  shows "quiet s s' \<and> (case r of Inl e \<Rightarrow> e \<noteq> FS_OK
     | Inr l \<Rightarrow> location_ok s l \<and> loc_mount l = m \<and> depth l = 0 \<and> node_kind (here l) = FS_DIRECTORY)"
proof (cases "mounted (mounts s m)")
  case True
  obtain e node s1 where c: "call (the (op_stat (ops_of s m)) (backend_root (backend_of s m))) s = ((e, node), s1)"
    by (metis prod.exhaust)
  have "depth (location_of m node) = 0" by (simp add: location_of_def)
  then show ?thesis
    using assms True quiet_call [OF c] location_ok_of [OF True]
    by (auto simp: root_def c Let_def split: if_splits)
qed (use assms in \<open>auto simp: root_def\<close>)

lemma resolve_base_result:
  assumes "location_ok s l" "resolve_base cwd plan l s = (r, s')"
  shows "quiet s s' \<and> (case r of Inl e \<Rightarrow> e \<noteq> FS_OK | Inr l' \<Rightarrow> location_ok s l' \<and> loc_mount l' = loc_mount l)"
proof (cases "cwd = None \<or> tok_absolute (path_input plan)")
  case True
  then show ?thesis using assms by (cases cwd) (auto simp: resolve_base_def)
next
  case False
  obtain r1 s1 where st: "steps (token_names (path_base plan)) l s = (r1, s1)" by fastforce
  show ?thesis
    using assms False st steps_result [OF assms(1) st]
    by (cases r1) (auto simp: resolve_base_def split: option.splits if_splits)
qed

lemma resolve_location_result:
  assumes "resolve_location ctx plan n s = (r, s')"
  shows "quiet s s' \<and> (case r of Inl e \<Rightarrow> e \<noteq> FS_OK | Inr l \<Rightarrow> location_ok s l \<and> loc_mount l = FS_MOUNT_DISK)"
proof (cases "resolve_cwd ctx s")
  case (Inl e)
  then show ?thesis using assms by (auto simp: resolve_location_def resolve_cwd_def split: option.splits if_splits)
next
  case (Inr cwd)
  obtain r1 s1 where ro: "root FS_MOUNT_DISK s = (r1, s1)" by fastforce
  note R = root_result [OF ro]
  show ?thesis
  proof (cases r1)
    case (Inl e)
    then show ?thesis using assms Inr ro R by (auto simp: resolve_location_def)
  next
    case r1: (Inr l)
    have l: "location_ok s1 l" "loc_mount l = FS_MOUNT_DISK" "quiet s s1" using R r1 location_ok_quiet [of s s1 l] by auto
    obtain r2 s2 where b: "resolve_base cwd plan l s1 = (r2, s2)" by fastforce
    note B = resolve_base_result [OF l(1) b]
    show ?thesis
    proof (cases r2)
      case (Inl e)
      then show ?thesis using assms Inr ro r1 b B quiet_trans [OF l(3)] by (auto simp: resolve_location_def)
    next
      case r2: (Inr l1)
      have l1: "location_ok s2 l1" "loc_mount l1 = FS_MOUNT_DISK" "quiet s s2"
        using B r2 l quiet_trans [OF l(3)] location_ok_quiet [of s1 s2 l1] by auto
      obtain r3 s3 where t: "steps (take n (token_names (path_input plan))) l1 s2 = (r3, s3)" by fastforce
      note T = steps_result [OF l1(1) t]
      have "quiet s s3" using T quiet_trans [OF l1(3)] by auto
      then show ?thesis
        using assms Inr ro r1 b r2 t T l1 location_ok_quiet [OF l1(3)]
        by (cases r3) (auto simp: resolve_location_def split: if_splits)
    qed
  qed
qed

section \<open>Evolution of the tables\<close>

text \<open>Tokens below the next one have been issued; after the counter wraps, all have.\<close>

definition issued :: "'b fs \<Rightarrow> u64 \<Rightarrow> bool" where
  "issued s t \<longleftrightarrow> next_token s = 0 \<or> t < next_token s"

definition evolves :: "'b fs \<Rightarrow> 'b fs \<Rightarrow> bool" where
  "evolves s s' \<longleftrightarrow>
     fs_inv s \<and> fs_inv s' \<and> (\<forall>t. issued s t \<longrightarrow> issued s' t) \<and>
     (\<forall>t. issued s t \<longrightarrow> open_refs s t = None \<longrightarrow> open_refs s' t = None) \<and>
     (\<forall>t x. open_refs s t = Some x \<longrightarrow> open_refs s' t \<in> {None, Some x})"

lemma evolves_refl: "fs_inv s \<Longrightarrow> evolves s s" by (simp add: evolves_def)

lemma open_issued:
  assumes "fs_inv s" "open_refs s t \<noteq> None" shows "issued s t"
proof -
  have "references_ok s" using assms(1) by (simp add: fs_inv_def)
  then obtain r where "r \<in> set (references s)" "token r = t" "t \<noteq> 0" "reference_ok (next_token s) (objects s) r"
    using assms(2) open_refs_token [of s t] by (auto simp: references_ok_def)
  then show ?thesis by (auto simp: reference_ok_def issued_def)
qed

lemma evolves_trans:
  assumes "evolves s s1" "evolves s1 s2" shows "evolves s s2"
proof -
  have a: "fs_inv s" "\<And>t. issued s t \<Longrightarrow> issued s1 t" "\<And>t. issued s t \<Longrightarrow> open_refs s t = None \<Longrightarrow> open_refs s1 t = None"
    "\<And>t x. open_refs s t = Some x \<Longrightarrow> open_refs s1 t = None \<or> open_refs s1 t = Some x" using assms(1) by (auto simp: evolves_def)
  have b: "fs_inv s2" "\<And>t. issued s1 t \<Longrightarrow> issued s2 t" "\<And>t. issued s1 t \<Longrightarrow> open_refs s1 t = None \<Longrightarrow> open_refs s2 t = None"
    "\<And>t x. open_refs s1 t = Some x \<Longrightarrow> open_refs s2 t = None \<or> open_refs s2 t = Some x" using assms(2) by (auto simp: evolves_def)
  have "open_refs s2 t = None \<or> open_refs s2 t = Some x" if "open_refs s t = Some x" for t x
    using a(4) [OF that] b(3,4) a(2) open_issued [OF a(1), of t] that by blast
  then show ?thesis using a b by (auto simp: evolves_def)
qed

lemma evolves_tables:
  assumes "tables s1 = tables s" shows "evolves s1 s' = evolves s s'" "evolves s' s1 = evolves s' s"
  unfolding evolves_def issued_def tables_view [OF assms] by simp_all

lemma evolves_quiet: "fs_inv s \<Longrightarrow> tables s' = tables s \<Longrightarrow> evolves s s'"
  using evolves_refl [of s] evolves_tables(2) [of s' s s] by simp

lemma issued_Suc: "next_token s \<noteq> 0 \<Longrightarrow> next_token s' = next_token s + 1 \<Longrightarrow> issued s t \<Longrightarrow> issued s' t"
  using next_token_Suc [of "next_token s" t] by (auto simp: issued_def word_gt_0)

lemma evolves_added: "fs_inv s \<Longrightarrow> reference_added s l acc t s' \<Longrightarrow> evolves s s'"
  using issued_Suc [of s s'] by (auto simp: reference_added_def evolves_def issued_def)

lemma evolves_closed:
  assumes "fs_inv s" "close_reference t s = (e, s')" shows "evolves s s'"
proof (cases "open_refs s t = None")
  case True
  then show ?thesis using close_reference_result [OF assms] evolves_refl [OF assms(1)] by simp
next
  case False
  then show ?thesis using assms(1) close_reference_result [OF assms] by (auto simp: evolves_def issued_def)
qed

lemma enter_cases:
  "enter s = (e, s1) \<Longrightarrow> (e \<noteq> FS_OK \<and> s1 = s) \<or> (e = FS_OK \<and> s1 = s\<lparr>busy := True\<rparr> \<and> ready s \<and> \<not> busy s)"
  by (auto simp: enter_def Let_def split: if_splits)

section \<open>Operations that leave the tables alone\<close>

lemma quiet_leave: "\<not> busy s \<Longrightarrow> quiet (s\<lparr>busy := True\<rparr>) s2 \<Longrightarrow> quiet s (leave s2)"
  by (simp add: quiet_def leave_def)

lemma quiet_bracket: "enter s = (FS_OK, s1) \<Longrightarrow> quiet s1 s2 \<Longrightarrow> quiet s (leave s2)"
  using enter_cases [of s FS_OK s1] by (auto intro: quiet_leave)

lemma enter_refused: "enter s = (e, s1) \<Longrightarrow> e \<noteq> FS_OK \<Longrightarrow> s1 = s"
  using enter_cases [of s e s1] by auto

lemmas quiet_intros = quiet_bracket quiet_bracket [OF _ quiet_refl] quiet_bracket [OF _ quiet_call]

lemma fs_stat_quiet: "fs_stat t r s = (x, s') \<Longrightarrow> quiet s s'"
  by (auto simp: fs_stat_def Let_def intro: quiet_intros dest: enter_refused split: if_splits option.splits prod.splits)

lemma fs_stat_path_quiet:
  assumes "fs_stat_path ctx path r s = (x, s')" shows "quiet s s'"
proof (cases "preflight ctx path")
  case (Inl e)
  then show ?thesis using assms by (auto simp: fs_stat_path_def split: if_splits)
next
  case (Inr plan)
  obtain e s1 where en: "enter s = (e, s1)" by fastforce
  obtain r1 s2 where re: "resolve_location ctx plan (length (tok_offsets (path_input plan))) s1 = (r1, s2)" by fastforce
  have "quiet s1 s2" using resolve_location_result [OF re] by auto
  then show ?thesis using assms Inr en re quiet_bracket [of s s1 s2] enter_refused [OF en]
    by (cases r1) (auto simp: fs_stat_path_def split: if_splits)
qed

lemma io_backend_quiet: "io_backend w ops i off b n s = (x, s') \<Longrightarrow> quiet s s'"
  by (auto simp: io_backend_def Let_def intro: quiet_call split: if_splits option.splits prod.splits)

lemma io_quiet: "io t off b n w s = (x, s') \<Longrightarrow> quiet s s'"
  by (auto simp: io_def Let_def intro: quiet_intros quiet_bracket [OF _ io_backend_quiet] dest: enter_refused split: if_splits option.splits prod.splits)

lemma fs_readdir_quiet: "fs_readdir t c en s = (x, s') \<Longrightarrow> quiet s s'"
  by (auto simp: fs_readdir_def Let_def intro: quiet_intros dest: enter_refused split: if_splits option.splits prod.splits sum.splits)

lemma fs_truncate_quiet: "fs_truncate t n s = (x, s') \<Longrightarrow> quiet s s'"
  by (auto simp: fs_truncate_def Let_def intro: quiet_intros dest: enter_refused split: if_splits option.splits prod.splits)

lemma fs_flush_quiet: "fs_flush t s = (x, s') \<Longrightarrow> quiet s s'"
  by (auto simp: fs_flush_def Let_def intro: quiet_intros dest: enter_refused split: if_splits option.splits prod.splits)

lemma mutation_apply_quiet: "mutation_apply a ops i name d n s = (x, s') \<Longrightarrow> quiet s s'"
  by (auto simp: mutation_apply_def intro: quiet_call split: mutation.splits option.splits)

lemma mutate_at_quiet: "mutate_at a dir name d n l s = (x, s') \<Longrightarrow> quiet s s'"
  by (auto simp: mutate_at_def Let_def intro: quiet_call quiet_trans [OF quiet_call mutation_apply_quiet] split: if_splits prod.splits)

lemma mutate_quiet:
  assumes "mutate ctx path d n a s = (x, s')" shows "quiet s s'"
proof (cases "preflight ctx path")
  case (Inl e)
  then show ?thesis using assms by (auto simp: mutate_def split: if_splits)
next
  case (Inr plan)
  obtain e s1 where en: "enter s = (e, s1)" by fastforce
  have q: "quiet s1 s2" if "resolve_location ctx plan k s1 = (r1, s2)" for k r1 s2 using resolve_location_result [OF that] by auto
  show ?thesis using assms Inr en quiet_bracket [of s s1] enter_refused [OF en]
    by (auto simp: mutate_def Let_def intro: q quiet_trans [OF q mutate_at_quiet] split: if_splits prod.splits sum.splits)
qed

section \<open>Opening, duplicating and closing\<close>

lemma fs_path_parse_ok: "fs_path_parse base input \<noteq> Inl FS_OK"
  using fs_path_parse_error_set [of base input FS_OK] by auto

lemma access_cases:
  assumes "acc \<noteq> 0" "acc AND NOT (FS_READ OR FS_WRITE) = 0"
  shows "acc \<in> {FS_READ, FS_WRITE, FS_READ OR FS_WRITE}"
proof -
  have m: "FS_READ OR FS_WRITE = (mask 2 :: u32)" by (simp add: FS_READ_def FS_WRITE_def mask_numeral)
  have "acc = (acc AND mask 2) OR (acc AND NOT (mask 2))" by (rule bit_eqI) (auto simp: bit_simps)
  then have "acc = take_bit 2 acc" using assms(2) by (simp add: m take_bit_eq_mask)
  then have "unat acc = take_bit 2 (unat acc)" by (metis unsigned_take_bit_eq)
  then have "unat acc < 4" using take_bit_nat_less_exp [of 2 "unat acc"] by simp
  moreover have "unat acc \<noteq> 0" using assms(1) by (simp add: unat_eq_zero)
  ultimately have "unat acc = 1 \<or> unat acc = 2 \<or> unat acc = 3" by linarith
  then have "acc = 1 \<or> acc = 2 \<or> acc = 3" by (auto simp: word_unat_eq_iff)
  then show ?thesis by (auto simp: FS_READ_def FS_WRITE_def)
qed

lemma preflight_ok: "preflight ctx path \<noteq> Inl FS_OK"
  using fs_path_parse_ok by (auto simp: preflight_def split: option.splits if_splits)

lemma added_bracket:
  assumes "enter s = (FS_OK, s1)" "quiet s1 s2" "reference_added s2 l acc t s3"
  shows "reference_added s l acc t (leave s3)"
proof -
  have t: "tables s2 = tables s" "tables (leave s3) = tables s3" "\<not> busy s"
    using assms(1,2) enter_cases [OF assms(1)] by (auto simp: quiet_def)
  have "busy (leave s3) = busy s" using t by (simp add: leave_def)
  then show ?thesis using assms(3) tables_view [OF t(2)] unfolding reference_added_def tables_view [OF t(1)] by auto
qed

lemma quiet_inv: "quiet s s' \<Longrightarrow> fs_inv s' = fs_inv s"
  unfolding quiet_def by (rule tables_view(1)) simp

definition opened :: "'b fs \<Rightarrow> fs_error \<Rightarrow> u64 option \<Rightarrow> (location \<Rightarrow> u32 \<Rightarrow> bool) \<Rightarrow> 'b fs \<Rightarrow> bool" where
  "opened s e r P s' \<longleftrightarrow>
     (if e = FS_OK then \<exists>l acc t. r = Some t \<and> P l acc \<and> reference_added s l acc t s' else quiet s s')"

lemma new_reference_bracket:
  assumes inv: "fs_inv s" and en: "enter s = (FS_OK, s1)" and q: "quiet s1 s2"
    and acc: "acc \<in> {FS_READ, FS_WRITE, FS_READ OR FS_WRITE}" and m: "mounted (mounts s2 (loc_mount l))" and n: "node_id (here l) \<noteq> 0"
    and P: "P l acc" and r: "new_reference l acc s2 = (r, s3)"
  shows "case r of Inl e \<Rightarrow> e \<noteq> FS_OK \<and> quiet s (leave s3) | Inr t \<Rightarrow> opened s FS_OK (Some t) P (leave s3) \<and> reference_added s l acc t (leave s3)"
proof -
  have "tables s2 = tables s" using q enter_cases [OF en] by (auto simp: quiet_def)
  then have inv2: "fs_inv s2" using inv tables_view(1) [of s2 s] by simp
  show ?thesis
  proof (cases r)
    case (Inl e)
    then show ?thesis using new_reference_result [OF inv2 acc m n] r quiet_bracket [OF en quiet_trans [OF q]] by (simp add: quiet_def)
  next
    case (Inr t)
    then have "reference_added s2 l acc t s3" using new_reference_result [OF inv2 acc m n] r by simp
    from added_bracket [OF en q this] Inr P show ?thesis by (auto simp: opened_def)
  qed
qed

lemma fs_open_result:
  assumes inv: "fs_inv s" and op: "fs_open ctx path acc r0 s = ((e, r), s')"
  shows "opened s e r (\<lambda>l a. a = acc \<and> loc_mount l = FS_MOUNT_DISK) s'"
proof (cases "r0 = None \<or> acc = 0 \<or> acc AND NOT (FS_READ OR FS_WRITE) \<noteq> 0")
  case True
  then show ?thesis using op by (auto simp: fs_open_def opened_def)
next
  case False
  then have acc: "acc \<in> {FS_READ, FS_WRITE, FS_READ OR FS_WRITE}" using access_cases by blast
  show ?thesis
  proof (cases "preflight ctx path")
    case (Inl e1)
    then have "e1 \<noteq> FS_OK" using preflight_ok [of ctx path] by auto
    then show ?thesis using op False Inl by (auto simp: fs_open_def opened_def)
  next
    case (Inr plan)
    obtain e1 s1 where en: "enter s = (e1, s1)" by fastforce
    obtain r1 s2 where re: "resolve_location ctx plan (length (tok_offsets (path_input plan))) s1 = (r1, s2)" by fastforce
    note R = resolve_location_result [OF re]
    show ?thesis
    proof (cases "e1 = FS_OK")
      case False
      then show ?thesis using op \<open>\<not> (r0 = None \<or> _)\<close> Inr en enter_refused [OF en] by (auto simp: fs_open_def opened_def)
    next
      case True
      show ?thesis
      proof (cases r1)
        case (Inl e2)
        then show ?thesis using op False Inr en re R True quiet_bracket [of s s1 s2] by (auto simp: fs_open_def opened_def)
      next
        case r1: (Inr l)
        obtain r2 s3 where nr: "new_reference l acc s2 = (r2, s3)" by fastforce
        have q: "quiet s1 s2" and l: "location_ok s2 l" "loc_mount l = FS_MOUNT_DISK" using R r1 location_ok_quiet [of s1 s2 l] by auto
        have m: "mounted (mounts s2 (loc_mount l))" using l by (simp add: location_ok_def)
        note * = new_reference_bracket [OF inv en [unfolded True] q acc m location_ok_here [OF l(1)] _ nr,
          of "\<lambda>l a. a = acc \<and> loc_mount l = FS_MOUNT_DISK", OF conjI [OF refl l(2)]]
        have "case r2 of Inl e2 \<Rightarrow> e = e2 \<and> s' = leave s3 | Inr t \<Rightarrow> e = FS_OK \<and> r = Some t \<and> s' = leave s3"
          using op False Inr en re True r1 nr by (cases r2) (auto simp: fs_open_def)
        with * show ?thesis by (cases r2) (auto simp: opened_def)
      qed
    qed
  qed
qed

lemma opened_evolves: "fs_inv s \<Longrightarrow> opened s e r P s' \<Longrightarrow> evolves s s' \<and> busy s' = busy s"
  using evolves_added [of s] evolves_quiet [of s s'] by (auto simp: opened_def quiet_def reference_added_def split: if_splits)

lemma open_refs_found:
  "find_reference t s = Some i \<Longrightarrow> open_refs s t = Some \<lparr>open_mount = object_mount (object_of i s), open_id = object_id (object_of i s),
      open_kind = object_kind (object_of i s), open_access = access (references s ! i)\<rparr>"
  by (simp add: open_refs_def)

lemma fs_duplicate_result:
  assumes inv: "fs_inv s" and op: "fs_duplicate t r0 s = ((e, r), s')"
  shows "opened s e r (\<lambda>l a. open_refs s t = Some \<lparr>open_mount = loc_mount l, open_id = node_id (here l), open_kind = node_kind (here l), open_access = a\<rparr>) s'"
    (is "opened s e r ?P s'")
proof -
  obtain e1 s1 where en: "enter s = (e1, s1)" by fastforce
  show ?thesis
  proof (cases "r0 = None \<or> e1 \<noteq> FS_OK \<or> find_reference t s1 = None")
    case True
    then show ?thesis using op en enter_refused [OF en] quiet_bracket [of s s1 s1]
      by (auto simp: fs_duplicate_def opened_def split: if_splits)
  next
    case False
    then obtain i where i: "find_reference t s1 = Some i" by auto
    have t: "tables s1 = tables s" using enter_cases [OF en] by (auto simp: quiet_def)
    have inv1: "fs_inv s1" using inv tables_view(1) [OF t] by simp
    define ob where "ob = object_of i s1"
    define l where "l = location_of (object_mount ob) \<lparr>node_id = object_id ob, node_size = 0, node_kind = object_kind ob\<rparr>"
    note L = find_reference_live [OF inv1 i, folded ob_def]
    obtain r2 s2 where nr: "new_reference l (access (references s1 ! i)) s1 = (r2, s2)" by fastforce
    have en1: "enter s = (FS_OK, s1)" using en False by simp
    have P: "?P l (access (references s1 ! i))"
      using open_refs_found [OF i] tables_view(2) [OF t] by (simp add: l_def ob_def)
    have m: "mounted (mounts s1 (loc_mount l))" "node_id (here l) \<noteq> 0" using L by (simp_all add: l_def)
    note * = new_reference_bracket [where P = ?P, OF inv en1 quiet_refl L(5) m P nr]
    have "case r2 of Inl e2 \<Rightarrow> e = e2 \<and> s' = leave s2 | Inr t \<Rightarrow> e = FS_OK \<and> r = Some t \<and> s' = leave s2"
      using op False en i nr by (cases r2) (auto simp: fs_duplicate_def ob_def l_def)
    with * show ?thesis by (cases r2) (auto simp: opened_def)
  qed
qed

lemma fs_close_result:
  assumes inv: "fs_inv s" and op: "fs_close t s = (e, s')"
  shows "if ready s \<and> \<not> busy s \<and> open_refs s t \<noteq> None
    then e = FS_OK \<and> fs_inv s' \<and> open_refs s' = (open_refs s)(t := None) \<and> busy s' = busy s \<and> ready s' = ready s \<and> mounts s' = mounts s \<and>
         next_token s' = next_token s
    else e \<noteq> FS_OK \<and> quiet s s'"
proof -
  obtain e1 s1 where en: "enter s = (e1, s1)" by fastforce
  note E = enter_cases [OF en]
  show ?thesis
  proof (cases "e1 = FS_OK")
    case False
    then show ?thesis using op en E by (auto simp: fs_close_def enter_def split: if_splits)
  next
    case True
    then have t: "tables s1 = tables s" and b: "ready s" "\<not> busy s" "s1 = s\<lparr>busy := True\<rparr>" using E by auto
    obtain e2 s2 where c: "close_reference t s1 = (e2, s2)" by fastforce
    have s': "e = e2" "s' = leave s2" using op en True c by (auto simp: fs_close_def)
    have inv1: "fs_inv s1" using inv tables_view(1) [OF t] by simp
    note C = close_reference_result [OF inv1 c]
    have v: "tables (leave s2) = tables s2" by simp
    show ?thesis
      using C b tables_view(2) [OF t] tables_view [OF v] by (auto simp: s' quiet_def tables_def leave_def)
  qed
qed

lemma fs_close_evolves:
  assumes "fs_inv s" "fs_close t s = (e, s')" shows "evolves s s' \<and> busy s' = busy s"
  using fs_close_result [OF assms] assms(1) evolves_quiet [of s s'] by (auto simp: evolves_def issued_def quiet_def split: if_splits)

lemma fs_context_initialize_evolves:
  assumes "fs_inv s" "fs_context_initialize ctx s = (x, s')" shows "evolves s s' \<and> busy s' = busy s"
proof -
  obtain e d s1 where o: "fs_open None (Some ''/'') FS_READ (Some 0) s = ((e, d), s1)" by (metis prod.exhaust)
  show ?thesis
    using assms opened_evolves [OF assms(1) fs_open_result [OF assms(1) o]] evolves_refl [OF assms(1)]
    by (auto simp: fs_context_initialize_def o split: if_splits)
qed

lemma fs_context_destroy_evolves:
  assumes "fs_inv s" "fs_context_destroy ctx s = (x, s')" shows "evolves s s' \<and> busy s' = busy s"
  using assms evolves_refl [OF assms(1)] fs_close_evolves [OF assms(1)]
  by (auto simp: fs_context_destroy_def Let_def split: if_splits prod.splits)

lemma fs_context_clone_evolves:
  assumes inv: "fs_inv s" and op: "fs_context_clone src dst s = (x, s')"
  shows "evolves s s' \<and> busy s' = busy s"
proof (cases "src = None \<or> dst = None \<or> directory (the dst) \<noteq> 0 \<or> directory (the src) = 0")
  case True
  then show ?thesis
    using op evolves_refl [OF inv] fs_context_initialize_evolves [OF inv]
    by (auto simp: fs_context_clone_def Let_def split: if_splits prod.splits)
next
  case False
  obtain e1 s1 where en: "enter s = (e1, s1)" by fastforce
  have t: "tables s1 = tables s" using enter_cases [OF en] by auto
  have inv1: "fs_inv s1" using inv tables_view(1) [OF t] by simp
  have q: "evolves s s1" using evolves_quiet [OF inv t] .
  have quiet: ?thesis if "quiet s s'" using that evolves_quiet [OF inv] by (auto simp: quiet_def)
  show ?thesis
  proof (cases "e1 \<noteq> FS_OK \<or> find_reference (directory (the src)) s1 = None \<or>
      object_kind (object_of (the (find_reference (directory (the src)) s1)) s1) \<noteq> FS_DIRECTORY")
    case True
    then have "quiet s s'"
      using op False en enter_refused [OF en] quiet_bracket [of s s1 s1] by (auto simp: fs_context_clone_def Let_def split: option.splits if_splits)
    then show ?thesis by (rule quiet)
  next
    case go: False
    then obtain i where i: "find_reference (directory (the src)) s1 = Some i" by auto
    define l where "l = location_of (object_mount (object_of i s1)) \<lparr>node_id = object_id (object_of i s1), node_size = 0, node_kind = FS_DIRECTORY\<rparr>"
    note L = find_reference_live [OF inv1 i]
    obtain r2 s2 where nr: "new_reference l FS_READ s1 = (r2, s2)" by fastforce
    have en1: "enter s = (FS_OK, s1)" using en go by simp
    have m: "mounted (mounts s1 (loc_mount l))" "node_id (here l) \<noteq> 0" using L by (simp_all add: l_def)
    have * : "case r2 of Inl e \<Rightarrow> quiet s (leave s2) | Inr t \<Rightarrow> opened s FS_OK (Some t) (\<lambda>_ _. True) (leave s2)"
      using new_reference_bracket [where P = "\<lambda>_ _. True", OF inv en1 quiet_refl _ m TrueI nr] by (cases r2) auto
    have "s' = leave s2" using op False go en i nr by (cases r2) (auto simp: fs_context_clone_def l_def)
    then show ?thesis using * quiet opened_evolves [OF inv] by (cases r2) auto
  qed
qed

text \<open>A change of directory opens the new one before it closes the old one.\<close>

lemma fs_context_chdir_result:
  assumes inv: "fs_inv s" and op: "fs_context_chdir ctx path s = ((e, ctx'), s')"
  shows "if e = FS_OK
    then \<exists>plan l t s1. preflight ctx path = Inr plan \<and> ctx' = Some \<lparr>directory = t, cwd_path = path_canonical plan\<rparr> \<and>
           loc_mount l = FS_MOUNT_DISK \<and> node_kind (here l) = FS_DIRECTORY \<and> reference_added s l FS_READ t s1 \<and>
           (\<exists>s2. fst (resolve_location ctx plan (length (tok_offsets (path_input plan))) s2) = Inr l \<and> s2 = s\<lparr>busy := True\<rparr>) \<and>
           fs_inv s' \<and> open_refs s' = (open_refs s1)(directory (the ctx) := None) \<and> next_token s' = next_token s1 \<and>
           busy s' = busy s \<and> ready s' = ready s \<and> mounts s' = mounts s
    else ctx' = ctx \<and> quiet s s'"
proof (cases "ctx = None \<or> (\<exists>e1. preflight ctx path = Inl e1)")
  case True
  then show ?thesis using op preflight_ok [of ctx path] by (auto simp: fs_context_chdir_def split: if_splits)
next
  case False
  then obtain plan where plan: "preflight ctx path = Inr plan" by (cases "preflight ctx path") auto
  let ?n = "length (tok_offsets (path_input plan))"
  obtain e1 s1 where en: "enter s = (e1, s1)" by fastforce
  obtain r1 s2 where re: "resolve_location ctx plan ?n s1 = (r1, s2)" by fastforce
  note R = resolve_location_result [OF re]
  show ?thesis
  proof (cases "e1 = FS_OK \<and> (\<exists>l. r1 = Inr l \<and> node_kind (here l) = FS_DIRECTORY)")
    case no: False
    then show ?thesis
      using op False plan en re R enter_refused [OF en] quiet_bracket [of s s1 s2]
      by (auto simp: fs_context_chdir_def split: sum.splits if_splits)
  next
    case True
    then obtain l where e1: "enter s = (FS_OK, s1)" and r1: "r1 = Inr l" and d: "node_kind (here l) = FS_DIRECTORY" using en by auto
    have s1: "s1 = s\<lparr>busy := True\<rparr>" "\<not> busy s" using enter_cases [OF e1] by auto
    have l: "location_ok s2 l" "loc_mount l = FS_MOUNT_DISK" "quiet s1 s2" using R r1 location_ok_quiet [of s1 s2 l] by auto
    have m: "mounted (mounts s2 (loc_mount l))" "node_id (here l) \<noteq> 0" using l(1) location_ok_here [OF l(1)] by (simp_all add: location_ok_def)
    obtain r2 s3 where nr: "new_reference l FS_READ s2 = (r2, s3)" by fastforce
    note N = new_reference_bracket [where P = "\<lambda>_ _. True", OF inv e1 l(3) _ m TrueI nr, simplified]
    show ?thesis
    proof (cases r2)
      case (Inl e2)
      then show ?thesis using op False plan e1 re r1 d nr N by (auto simp: fs_context_chdir_def)
    next
      case (Inr t)
      then have a: "reference_added s l FS_READ t (leave s3)" using N by simp
      have t3: "tables (leave s3) = tables s3" by simp
      have inv3: "fs_inv s3" using a tables_view(1) [OF t3] by (simp add: reference_added_def)
      obtain e3 s4 where c: "close_reference (directory (the ctx)) s3 = (e3, s4)" by fastforce
      have s': "s' = leave s4" "e = FS_OK" "ctx' = Some \<lparr>directory = t, cwd_path = path_canonical plan\<rparr>"
        using op False plan e1 re r1 d nr Inr c by (auto simp: fs_context_chdir_def)
      have t4: "tables (leave s4) = tables s4" by simp
      have C: "fs_inv s4 \<and> open_refs s4 = (open_refs s3)(directory (the ctx) := None) \<and> next_token s4 = next_token s3 \<and>
          ready s4 = ready s3 \<and> mounts s4 = mounts s3"
        using close_reference_result [OF inv3 c] inv3 by (auto split: if_splits)
      have "fst (resolve_location ctx plan ?n (s\<lparr>busy := True\<rparr>)) = Inr l" using re r1 s1 by simp
      moreover have "fs_inv s' \<and> open_refs s' = (open_refs (leave s3))(directory (the ctx) := None) \<and> next_token s' = next_token (leave s3) \<and>
          ready s' = ready s \<and> mounts s' = mounts s"
        using C a unfolding s'(1) tables_view [OF t4] tables_view [OF t3] reference_added_def by simp
      moreover have "busy s' = busy s" using s1 by (simp add: s' leave_def)
      ultimately show ?thesis using s'(2,3) plan l(2) d a by auto
    qed
  qed
qed

lemma fs_context_chdir_evolves:
  assumes inv: "fs_inv s" and op: "fs_context_chdir ctx path s = ((e, ctx'), s')"
  shows "evolves s s' \<and> busy s' = busy s"
proof (cases "e = FS_OK")
  case True
  then obtain l t s1 where a: "reference_added s l FS_READ t s1" and s': "fs_inv s'" "open_refs s' = (open_refs s1)(directory (the ctx) := None)"
      "next_token s' = next_token s1" "busy s' = busy s"
    using fs_context_chdir_result [OF inv op] by auto
  have "fs_inv s1" using a by (simp add: reference_added_def)
  then have "evolves s1 s'" using s' by (auto simp: evolves_def issued_def)
  with evolves_added [OF inv a] s' evolves_trans show ?thesis by blast
next
  case False
  then show ?thesis using fs_context_chdir_result [OF inv op] evolves_quiet [OF inv, of s'] by (simp add: quiet_def)
qed

section \<open>Mounting\<close>

lemmas fs_inv_leave = tables_view(1) [OF tables_simps(3)]

lemma mounts_update_inv:
  assumes "fs_inv s" "mounted mnt \<longrightarrow> backend_complete (backend mnt)"
    "mounted mnt \<or> \<not> (\<exists>ob\<in>set (objects s). object_references ob \<noteq> 0 \<and> object_mount ob = m)"
  shows "fs_inv (s\<lparr>mounts := (mounts s)(m := mnt)\<rparr>)"
proof -
  have "mounted mnt" if "i < FS_OBJECT_LIMIT" "object_references (objects s ! i) \<noteq> 0" "object_mount (objects s ! i) = m" for i
  proof -
    have "objects s ! i \<in> set (objects s)" using that(1) assms(1) by (simp add: fs_inv_def objects_ok_def)
    then show ?thesis using that(2,3) assms(3) by blast
  qed
  then have "objects_ok (s\<lparr>mounts := (mounts s)(m := mnt)\<rparr>)"
    using assms(1) unfolding fs_inv_def objects_ok_def live_object_def by auto
  then show ?thesis using assms(1,2) by (auto simp: fs_inv_def references_ok_def mounts_ok_def)
qed

lemma evolves_mounts:
  "fs_inv s \<Longrightarrow> fs_inv s' \<Longrightarrow> references s' = references s \<Longrightarrow> objects s' = objects s \<Longrightarrow> next_token s' = next_token s \<Longrightarrow> evolves s s'"
  by (auto simp: evolves_def issued_def open_refs_def find_reference_def object_of_def)

lemma fs_mount_disk_evolves:
  assumes inv: "fs_inv s" and op: "fs_mount_disk b s = (e, s')" shows "evolves s s' \<and> busy s' = busy s"
proof -
  obtain e1 s1 where en: "enter s = (e1, s1)" by fastforce
  have quiet: ?thesis if "quiet s s'" using that evolves_quiet [OF inv] by (auto simp: quiet_def)
  show ?thesis
  proof (cases "b = None \<or> \<not> backend_complete (the b) \<or> e1 \<noteq> FS_OK")
    case True
    then have "s' = s" using op en enter_refused [OF en] by (auto simp: fs_mount_disk_def mount_backend_def split: if_splits)
    then show ?thesis using evolves_refl [OF inv] by simp
  next
    case False
    obtain e2 node s2 where c: "call (the (op_stat (the (operations (the b)))) (backend_root (the b))) s1 = ((e2, node), s2)"
      by (metis prod.exhaust)
    have E: "s1 = s\<lparr>busy := True\<rparr>" "\<not> busy s" using enter_cases [OF en] False by auto
    have t: "tables s2 = tables s" using call_eq [OF c] E by simp
    have inv2: "fs_inv s2" using inv tables_view(1) [OF t] by simp
    let ?mnt = "\<lparr>backend = the b, generation = generation (mounts s1 FS_MOUNT_DISK) + 1, mounted = True\<rparr>"
    have "fs_inv (leave (s2\<lparr>mounts := (mounts s2)(FS_MOUNT_DISK := ?mnt)\<rparr>))"
      using mounts_update_inv [OF inv2, of ?mnt FS_MOUNT_DISK] False by (simp add: fs_inv_leave)
    then have "evolves s (leave (s2\<lparr>mounts := (mounts s2)(FS_MOUNT_DISK := ?mnt)\<rparr>))"
      by (rule evolves_mounts [OF inv]) (use tables_view [OF t] in \<open>simp_all add: leave_def\<close>)
    moreover have "quiet s (leave s1)" "quiet s (leave s2)"
      using E quiet_call [OF c] quiet_leave [of s] by auto
    ultimately show ?thesis
      using op False en c quiet E by (auto simp: fs_mount_disk_def mount_backend_def Let_def leave_def split: if_splits)
  qed
qed

lemma fs_unmount_disk_evolves:
  assumes inv: "fs_inv s" and op: "fs_unmount_disk s = (e, s')" shows "evolves s s' \<and> busy s' = busy s"
proof -
  obtain e1 s1 where en: "enter s = (e1, s1)" by fastforce
  have quiet: ?thesis if "quiet s s'" using that evolves_quiet [OF inv] by (auto simp: quiet_def)
  show ?thesis
  proof (cases "e1 \<noteq> FS_OK \<or> \<not> mounted (mounts s1 FS_MOUNT_DISK) \<or>
      (\<exists>ob\<in>set (objects s1). object_references ob \<noteq> 0 \<and> object_mount ob = FS_MOUNT_DISK)")
    case True
    then have "quiet s s'" using op en enter_refused [OF en] quiet_bracket [of s s1 s1]
      by (auto simp: fs_unmount_disk_def Let_def split: if_splits)
    then show ?thesis by (rule quiet)
  next
    case False
    have E: "s1 = s\<lparr>busy := True\<rparr>" "\<not> busy s" using enter_cases [OF en] False by auto
    then have t: "tables s1 = tables s" by simp
    have inv1: "fs_inv s1" using inv tables_view(1) [OF t] by simp
    define s2 where "s2 = s1\<lparr>mounts := (mounts s1)(FS_MOUNT_DISK := (mounts s1 FS_MOUNT_DISK)\<lparr>mounted := False\<rparr>)\<rparr>"
    have inv2: "fs_inv s2" unfolding s2_def by (rule mounts_update_inv [OF inv1]) (use False in auto)
    have "s' = leave (case op_unmount (ops_of s2 FS_MOUNT_DISK) of Some f \<Rightarrow> s2\<lparr>backend_state := f (backend_state s2)\<rparr> | None \<Rightarrow> s2)"
      using op False en by (auto simp: fs_unmount_disk_def s2_def [symmetric] split: if_splits)
    then have s': "tables s' = tables s2" "busy s' = busy s" using E by (simp_all add: leave_def split: option.splits)
    have "evolves s s'"
      by (rule evolves_mounts [OF inv]) (use inv2 tables_view [OF s'(1)] E in \<open>simp_all add: s2_def\<close>)
    with s' show ?thesis by simp
  qed
qed

end
