(* ===== verification/Rum_Fs_Walk.thy ===== *)
theory Rum_Fs_Walk
  imports Rum_Fs_Ops
begin

text \<open>
  Lexical and actual resolution agree. A backend whose answers do not change between two calls is
  a tree: a lookup table from directory and name to a node. Over such a backend the node stack of
  the walk is, at every moment, the chain of nodes along the canonical name stack that the path
  parser computes, so a working directory set by \<open>fs_context_chdir\<close> can be walked again from the
  root and leads to the directory that its reference pins.
\<close>

section \<open>Steady backends\<close>

record fs_tree =
  tree_root :: fs_node
  tree_lookup :: "nat \<Rightarrow> string \<Rightarrow> fs_error \<times> fs_node"

text \<open>While \<open>I\<close> holds of the backend's state, the operations answer from the tree and keep \<open>I\<close>.
  This is the interface's promise that identifiers are stable and that lookups, statistics, pins
  and unpins change nothing visible.\<close>

definition steady :: "'b fs_backend \<Rightarrow> ('b \<Rightarrow> bool) \<Rightarrow> fs_tree \<Rightarrow> bool" where
  "steady be I T \<longleftrightarrow>
     (\<forall>b. I b \<longrightarrow> fst (the (op_stat (the (operations be))) (backend_root be) b) = (FS_OK, tree_root T) \<and>
                  I (snd (the (op_stat (the (operations be))) (backend_root be) b))) \<and>
     (\<forall>b p n. I b \<longrightarrow> fst (the (op_lookup (the (operations be))) p n b) = tree_lookup T p n \<and>
                      I (snd (the (op_lookup (the (operations be))) p n b))) \<and>
     (\<forall>b i. I b \<longrightarrow> I (snd (the (op_retain (the (operations be))) i b)) \<and> I (the (op_release (the (operations be))) i b)) \<and>
     valid_node (tree_root T) \<and> node_id (tree_root T) = backend_root be \<and> node_kind (tree_root T) = FS_DIRECTORY"

definition steady_fs :: "'b fs \<Rightarrow> ('b \<Rightarrow> bool) \<Rightarrow> fs_tree \<Rightarrow> bool" where
  "steady_fs s I T \<longleftrightarrow> mounted (mounts s FS_MOUNT_DISK) \<and> steady (backend_of s FS_MOUNT_DISK) I T \<and> I (backend_state s)"

text \<open>A chain of nodes from the root along a stack of names.\<close>

definition chain :: "fs_tree \<Rightarrow> fs_node list \<Rightarrow> string list \<Rightarrow> bool" where
  "chain T st ns \<longleftrightarrow>
     length st = Suc (length ns) \<and> st ! 0 = tree_root T \<and>
     (\<forall>i<length ns. tree_lookup T (node_id (st ! i)) (ns ! i) = (FS_OK, st ! Suc i) \<and>
        node_kind (st ! i) = FS_DIRECTORY \<and> valid_node (st ! Suc i))"

lemma chain_root: "chain T [tree_root T] []" by (simp add: chain_def)

lemma chain_push:
  assumes "chain T st ns" "node_kind (last st) = FS_DIRECTORY" "tree_lookup T (node_id (last st)) n = (FS_OK, node)" "valid_node node"
  shows "chain T (st @ [node]) (ns @ [n])"
proof -
  have "st \<noteq> []" using assms(1) by (auto simp: chain_def)
  then have "last st = st ! length ns" using assms(1) by (simp add: chain_def last_conv_nth)
  then show ?thesis using assms by (auto simp: chain_def nth_append less_Suc_eq)
qed

lemma chain_pop: "chain T st ns \<Longrightarrow> length st > 1 \<Longrightarrow> chain T (butlast st) (butlast ns)"
  by (auto simp: chain_def nth_butlast)

lemma chain_unique:
  assumes "chain T st ns" "chain T st' ns" shows "st = st'"
proof (rule nth_equalityI)
  show len: "length st = length st'" using assms by (simp add: chain_def)
  show "st ! i = st' ! i" if "i < length st" for i
    using that
  proof (induction i)
    case 0
    then show ?case using assms by (simp add: chain_def)
  next
    case (Suc i)
    then have "i < length ns" using assms(1) by (simp add: chain_def)
    then have "tree_lookup T (node_id (st ! i)) (ns ! i) = (FS_OK, st ! Suc i)" "tree_lookup T (node_id (st' ! i)) (ns ! i) = (FS_OK, st' ! Suc i)"
      using assms by (simp_all add: chain_def)
    then show ?case using Suc by simp
  qed
qed

section \<open>The walk\<close>

lemma call_steady:
  "call f s = (r, s') \<Longrightarrow> I (snd (f (backend_state s))) \<Longrightarrow> r = fst (f (backend_state s)) \<and> I (backend_state s')"
  using call_eq [of f s r s'] by auto

lemma steady_fs_quiet:
  assumes "quiet s s'" "I (backend_state s')" "steady_fs s I T" shows "steady_fs s' I T"
  using assms tables_view [of s' s] by (auto simp: steady_fs_def quiet_def)

lemma here_last: "location_ok s l \<Longrightarrow> here l = last (node_path l)"
  by (simp add: here_def node_path_def location_ok_def take_Suc_conv_app_nth)

lemma steady_lookup:
  assumes "steady_fs s I T" "call (the (op_lookup (ops_of s FS_MOUNT_DISK)) p n) s = (r, s')"
  shows "r = tree_lookup T p n \<and> steady_fs s' I T"
proof -
  have "I (snd (the (op_lookup (ops_of s FS_MOUNT_DISK)) p n (backend_state s)))"
      "fst (the (op_lookup (ops_of s FS_MOUNT_DISK)) p n (backend_state s)) = tree_lookup T p n"
    using assms(1) by (simp_all add: steady_fs_def steady_def ops_of_def)
  with call_steady [OF assms(2), of I] quiet_call [OF assms(2)] steady_fs_quiet [OF _ _ assms(1)] show ?thesis by auto
qed

lemma step_chain:
  assumes ok: "location_ok s l" and m: "loc_mount l = FS_MOUNT_DISK" and st: "steady_fs s I T" and c: "chain T (node_path l) ns"
    and e: "step name l s = (r, s')" and up: "norm_name name = name"
  shows "steady_fs s' I T \<and> (case r of Inl _ \<Rightarrow> True | Inr l' \<Rightarrow> chain T (node_path l') (canon_step name ns))"
proof -
  obtain err node s1 where k: "call (the (op_lookup (ops_of s FS_MOUNT_DISK)) (node_id (here l)) name) s = ((err, node), s1)"
    by (metis prod.exhaust)
  note S = steady_lookup [OF st k]
  have R: "case r of Inl _ \<Rightarrow> True | Inr l' \<Rightarrow> node_kind (here l) = FS_DIRECTORY \<and> stack_step name (node_path l) (node_path l')"
    using step_result [OF ok e] by (auto split: sum.splits)
  have s': "s' = s \<or> s' = s1" using e k m by (auto simp: step_def Let_def split: if_splits)
  show ?thesis
  proof (cases r)
    case (Inl e1)
    then show ?thesis using s' st S by auto
  next
    case (Inr l')
    have len: "length (node_path l) = Suc (length ns)" using c by (simp add: chain_def)
    have "chain T (node_path l') (canon_step name ns)"
    proof (cases "name = ''.'' \<or> name = ''..''")
      case True
      then show ?thesis using R Inr c chain_pop [OF c] len
        by (cases "length (node_path l) > 1") (auto simp: stack_step_def canon_step_def)
    next
      case False
      then have n: "map upcase name = name" using up by (simp add: norm_name_def split: if_splits)
      have l': "err = FS_OK" "valid_node node" "l' = l\<lparr>depth := depth l + 1, nodes := (nodes l)[depth l + 1 := node]\<rparr>" "depth l \<noteq> FS_PATH_DEPTH"
        using e Inr k m False by (auto simp: step_def Let_def split: if_splits)
      have "node_path l' = node_path l @ [node]"
        using l' ok by (simp add: node_path_def location_ok_def take_Suc_conv_app_nth)
      then show ?thesis
        using chain_push [OF c _ _ l'(2), of name] R Inr S l'(1) here_last [OF ok] n False by (simp add: canon_step_def)
    qed
    then show ?thesis using Inr s' st S by auto
  qed
qed

lemma steps_chain:
  "location_ok s l \<Longrightarrow> loc_mount l = FS_MOUNT_DISK \<Longrightarrow> steady_fs s I T \<Longrightarrow> chain T (node_path l) ns \<Longrightarrow>
   steps names l s = (r, s') \<Longrightarrow> \<forall>n\<in>set names. norm_name n = n \<Longrightarrow>
   steady_fs s' I T \<and> (case r of Inl _ \<Rightarrow> True | Inr l' \<Rightarrow> chain T (node_path l') (fold canon_step names ns))"
proof (induction names arbitrary: l s ns)
  case (Cons name names)
  obtain r1 s1 where e: "step name l s = (r1, s1)" by fastforce
  note S = step_chain [OF Cons.prems(1-4) e] and R = step_result [OF Cons.prems(1) e]
  show ?case
  proof (cases r1)
    case (Inl x)
    then show ?thesis using S Cons.prems e by auto
  next
    case (Inr l1)
    then have "location_ok s1 l1" "loc_mount l1 = FS_MOUNT_DISK" using R Cons.prems location_ok_quiet [of s s1 l1] by auto
    from Cons.IH [OF this, of "canon_step name ns"] S Inr Cons.prems e show ?thesis by (cases r) auto
  qed
qed auto

text \<open>A chain can be walked again.\<close>

lemma step_along:
  assumes ok: "location_ok s l" and m: "loc_mount l = FS_MOUNT_DISK" and st: "steady_fs s I T"
    and d: "node_kind (here l) = FS_DIRECTORY" "depth l < FS_PATH_DEPTH" and n: "name \<noteq> ''.''" "name \<noteq> ''..''"
    and t: "tree_lookup T (node_id (here l)) name = (FS_OK, node)" "valid_node node"
  shows "\<exists>l' s'. step name l s = (Inr l', s') \<and> node_path l' = node_path l @ [node]"
proof -
  obtain r s1 where k: "call (the (op_lookup (ops_of s FS_MOUNT_DISK)) (node_id (here l)) name) s = (r, s1)" by fastforce
  have "r = (FS_OK, node)" using steady_lookup [OF st k] t(1) by simp
  moreover have "node_path (l\<lparr>depth := depth l + 1, nodes := (nodes l)[depth l + 1 := node]\<rparr>) = node_path l @ [node]"
    using ok d(2) by (simp add: node_path_def location_ok_def take_Suc_conv_app_nth)
  ultimately show ?thesis using k m d n t(2) by (auto simp: step_def Let_def)
qed

lemma steps_along:
  "location_ok s l \<Longrightarrow> loc_mount l = FS_MOUNT_DISK \<Longrightarrow> steady_fs s I T \<Longrightarrow> chain T st (ns1 @ ns2) \<Longrightarrow> stack_ok (ns1 @ ns2) \<Longrightarrow>
   node_path l = take (Suc (length ns1)) st \<Longrightarrow>
   \<exists>l' s'. steps ns2 l s = (Inr l', s') \<and> node_path l' = st \<and> location_ok s' l' \<and> loc_mount l' = FS_MOUNT_DISK \<and> steady_fs s' I T \<and> quiet s s'"
proof (induction ns2 arbitrary: l s ns1)
  case Nil
  then have "length st = Suc (length ns1)" by (simp add: chain_def)
  with Nil show ?case by simp
next
  case (Cons n ns2)
  let ?k = "length ns1"
  have len: "length st = Suc (?k + Suc (length ns2))" using Cons.prems(4) by (simp add: chain_def)
  have c: "tree_lookup T (node_id (st ! ?k)) n = (FS_OK, st ! Suc ?k)" "node_kind (st ! ?k) = FS_DIRECTORY" "valid_node (st ! Suc ?k)"
    using Cons.prems(4) by (auto simp: chain_def nth_append dest!: spec [of _ ?k])
  have h: "here l = st ! ?k" using here_last [OF Cons.prems(1)] Cons.prems(6) len by (simp add: take_Suc_conv_app_nth)
  have "length (node_path l) = Suc (depth l)" using Cons.prems(1) by (simp add: node_path_def location_ok_def)
  then have d: "depth l < FS_PATH_DEPTH" using Cons.prems(5,6) len by (simp add: stack_ok_def)
  have n83: "name83 n" "map upcase n = n" using Cons.prems(5) by (auto simp: stack_ok_def)
  then have n: "n \<noteq> ''.''" "n \<noteq> ''..''" using name83_facts [of n] by auto
  obtain l1 s1 where s1: "step n l s = (Inr l1, s1)" "node_path l1 = node_path l @ [st ! Suc ?k]"
    using step_along [OF Cons.prems(1-3)] h c d n by metis
  have up: "norm_name n = n" using n n83 by (simp add: norm_name_def)
  note R = step_result [OF Cons.prems(1) s1(1), simplified]
  have ch: "chain T (node_path l) ns1"
  proof -
    have "tree_lookup T (node_id (st ! i)) (ns1 ! i) = (FS_OK, st ! Suc i) \<and> node_kind (st ! i) = FS_DIRECTORY \<and> valid_node (st ! Suc i)"
      if "i < length ns1" for i
      using Cons.prems(4) that by (auto simp: chain_def nth_append dest!: spec [of _ i])
    then show ?thesis using Cons.prems(4,6) len by (auto simp: chain_def)
  qed
  have l1: "location_ok s1 l1" "loc_mount l1 = FS_MOUNT_DISK" using R Cons.prems(2) location_ok_quiet [of s s1 l1] by auto
  have st1: "steady_fs s1 I T" using step_chain [OF Cons.prems(1-3) ch s1(1) up] by simp
  have path: "node_path l1 = take (Suc (length (ns1 @ [n]))) st" using s1(2) Cons.prems(6) len by (simp add: take_Suc_conv_app_nth)
  have "chain T st ((ns1 @ [n]) @ ns2)" "stack_ok ((ns1 @ [n]) @ ns2)" using Cons.prems(4,5) by simp_all
  from Cons.IH [OF l1 st1 this path] obtain l' s' where
    "steps ns2 l1 s1 = (Inr l', s')" "node_path l' = st" "location_ok s' l'" "loc_mount l' = FS_MOUNT_DISK" "steady_fs s' I T" "quiet s1 s'"
    by blast
  with s1(1) R quiet_trans show ?case by auto
qed

section \<open>Resolution of a path\<close>

lemma root_steady:
  assumes st: "steady_fs s I T"
  shows "\<exists>l s'. root FS_MOUNT_DISK s = (Inr l, s') \<and> node_path l = [tree_root T] \<and> location_ok s' l \<and> loc_mount l = FS_MOUNT_DISK \<and>
     steady_fs s' I T \<and> quiet s s'"
proof -
  let ?be = "backend_of s FS_MOUNT_DISK"
  obtain r s1 where k: "call (the (op_stat (ops_of s FS_MOUNT_DISK)) (backend_root ?be)) s = (r, s1)" by fastforce
  have f: "I (snd (the (op_stat (ops_of s FS_MOUNT_DISK)) (backend_root ?be) (backend_state s)))"
      "fst (the (op_stat (ops_of s FS_MOUNT_DISK)) (backend_root ?be) (backend_state s)) = (FS_OK, tree_root T)"
    using st by (simp_all add: steady_fs_def steady_def ops_of_def)
  have r: "r = (FS_OK, tree_root T)" "I (backend_state s1)" using call_steady [where I = I, OF k f(1)] f(2) by simp_all
  have q: "quiet s s1" using quiet_call [OF k] .
  have v: "valid_node (tree_root T)" "node_id (tree_root T) = backend_root ?be" "node_kind (tree_root T) = FS_DIRECTORY"
    and m: "mounted (mounts s FS_MOUNT_DISK)" using st by (simp_all add: steady_fs_def steady_def)
  have "root FS_MOUNT_DISK s = (Inr (location_of FS_MOUNT_DISK (tree_root T)), s1)"
    using k r v m by (simp add: root_def Let_def)
  moreover have "node_path (location_of FS_MOUNT_DISK (tree_root T)) = [tree_root T]" by (simp add: node_path_def location_of_def)
  moreover have "location_ok s1 (location_of FS_MOUNT_DISK (tree_root T))" using location_ok_of [OF m v(1)] location_ok_quiet [OF q] by simp
  ultimately show ?thesis using q steady_fs_quiet [of s s1 I T, OF q r(2) st] here_of(2) by blast
qed

lemma norm_name_idem [simp]: "norm_name (norm_name n) = norm_name n"
  by (auto simp: norm_name_def map_upcase_idem)

lemma canon_step_norm: "canon_step (norm_name n) ns = canon_step n ns"
proof (cases "n = ''.'' \<or> n = ''..''")
  case False
  have "map upcase n \<noteq> ''.''" "map upcase n \<noteq> ''..''"
    using False upcase_dot by (auto simp: map_eq_Cons_conv)
  then show ?thesis using False by (simp add: canon_step_def norm_name_def map_upcase_idem)
qed (auto simp: canon_step_def norm_name_def)

lemma fold_canon_norm: "fold canon_step (map norm_name names) ns = fold canon_step names ns"
  by (induction names arbitrary: ns) (simp_all add: canon_step_norm)

text \<open>The working directory a path starts from.\<close>

definition base_path :: "fs_context option \<Rightarrow> string" where
  "base_path ctx = (case ctx of Some c \<Rightarrow> cstr (cwd_path c) | None \<Rightarrow> ''/'')"

lemma preflight_parse:
  assumes "preflight ctx (Some input) = Inr plan"
  shows "fs_path_parse (Some (base_path ctx)) (Some input) = Inr plan"
  using assms by (auto simp: preflight_def base_path_def split: option.splits if_splits)

lemma plan_names:
  assumes "fs_path_parse (Some base) (Some input) = Inr plan"
  shows "token_names (path_base plan) = map norm_name (components [] base)" "token_names (path_input plan) = map norm_name (components [] input)"
    "length (tok_offsets (path_input plan)) = length (token_names (path_input plan))" "tok_absolute (path_input plan) = (hd input = CHR ''/'')"
proof -
  show "token_names (path_base plan) = map norm_name (components [] base)" "token_names (path_input plan) = map norm_name (components [] input)"
    using fs_path_parse_parsed [OF assms] by (simp_all add: parsed_def token_names_def)
  show "length (tok_offsets (path_input plan)) = length (token_names (path_input plan))" by (simp add: token_names_def)
  obtain bt it p0 p1 where st: "collect (Some base) = Inr bt" "tok_absolute bt" "collect (Some input) = Inr it"
      "apply_path (root_canonical ((replicate FS_PATH_CAPACITY NUL)[0 := CHR ''/''])) bt = (FS_OK, p0, path_base plan)"
      "apply_path (if tok_absolute it then root_canonical ((ctext p0)[1 := NUL]) else p0) it = (FS_OK, p1, path_input plan)"
    using fs_path_parse_stages [OF assms] by metis
  note inv = apply_path_collected(1) [OF st(1,4) root_buffer]
  show "tok_absolute (path_input plan) = (hd input = CHR ''/'')"
    using apply_path_collected(5) [OF st(3,5)] root_restart [OF inv] inv by (cases "tok_absolute it") auto
qed

text \<open>The nodes of the resolved location lie along the lexical resolution of the path.\<close>

lemma resolve_location_chain:
  assumes st: "steady_fs s I T" and p: "preflight ctx (Some input) = Inr plan"
    and e: "resolve_location ctx plan (length (tok_offsets (path_input plan))) s = (Inr l, s')"
  shows "chain T (node_path l) (resolve (base_path ctx) input)"
proof -
  note N = plan_names [OF preflight_parse [OF p]]
  obtain l0 s0 where r: "root FS_MOUNT_DISK s = (Inr l0, s0)" "node_path l0 = [tree_root T]" "location_ok s0 l0" "loc_mount l0 = FS_MOUNT_DISK" "steady_fs s0 I T"
    using root_steady [OF st] by blast
  have c0: "chain T (node_path l0) []" using r(2) chain_root by simp
  obtain cwd where cwd: "resolve_cwd ctx s = Inr cwd" using e by (auto simp: resolve_location_def split: sum.splits)
  obtain l1 s1 where b: "resolve_base cwd plan l0 s0 = (Inr l1, s1)" and i: "steps (token_names (path_input plan)) l1 s1 = (Inr l, s')"
    using e cwd r(1) N(3) by (auto simp: resolve_location_def split: sum.splits prod.splits if_splits)
  let ?ns = "if hd input = CHR ''/'' then [] else fold canon_step (components [] (base_path ctx)) []"
  have B: "location_ok s1 l1 \<and> loc_mount l1 = FS_MOUNT_DISK \<and> steady_fs s1 I T \<and> chain T (node_path l1) ?ns"
  proof (cases "cwd = None \<or> tok_absolute (path_input plan)")
    case True
    have "?ns = []"
    proof (cases "ctx = None")
      case True
      then show ?thesis by (simp add: base_path_def)
    next
      case False
      then have "cwd \<noteq> None" using cwd by (auto simp: resolve_cwd_def split: option.splits if_splits)
      then show ?thesis using \<open>cwd = None \<or> tok_absolute (path_input plan)\<close> N(4) by auto
    qed
    then show ?thesis using True b r c0 by (cases cwd) (auto simp: resolve_base_def)
  next
    case False
    then have w: "steps (token_names (path_base plan)) l0 s0 = (Inr l1, s1)"
      using b by (auto simp: resolve_base_def split: option.splits sum.splits prod.splits if_splits)
    have "location_ok s1 l1 \<and> loc_mount l1 = FS_MOUNT_DISK"
      using steps_result [OF r(3) w] r(4) location_ok_quiet [of s0 s1 l1] by auto
    moreover have "steady_fs s1 I T \<and> chain T (node_path l1) (fold canon_step (token_names (path_base plan)) [])"
      using steps_chain [OF r(3,4,5) c0 w] N(1) by auto
    ultimately show ?thesis using False N(1,4) by (simp add: fold_canon_norm)
  qed
  have "chain T (node_path l) (fold canon_step (token_names (path_input plan)) ?ns)"
    using steps_chain [of s1 l1 I T ?ns, OF _ _ _ _ i] B N(2) by auto
  then show ?thesis by (simp add: N(2) fold_canon_norm resolve_def)
qed

section \<open>A changed working directory\<close>

lemma step_steady:
  assumes "steady_fs s I T" "step name l s = (r, s')" shows "steady_fs s' I T"
proof -
  obtain x s1 where k: "call (the (op_lookup (ops_of s (loc_mount l))) (node_id (here l)) name) s = (x, s1)" by fastforce
  have "loc_mount l = FS_MOUNT_DISK" by (cases "loc_mount l")
  then have "steady_fs s1 I T" using steady_lookup [OF assms(1)] k by metis
  moreover have "s' = s \<or> s' = s1" using assms(2) k by (auto simp: step_def Let_def split: if_splits prod.splits)
  ultimately show ?thesis using assms(1) by blast
qed

lemma steps_steady: "steady_fs s I T \<Longrightarrow> steps names l s = (r, s') \<Longrightarrow> steady_fs s' I T"
proof (induction names arbitrary: l s)
  case (Cons name names)
  obtain r1 s1 where e: "step name l s = (r1, s1)" by fastforce
  then have "steady_fs s1 I T" using step_steady Cons.prems(1) by blast
  then show ?case using Cons e by (cases r1) auto
qed auto

lemma resolve_base_steady: "steady_fs s I T \<Longrightarrow> resolve_base cwd plan l s = (r, s') \<Longrightarrow> steady_fs s' I T"
  using steps_steady by (fastforce simp: resolve_base_def split: option.splits if_splits prod.splits sum.splits)

lemma resolve_location_steady:
  assumes "steady_fs s I T" "resolve_location ctx plan n s = (r, s')" shows "steady_fs s' I T"
proof (cases "resolve_cwd ctx s")
  case (Inr cwd)
  obtain l s1 where r: "root FS_MOUNT_DISK s = (Inr l, s1)" "steady_fs s1 I T" using root_steady [OF assms(1)] by blast
  obtain r2 s2 where b: "resolve_base cwd plan l s1 = (r2, s2)" by fastforce
  have s2: "steady_fs s2 I T" using resolve_base_steady [OF r(2) b] .
  show ?thesis
    using assms(2) Inr r b s2 steps_steady [OF s2]
    by (cases r2) (auto simp: resolve_location_def split: sum.splits prod.splits if_splits)
qed (use assms in \<open>simp add: resolve_location_def\<close>)

lemma steady_fs_mounts:
  "mounts s' = mounts s \<Longrightarrow> I (backend_state s') \<Longrightarrow> steady_fs s I T \<Longrightarrow> steady_fs s' I T"
  by (simp add: steady_fs_def backend_of_def)

lemma mount_unique: "m = FS_MOUNT_DISK" by (cases m)

lemma new_reference_steady:
  assumes "steady_fs s I T" "new_reference l acc s = (r, s')" shows "I (backend_state s')"
proof -
  obtain e s1 where k: "call (the (op_retain (ops_of s FS_MOUNT_DISK)) (node_id (here l))) s = (e, s1)" by fastforce
  have i: "I (backend_state s)" "I (snd (the (op_retain (ops_of s FS_MOUNT_DISK)) (node_id (here l)) (backend_state s)))"
    using assms(1) by (simp_all add: steady_fs_def steady_def ops_of_def)
  then have "I (backend_state s1)" using call_steady [where I = I, OF k] by simp
  then show ?thesis 
    using i(1) assms(2) k by (auto simp: new_reference_def mount_unique [of "loc_mount l"] publish_reference_def Let_def split: if_splits prod.splits)
qed

lemma close_reference_steady:
  assumes "steady_fs s I T" "fs_inv s" shows "I (backend_state (snd (close_reference t s)))"
  using assms(1) unfolding close_reference_eq [OF assms(2)]
  by (auto simp: released_def dropped_def Let_def steady_fs_def steady_def ops_of_def mount_unique [of "object_mount _"] split: option.splits)

lemma fs_path_parse_here:
  assumes "stack_ok ns" "length (print_path ns) < FS_PATH_CAPACITY"
  shows "\<exists>plan. fs_path_parse (Some (print_path ns)) (Some ''.'') = Inr plan"
proof -
  obtain bt where bt: "collect (Some (print_path ns)) = Inr bt" "tok_absolute bt"
    using collect_correct [of "print_path ns"] path_input_ok_print_path [OF assms]
    by (cases ns) (auto simp: collect_spec_def tokens_of_def print_path_def split: sum.splits)
  obtain p0 b' where p0: "apply_path (root_canonical ((replicate FS_PATH_CAPACITY NUL)[0 := CHR ''/''])) bt = (FS_OK, p0, b')"
    using apply_path_stack [OF assms bt(1) root_buffer] by blast
  have "path_input_ok ''.''" by code_simp
  then obtain it where it: "collect (Some ''.'') = Inr it" "tokens_of ''.'' it"
    using collect_correct [of "''.''"] by (auto simp: collect_spec_def split: sum.splits)
  then have names: "map (token_at (tok_text it)) (tok_offsets it) = [''.'']" "\<not> tok_absolute it"
    by (auto simp: tokens_of_def)
  then obtain off where "tok_offsets it = [off]" "token_at (tok_text it) off = ''.''" by (cases "tok_offsets it") auto
  then have "apply_path p0 it = (FS_OK, p0, it)" by (simp add: apply_path_def)
  with bt it p0 names(2) show ?thesis by (simp add: fs_path_parse_def)
qed

lemma components_here: "components [] ''.'' = [''.'']" by code_simp

text \<open>The context a successful change leaves behind, and the state it can be used in.\<close>

lemma fs_context_chdir_steady:
  assumes inv: "fs_inv s" and st: "steady_fs s I T" and op: "fs_context_chdir ctx path s = ((FS_OK, ctx'), s')"
  shows "steady_fs s' I T \<and> ready s' \<and> \<not> busy s'"
proof -
  have "ctx \<noteq> None" using op by (cases ctx) (auto simp: fs_context_chdir_def)
  then obtain plan where plan: "preflight ctx path = Inr plan" "ctx \<noteq> None" using fs_context_chdir_result [OF inv op] by auto
  obtain e1 s1 where en: "enter s = (e1, s1)" by fastforce
  obtain r s2 where re: "resolve_location ctx plan (length (tok_offsets (path_input plan))) s1 = (r, s2)" by fastforce
  have e1: "e1 = FS_OK" using op plan en enter_cases [OF en] by (auto simp: fs_context_chdir_def split: if_splits)
  then have s1: "s1 = s\<lparr>busy := True\<rparr>" "ready s" "\<not> busy s" using enter_cases [OF en] by auto
  obtain l where r: "r = Inr l" "node_kind (here l) = FS_DIRECTORY"
    using op plan en e1 re resolve_location_result [OF re] by (auto simp: fs_context_chdir_def split: sum.splits if_splits)
  obtain r3 s3 where nr: "new_reference l FS_READ s2 = (r3, s3)" by fastforce
  have q: "quiet s1 s2" using resolve_location_result [OF re] by simp
  have "steady_fs s1 I T" using st s1 by (intro steady_fs_mounts [OF _ _ st]) (auto simp: steady_fs_def)
  then have st2: "steady_fs s2 I T" using resolve_location_steady re by blast
  have inv2: "fs_inv s2" using inv q s1 quiet_inv [OF q] tables_view(1) [of s1 s] by simp
  have l: "mounted (mounts s2 (loc_mount l))" "node_id (here l) \<noteq> 0"
    using resolve_location_result [OF re] r location_ok_quiet [OF q, of l] location_ok_here [of s1 l] by (auto simp: location_ok_def)
  obtain t where t: "r3 = Inr t" and s': "s' = leave (snd (close_reference (directory (the ctx)) s3))"
    using op plan en e1 re r nr new_reference_result [OF inv2 _ l, of FS_READ] by (auto simp: fs_context_chdir_def split: sum.splits)
  have "reference_added s2 l FS_READ t s3" using new_reference_result [OF inv2 _ l, of FS_READ] nr t by simp
  then have a: "fs_inv s3" "mounts s3 = mounts s2" "ready s3 = ready s2" by (simp_all add: reference_added_def)
  have st3: "steady_fs s3 I T" using steady_fs_mounts [OF a(2) new_reference_steady [OF st2 nr] st2] .
  obtain e4 s4 where c: "close_reference (directory (the ctx)) s3 = (e4, s4)" by fastforce
  have m4: "mounts s4 = mounts s3 \<and> ready s4 = ready s3" using close_reference_result [OF a(1) c] by (auto split: if_splits)
  have "I (backend_state s4)" using close_reference_steady [OF st3 a(1), of "directory (the ctx)"] c by simp
  then have "steady_fs s4 I T" using steady_fs_mounts [OF _ _ st3] m4 by blast
  moreover have "ready s4" using m4 a q s1 by (simp add: quiet_def tables_def)
  ultimately show ?thesis using s' c steady_fs_mounts [of "leave s4" s4] by (simp add: leave_def steady_fs_def)
qed

lemma fs_stat_here:
  assumes S: "steady_fs s I T" "ready s" "\<not> busy s" and t: "directory c \<noteq> 0" "cstr (cwd_path c) = print_path ns"
    and o: "open_refs s (directory c) = Some \<lparr>open_mount = FS_MOUNT_DISK, open_id = node_id n, open_kind = FS_DIRECTORY, open_access = FS_READ\<rparr>"
    and ns: "stack_ok ns" "length (print_path ns) < FS_PATH_CAPACITY" and ch: "chain T st ns" and n: "last st = n" "node_kind n = FS_DIRECTORY"
  shows "\<exists>info s'. fs_stat_path (Some c) (Some ''.'') (Some zero_information) s = ((FS_OK, Some info), s') \<and>
     info_object info = node_id n \<and> info_kind info = FS_DIRECTORY"
proof -
  obtain plan where p: "fs_path_parse (Some (print_path ns)) (Some ''.'') = Inr plan" using fs_path_parse_here [OF ns] by blast
  note N = plan_names [OF p]
  have pf: "preflight (Some c) (Some ''.'') = Inr plan" using p t by (simp add: preflight_def)
  define u where "u = s\<lparr>busy := True\<rparr>"
  have en: "enter s = (FS_OK, u)" using S by (simp add: enter_def u_def)
  have stu: "steady_fs u I T" unfolding u_def using S by (intro steady_fs_mounts [OF _ _ S(1)]) (auto simp: steady_fs_def)
  have "open_refs u (directory c) = open_refs s (directory c)" unfolding u_def by (rule fun_cong [OF tables_view(2)]) simp
  then have "open_refs u (directory c) = Some \<lparr>open_mount = FS_MOUNT_DISK, open_id = node_id n, open_kind = FS_DIRECTORY, open_access = FS_READ\<rparr>"
    using o by simp
  then obtain i where i: "find_reference (directory c) u = Some i" "object_kind (object_of i u) = FS_DIRECTORY"
      "object_id (object_of i u) = node_id n" "object_mount (object_of i u) = FS_MOUNT_DISK"
    by (auto simp: open_refs_def)
  then have cwd: "resolve_cwd (Some c) u = Inr (Some (object_of i u))" by (simp add: resolve_cwd_def)
  obtain l0 u0 where r: "root FS_MOUNT_DISK u = (Inr l0, u0)" "node_path l0 = [tree_root T]" "location_ok u0 l0"
      "loc_mount l0 = FS_MOUNT_DISK" "steady_fs u0 I T"
    using root_steady [OF stu] by blast
  have "map norm_name (components [] (print_path ns)) = ns"
    using components_print_path [OF ns(1)] ns(1) name83_facts by (auto simp: stack_ok_def norm_name_def intro!: map_idI)
  then have base: "token_names (path_base plan) = ns" using N(1) by simp
  have "node_path l0 = take (Suc (length [])) st" using r(2) ch by (cases st) (auto simp: chain_def)
  then obtain l1 u1 where w: "steps ns l0 u0 = (Inr l1, u1)" "node_path l1 = st" "location_ok u1 l1" "loc_mount l1 = FS_MOUNT_DISK"
    using steps_along [of u0 l0 I T st "[]" ns] r ch ns(1) by auto
  have h: "here l1 = n" using here_last [OF w(3)] w(2) n by simp
  have b: "resolve_base (Some (object_of i u)) plan l0 u0 = (Inr l1, u1)" using w base N(4) i h by (simp add: resolve_base_def)
  have input: "token_names (path_input plan) = [''.'']" using N(2) by (simp add: components_here norm_name_def)
  have "resolve_location (Some c) plan (length (tok_offsets (path_input plan))) u = (Inr l1, u1)"
    using cwd r(1) b input N(3) h n(2) by (simp add: resolve_location_def step_def Let_def)
  then have "fs_stat_path (Some c) (Some ''.'') (Some zero_information) s = ((FS_OK, Some (information l1 u1)), leave u1)"
    using pf en by (simp add: fs_stat_path_def)
  moreover have "info_object (information l1 u1) = node_id n" "info_kind (information l1 u1) = FS_DIRECTORY"
    using h n(2) by (simp_all add: information_def)
  ultimately show ?thesis by blast
qed

lemma fs_chdir_returns:
  assumes inv: "fs_inv s" and st: "steady_fs s I T"
    and op: "fs_context_chdir (Some c) (Some path) s = ((FS_OK, Some c'), s')"
  shows "\<exists>info s''. fs_stat_path (Some c') (Some ''.'') (Some zero_information) s' = ((FS_OK, Some info), s'') \<and>
     open_refs s' (directory c') = Some \<lparr>open_mount = FS_MOUNT_DISK, open_id = info_object info, open_kind = FS_DIRECTORY, open_access = FS_READ\<rparr> \<and>
     info_kind info = FS_DIRECTORY \<and> cstr (cwd_path c') = print_path (resolve (cstr (cwd_path c)) path)"
proof -
  obtain plan l t s1 where plan: "preflight (Some c) (Some path) = Inr plan" and c': "c' = \<lparr>directory = t, cwd_path = path_canonical plan\<rparr>"
    and l: "loc_mount l = FS_MOUNT_DISK" "node_kind (here l) = FS_DIRECTORY" and a: "reference_added s l FS_READ t s1"
    and re: "fst (resolve_location (Some c) plan (length (tok_offsets (path_input plan))) (s\<lparr>busy := True\<rparr>)) = Inr l"
    and s': "fs_inv s'" "open_refs s' = (open_refs s1)(directory c := None)"
    using fs_context_chdir_result [OF inv op] by auto
  define ns where "ns = resolve (cstr (cwd_path c)) path"
  have "fs_path_parse (Some (cstr (cwd_path c))) (Some path) = Inr plan" using preflight_parse [OF plan] by (simp add: base_path_def)
  from fs_path_parse_parsed [OF this]
  have ns: "stack_ok ns" "cstr (path_canonical plan) = print_path ns" "length (print_path ns) < FS_PATH_CAPACITY" by (simp_all add: parsed_def ns_def)
  obtain s2 where re2: "resolve_location (Some c) plan (length (tok_offsets (path_input plan))) (s\<lparr>busy := True\<rparr>) = (Inr l, s2)"
    using re by (metis prod.collapse)
  have stb: "steady_fs (s\<lparr>busy := True\<rparr>) I T" using st by (intro steady_fs_mounts [OF _ _ st]) (auto simp: steady_fs_def)
  have ch: "chain T (node_path l) ns" using resolve_location_chain [OF stb plan re2] by (simp add: base_path_def ns_def)
  have h: "last (node_path l) = here l" using here_last [of "s\<lparr>busy := True\<rparr>" l] resolve_location_result [OF re2] by simp
  have "directory c \<noteq> t"
  proof
    assume "directory c = t"
    then have "find_reference t (s\<lparr>busy := True\<rparr>) \<noteq> None" using re2 by (auto simp: resolve_location_def resolve_cwd_def split: option.splits sum.splits)
    then show False using a by (auto simp: reference_added_def open_refs_def find_reference_def)
  qed
  then have o: "open_refs s' (directory c') = Some \<lparr>open_mount = FS_MOUNT_DISK, open_id = node_id (here l), open_kind = FS_DIRECTORY, open_access = FS_READ\<rparr>"
      "directory c' \<noteq> 0" "cstr (cwd_path c') = print_path ns"
    using a l s'(2) ns(2) by (auto simp: reference_added_def c')
  have S: "steady_fs s' I T" "ready s'" "\<not> busy s'" using fs_context_chdir_steady [OF inv st op] by auto
  from fs_stat_here [OF S o(2,3,1) ns(1,3) ch h l(2)] o show ?thesis by (auto simp: ns_def)
qed

end
