(* ===== verification/Rum_Fs_Props.thy ===== *)
theory Rum_Fs_Props
  imports Rum_Fs_Walk
begin

text \<open>
  The filesystem layer as a transition system: any sequence of public calls with any arguments,
  over any backend. Reachable states satisfy the table invariant with the entry lock free, closed
  tokens stay closed for ever, and the single operations meet their contracts.
\<close>

section \<open>Calls and reachable states\<close>

definition fs_start :: "'b \<Rightarrow> 'b fs" where
  "fs_start b =
     \<lparr>mounts = (\<lambda>_. \<lparr>backend = \<lparr>operations = None, backend_root = 0, naming = FS_NAMES_FAT83, backend_read_only = False\<rparr>,
                      generation = 0, mounted = False\<rparr>),
      objects = replicate FS_OBJECT_LIMIT zero_object, references = replicate FS_REFERENCE_LIMIT zero_reference,
      next_token = 1, ready = False, busy = False, backend_state = b\<rparr>"

inductive fs_call :: "'b fs \<Rightarrow> 'b fs \<Rightarrow> bool" where
  call_initialize: "fs_call s (snd (fs_initialize s))"
| call_mount: "fs_call s (snd (fs_mount_disk b s))"
| call_unmount: "fs_call s (snd (fs_unmount_disk s))"
| call_open: "fs_call s (snd (fs_open ctx path acc r s))"
| call_duplicate: "fs_call s (snd (fs_duplicate t r s))"
| call_close: "fs_call s (snd (fs_close t s))"
| call_stat: "fs_call s (snd (fs_stat t i s))"
| call_stat_path: "fs_call s (snd (fs_stat_path ctx path i s))"
| call_read: "fs_call s (snd (fs_read t off buf n s))"
| call_write: "fs_call s (snd (fs_write t off buf n s))"
| call_readdir: "fs_call s (snd (fs_readdir t c en s))"
| call_truncate: "fs_call s (snd (fs_truncate t n s))"
| call_flush: "fs_call s (snd (fs_flush t s))"
| call_replace: "fs_call s (snd (fs_replace ctx path d n s))"
| call_remove: "fs_call s (snd (fs_remove ctx path s))"
| call_mkdir: "fs_call s (snd (fs_mkdir ctx path s))"
| call_context_initialize: "fs_call s (snd (fs_context_initialize c s))"
| call_context_clone: "fs_call s (snd (fs_context_clone c c' s))"
| call_context_chdir: "fs_call s (snd (fs_context_chdir c path s))"
| call_context_destroy: "fs_call s (snd (fs_context_destroy c s))"

inductive_cases fs_callE: "fs_call s s'"

lemma fs_start_inv: "fs_inv (fs_start b) \<and> \<not> busy (fs_start b)"
proof -
  have "refs_to (replicate n zero_reference) i = 0" for n i by (simp add: refs_to_def zero_reference_def)
  then show ?thesis
    by (simp add: fs_inv_def objects_ok_def references_ok_def mounts_ok_def reference_ok_def fs_start_def live_object_def zero_object_def)
       (simp add: zero_reference_def)
qed

lemma quiet_step: "fs_inv s \<Longrightarrow> quiet s s' \<Longrightarrow> evolves s s' \<and> busy s' = busy s"
  using evolves_quiet [of s s'] by (simp add: quiet_def)

lemma fs_initialize_evolves: "fs_inv s \<Longrightarrow> evolves s (snd (fs_initialize s)) \<and> busy (snd (fs_initialize s)) = busy s"
  using evolves_refl [of s] evolves_mounts [of s "s\<lparr>ready := True\<rparr>"]
  by (auto simp: fs_initialize_def fs_inv_def objects_ok_def references_ok_def mounts_ok_def)

lemma fs_write_quiet: "fs_write t off b n s = (x, s') \<Longrightarrow> quiet s s'"
  using io_quiet [of t off b n True s] by (auto simp: fs_write_def split: prod.splits)

lemma fs_call_evolves:
  assumes "fs_call s s'" "fs_inv s" shows "evolves s s' \<and> busy s' = busy s"
  using assms(1)
proof cases
  case (call_open ctx path acc r)
  then obtain e d where "fs_open ctx path acc r s = ((e, d), s')" by (metis prod.collapse)
  then show ?thesis using opened_evolves [OF assms(2)] fs_open_result [OF assms(2)] by blast
next
  case (call_duplicate t r)
  then obtain e d where "fs_duplicate t r s = ((e, d), s')" by (metis prod.collapse)
  then show ?thesis using opened_evolves [OF assms(2)] fs_duplicate_result [OF assms(2)] by blast
next
  case (call_context_chdir c path)
  then obtain e d where "fs_context_chdir c path s = ((e, d), s')" by (metis prod.collapse)
  then show ?thesis by (rule fs_context_chdir_evolves [OF assms(2)])
qed (use assms(2) in \<open>metis prod.collapse quiet_step fs_initialize_evolves fs_mount_disk_evolves fs_unmount_disk_evolves fs_close_evolves
       fs_stat_quiet fs_stat_path_quiet io_quiet fs_read_def fs_write_quiet fs_readdir_quiet fs_truncate_quiet fs_flush_quiet mutate_quiet fs_replace_def fs_remove_def fs_mkdir_def
       fs_context_initialize_evolves fs_context_clone_evolves fs_context_destroy_evolves\<close>)+

lemma fs_calls_evolve:
  assumes "fs_call\<^sup>*\<^sup>* s s'" "fs_inv s" shows "evolves s s' \<and> busy s' = busy s"
  using assms(1)
proof (induction rule: rtranclp_induct)
  case base
  then show ?case using evolves_refl [OF assms(2)] by simp
next
  case (step s1 s2)
  then have "fs_inv s1" by (simp add: evolves_def)
  with fs_call_evolves [OF step.hyps(2)] step.IH evolves_trans show ?case by metis
qed

section \<open>A small mounted disk\<close>

text \<open>A backend with a root directory, one file and one subdirectory; its state is the list of
  pinned identifiers.\<close>

definition demo_node :: "nat \<Rightarrow> fs_node" where
  "demo_node i = \<lparr>node_id = i, node_size = (if i = 2 then 5 else 0), node_kind = (if i = 2 then FS_FILE else FS_DIRECTORY)\<rparr>"

definition demo_tree :: fs_tree where
  "demo_tree = \<lparr>tree_root = demo_node 1,
     tree_lookup = (\<lambda>p n. if p = 1 \<and> n = ''A.TXT'' then (FS_OK, demo_node 2) else if p = 1 \<and> n = ''D'' then (FS_OK, demo_node 3)
                          else (FS_NOT_FOUND, zero_node))\<rparr>"

definition demo_operations :: "nat list fs_operations" where
  "demo_operations =
     \<lparr>op_lookup = Some (\<lambda>p n b. (tree_lookup demo_tree p n, b)), op_stat = Some (\<lambda>i b. ((FS_OK, demo_node i), b)),
      op_retain = Some (\<lambda>i b. (FS_OK, i # b)), op_release = Some (\<lambda>i b. remove1 i b),
      op_read = Some (\<lambda>i off buf n b. ((io_result_of FS_OK, buf), b)), op_write = None,
      op_replace = Some (\<lambda>p n d k b. (FS_OK, b)), op_remove = Some (\<lambda>p n b. (FS_OK, b)), op_mkdir = None,
      op_readdir = Some (\<lambda>i c b. ((FS_END, zero_entry, c), b)), op_flush = None, op_unmount = None, op_truncate = None\<rparr>"

definition demo_backend :: "nat list fs_backend" where
  "demo_backend = \<lparr>operations = Some demo_operations, backend_root = 1, naming = FS_NAMES_FAT83, backend_read_only = False\<rparr>"

definition demo_fs :: "nat list fs" where
  "demo_fs = snd (fs_mount_disk (Some demo_backend) (snd (fs_initialize (fs_start []))))"

lemma demo_fs_reached: "fs_call\<^sup>*\<^sup>* (fs_start []) demo_fs"
  unfolding demo_fs_def by (meson call_initialize call_mount rtranclp.rtrancl_into_rtrancl rtranclp.rtrancl_refl)

lemma demo_fs_inv: "fs_inv demo_fs"
  using fs_calls_evolve [OF demo_fs_reached conjunct1 [OF fs_start_inv]] by (simp add: evolves_def)

lemma demo_fs_steady: "steady_fs demo_fs (\<lambda>_. True) demo_tree"
  by (simp add: steady_fs_def steady_def demo_fs_def fs_mount_disk_def mount_backend_def fs_initialize_def fs_start_def backend_complete_def
      demo_backend_def demo_operations_def enter_def call_def leave_def backend_of_def demo_tree_def demo_node_def valid_node_def Let_def)

text \<open>Concrete runs on this disk, with the tables kept symbolic.\<close>

lemma demo_fs_eq:
  "demo_fs = (fs_start [])\<lparr>mounts := (\<lambda>_. \<lparr>backend = demo_backend, generation = 1, mounted = True\<rparr>), ready := True\<rparr>"
proof -
  have m: "(f :: fs_mount_id \<Rightarrow> 'c)(FS_MOUNT_DISK := x) = (\<lambda>_. x)" for f :: "fs_mount_id \<Rightarrow> 'c" and x by (auto simp: fun_eq_iff mount_unique [of _])
  show ?thesis
    by (simp add: demo_fs_def fs_mount_disk_def mount_backend_def fs_initialize_def fs_start_def backend_complete_def m
        demo_backend_def demo_operations_def enter_def call_def leave_def valid_node_def demo_node_def Let_def)
qed

lemma new_reference_succeeds:
  assumes "acc AND FS_WRITE = 0" "next_token s \<noteq> 0" "\<exists>r\<in>set (references s). token r = 0"
    "length (objects s) = FS_OBJECT_LIMIT" "\<exists>ob\<in>set (objects s). object_references ob = 0"
    "\<not> retained (loc_mount l) (node_id (here l)) s" "fst (the (op_retain (ops_of s (loc_mount l))) (node_id (here l)) (backend_state s)) = FS_OK"
  shows "\<exists>slot k b. new_reference l acc s = (Inr (next_token s), publish_reference l acc slot True k (s\<lparr>backend_state := b\<rparr>))"
proof -
  obtain slot e where o: "object_slots (loc_mount l) (node_id (here l)) (objects s) = (slot, e)" by fastforce
  note O = object_slots_result [OF o]
  have "slot = FS_OBJECT_LIMIT"
    using O assms(4,6) nth_mem [of slot "objects s"] by (auto simp: retained_def)
  moreover have "e \<noteq> FS_OBJECT_LIMIT"
  proof -
    obtain i where "i < FS_OBJECT_LIMIT" "object_references (objects s ! i) = 0" using assms(4,5) by (metis in_set_conv_nth)
    then show ?thesis using O by blast
  qed
  moreover obtain k where "index_of (\<lambda>r. token r = 0) (references s) = Some k" using assms(3) index_of_None by fastforce
  moreover obtain b where "the (op_retain (ops_of s (loc_mount l))) (node_id (here l)) (backend_state s) = (FS_OK, b)"
    using assms(7) by (metis prod.collapse)
  ultimately have "new_reference l acc s = (Inr (next_token s), publish_reference l acc e True k (s\<lparr>backend_state := b\<rparr>))"
    using assms(1,2) o by (simp add: new_reference_def Let_def call_def)
  then show ?thesis by blast
qed

lemma replicate_update_mem: "1 < n \<Longrightarrow> x \<in> set ((replicate n x)[k := y])"
proof -
  assume n: "1 < n"
  define j where "j = (if k = 0 then 1 else 0 :: nat)"
  have "j < n" "j \<noteq> k" using n by (auto simp: j_def)
  then have "(replicate n x)[k := y] ! j = x" by simp
  then show ?thesis using \<open>j < n\<close> by (metis length_list_update length_replicate nth_mem)
qed

lemma table_limits: "1 < FS_REFERENCE_LIMIT" "1 < FS_OBJECT_LIMIT"
  by (simp_all add: FS_OBJECT_LIMIT_def FS_REFERENCE_LIMIT_def RUM_PROCESS_LIMIT_def RUM_PROCESS_FILE_LIMIT_def)

lemma demo_parse:
  "\<exists>plan. fs_path_parse (Some ''/'') (Some ''/'') = Inr plan \<and> token_names (path_input plan) = []"
  "\<exists>plan. fs_path_parse (Some ''/'') (Some ''/d'') = Inr plan \<and> token_names (path_input plan) = [''D''] \<and> cstr (path_canonical plan) = ''/D''"
proof -
  have "case fs_path_parse (Some ''/'') (Some ''/'') of Inl _ \<Rightarrow> False | Inr plan \<Rightarrow> token_names (path_input plan) = []"
    "case fs_path_parse (Some ''/'') (Some ''/d'') of Inl _ \<Rightarrow> False
       | Inr plan \<Rightarrow> token_names (path_input plan) = [''D''] \<and> cstr (path_canonical plan) = ''/D''" by code_simp+
  then show "\<exists>plan. fs_path_parse (Some ''/'') (Some ''/'') = Inr plan \<and> token_names (path_input plan) = []"
    "\<exists>plan. fs_path_parse (Some ''/'') (Some ''/d'') = Inr plan \<and> token_names (path_input plan) = [''D''] \<and> cstr (path_canonical plan) = ''/D''"
    by (auto split: sum.splits)
qed

lemma demo_root:
  assumes "mounts s = mounts demo_fs"
  shows "root FS_MOUNT_DISK s = (Inr (location_of FS_MOUNT_DISK (demo_node 1)), s)"
  using assms by (simp add: root_def Let_def call_def ops_of_def backend_of_def demo_fs_eq demo_backend_def demo_operations_def valid_node_def demo_node_def)

lemma demo_step:
  assumes "mounts s = mounts demo_fs"
  shows "\<exists>l. step ''D'' (location_of FS_MOUNT_DISK (demo_node 1)) s = (Inr l, s) \<and> here l = demo_node 3 \<and> loc_mount l = FS_MOUNT_DISK"
  using assms by (simp add: step_def Let_def call_def ops_of_def backend_of_def demo_fs_eq demo_backend_def demo_operations_def
      demo_tree_def valid_node_def demo_node_def location_of_def here_def FS_PATH_DEPTH_def)

definition demo_opened :: "nat list fs" where
  "demo_opened = snd (fs_open None (Some ''/'') FS_READ (Some 0) demo_fs)"

lemma demo_open:
  "fs_open None (Some ''/'') FS_READ (Some 0) demo_fs = ((FS_OK, Some 1), demo_opened)"
  "\<exists>slot k b. demo_opened = leave (publish_reference (location_of FS_MOUNT_DISK (demo_node 1)) FS_READ slot True k (demo_fs\<lparr>busy := True, backend_state := b\<rparr>))"
  "reference_added demo_fs (location_of FS_MOUNT_DISK (demo_node 1)) FS_READ 1 demo_opened"
proof -
  let ?s = "demo_fs\<lparr>busy := True\<rparr>" and ?l = "location_of FS_MOUNT_DISK (demo_node 1)"
  obtain plan where plan: "fs_path_parse (Some ''/'') (Some ''/'') = Inr plan" "token_names (path_input plan) = []" using demo_parse(1) by blast
  have "tok_offsets (path_input plan) = []" using plan(2) by (simp add: token_names_def)
  then have re: "resolve_location None plan (length (tok_offsets (path_input plan))) ?s = (Inr ?l, ?s)"
    using plan(2) demo_root [of ?s] by (simp add: resolve_location_def resolve_cwd_def resolve_base_def demo_node_def)
  have en: "enter demo_fs = (FS_OK, ?s)" by (simp add: enter_def demo_fs_eq fs_start_def)
  have w: "FS_READ AND FS_WRITE = 0" "FS_READ \<noteq> 0" "FS_READ AND NOT (FS_READ OR FS_WRITE) = 0" by (simp_all add: FS_READ_def FS_WRITE_def)
  have "\<not> retained FS_MOUNT_DISK 1 ?s" by (auto simp: retained_def demo_fs_eq fs_start_def zero_object_def)
  then obtain slot k b where n: "new_reference ?l FS_READ ?s = (Inr 1, publish_reference ?l FS_READ slot True k (?s\<lparr>backend_state := b\<rparr>))"
    using new_reference_succeeds [of FS_READ ?s ?l] w table_limits
    by (auto simp: demo_fs_eq fs_start_def zero_object_def zero_reference_def demo_node_def ops_of_def backend_of_def demo_backend_def demo_operations_def)
  have o: "fs_open None (Some ''/'') FS_READ (Some 0) demo_fs = ((FS_OK, Some 1), leave (publish_reference ?l FS_READ slot True k (?s\<lparr>backend_state := b\<rparr>)))"
    using plan(1) en re n w by (simp add: fs_open_def preflight_def)
  then show "fs_open None (Some ''/'') FS_READ (Some 0) demo_fs = ((FS_OK, Some 1), demo_opened)" by (simp add: demo_opened_def)
  from o show "\<exists>slot k b. demo_opened = leave (publish_reference ?l FS_READ slot True k (demo_fs\<lparr>busy := True, backend_state := b\<rparr>))"
    by (auto simp: demo_opened_def)
  have m: "mounted (mounts ?s (loc_mount ?l))" "node_id (here ?l) \<noteq> 0" by (simp_all add: demo_fs_eq demo_node_def)
  from new_reference_bracket [where P = "\<lambda>_ _. True", OF demo_fs_inv en quiet_refl _ m TrueI n] o
  show "reference_added demo_fs ?l FS_READ 1 demo_opened" by (simp add: demo_opened_def)
qed

lemma demo_opened_inv: "fs_inv demo_opened" "mounts demo_opened = mounts demo_fs"
  "open_refs demo_opened 1 = Some \<lparr>open_mount = FS_MOUNT_DISK, open_id = 1, open_kind = FS_DIRECTORY, open_access = FS_READ\<rparr>" "next_token demo_opened = 2"
  "ready demo_opened" "\<not> busy demo_opened"
proof -
  note a = demo_open(3)
  then show "fs_inv demo_opened" "mounts demo_opened = mounts demo_fs"
    "open_refs demo_opened 1 = Some \<lparr>open_mount = FS_MOUNT_DISK, open_id = 1, open_kind = FS_DIRECTORY, open_access = FS_READ\<rparr>"
    by (auto simp: reference_added_def demo_node_def)
  have "next_token demo_fs = 1" "ready demo_fs" "\<not> busy demo_fs" by (simp_all add: demo_fs_eq fs_start_def)
  with a show "next_token demo_opened = 2" "ready demo_opened" "\<not> busy demo_opened" by (auto simp: reference_added_def)
qed

definition demo_context :: fs_context where
  "demo_context = \<lparr>directory = 1, cwd_path = ''/''\<rparr>"

lemma demo_chdir:
  "\<exists>c' s'. fs_context_chdir (Some demo_context) (Some ''/d'') demo_opened = ((FS_OK, Some c'), s') \<and> cstr (cwd_path c') = ''/D'' \<and>
     fs_inv s' \<and> mounts s' = mounts demo_fs \<and>
     (\<exists>t x. open_refs s' t = Some x \<and> open_mount x = FS_MOUNT_DISK \<and> open_id x = 3)"
proof -
  let ?s = "demo_opened\<lparr>busy := True\<rparr>"
  obtain plan where plan: "fs_path_parse (Some ''/'') (Some ''/d'') = Inr plan" "token_names (path_input plan) = [''D'']" "cstr (path_canonical plan) = ''/D''"
    using demo_parse(2) by blast
  note N = plan_names [OF plan(1)]
  have pf: "preflight (Some demo_context) (Some ''/d'') = Inr plan" using plan(1) by (simp add: preflight_def demo_context_def cstr_def)
  have en: "enter demo_opened = (FS_OK, ?s)" using demo_opened_inv by (simp add: enter_def)
  obtain slot k b where d: "demo_opened = leave (publish_reference (location_of FS_MOUNT_DISK (demo_node 1)) FS_READ slot True k (demo_fs\<lparr>busy := True, backend_state := b\<rparr>))"
    using demo_open(2) by blast
  have v: "tables ?s = tables demo_opened" by simp
  obtain i where i: "find_reference 1 ?s = Some i" "object_kind (object_of i ?s) = FS_DIRECTORY"
    using demo_opened_inv(3) unfolding tables_view(3,4) [OF v] by (auto simp: open_refs_def)
  obtain l where l: "step ''D'' (location_of FS_MOUNT_DISK (demo_node 1)) ?s = (Inr l, ?s)" "here l = demo_node 3" "loc_mount l = FS_MOUNT_DISK"
    using demo_step [of ?s] demo_opened_inv(2) by auto
  have re: "resolve_location (Some demo_context) plan (length (tok_offsets (path_input plan))) ?s = (Inr l, ?s)"
    using i l N demo_root [of ?s] demo_opened_inv(2) plan(2)
    by (simp add: resolve_location_def resolve_cwd_def demo_context_def resolve_base_def demo_node_def)
  have objs: "objects ?s = (replicate FS_OBJECT_LIMIT zero_object)[slot := \<lparr>object_id = 1, object_references = 1, object_mount = FS_MOUNT_DISK, object_kind = FS_DIRECTORY\<rparr>]"
    "references ?s = (replicate FS_REFERENCE_LIMIT zero_reference)[k := \<lparr>token = 1, ref_object = slot, access = FS_READ\<rparr>]"
    by (simp_all add: d leave_def publish_reference_def zero_object_def demo_node_def demo_fs_eq fs_start_def Let_def)
  have "\<not> retained FS_MOUNT_DISK 3 ?s"
    using set_update_subset_insert [of "replicate FS_OBJECT_LIMIT zero_object" slot "\<lparr>object_id = 1, object_references = 1, object_mount = FS_MOUNT_DISK, object_kind = FS_DIRECTORY\<rparr>"]
    unfolding retained_def objs by (auto simp: zero_object_def)
  moreover have "\<exists>r\<in>set (references ?s). token r = 0"
    unfolding objs by (rule bexI [OF _ replicate_update_mem [OF table_limits(1)]]) (simp add: zero_reference_def)
  moreover have "\<exists>ob\<in>set (objects ?s). object_references ob = 0"
    unfolding objs by (rule bexI [OF _ replicate_update_mem [OF table_limits(2)]]) (simp add: zero_object_def)
  moreover have "length (objects ?s) = FS_OBJECT_LIMIT" by (simp only: objs length_list_update length_replicate)
  ultimately obtain slot' k' b' where n: "new_reference l FS_READ ?s = (Inr 2, publish_reference l FS_READ slot' True k' (?s\<lparr>backend_state := b'\<rparr>))"
    using new_reference_succeeds [of FS_READ ?s l] l demo_opened_inv(2,4)
    by (auto simp: FS_READ_def FS_WRITE_def demo_node_def ops_of_def backend_of_def demo_fs_eq demo_backend_def demo_operations_def)
  have k3: "node_kind (here l) = FS_DIRECTORY" using l by (simp add: demo_node_def)
  obtain c' s' where op: "fs_context_chdir (Some demo_context) (Some ''/d'') demo_opened = ((FS_OK, Some c'), s')" "c' = \<lparr>directory = 2, cwd_path = path_canonical plan\<rparr>"
    using pf en re n k3 by (simp add: fs_context_chdir_def)
  obtain s1 where r: "reference_added demo_opened l FS_READ 2 s1" "fs_inv s'" "open_refs s' = (open_refs s1)(1 := None)" "mounts s' = mounts demo_opened"
    using fs_context_chdir_result [OF demo_opened_inv(1) op(1)] op(2) pf re by (auto simp: demo_context_def)
  then have "open_refs s' 2 = Some \<lparr>open_mount = FS_MOUNT_DISK, open_id = 3, open_kind = FS_DIRECTORY, open_access = FS_READ\<rparr>"
    using l by (simp add: reference_added_def demo_node_def)
  then have "\<exists>t x. open_refs s' t = Some x \<and> open_mount x = FS_MOUNT_DISK \<and> open_id x = 3" by (intro exI [of _ 2] exI conjI) auto
  then show ?thesis using op r(2,4) demo_opened_inv(2) plan(3) by auto
qed

section \<open>Properties\<close>

text \<open>C4: from an empty layer, any sequence of public calls with any arguments over any backend
  leads to consistent tables: every count equals the number of references to its object, open
  objects are distinct, tokens are distinct and below the next one, references that may write
  name files, and the entry lock is free.\<close>

theorem fs_reachable_invariant:
  assumes "fs_call\<^sup>*\<^sup>* (fs_start b) s" shows "fs_inv s \<and> \<not> busy s"
  using fs_calls_evolve [OF assms] fs_start_inv [of b] by (auto simp: evolves_def)

theorem fs_reachable_invariant_witness: "fs_inv demo_fs \<and> \<not> busy demo_fs"
  by (rule fs_reachable_invariant [OF demo_fs_reached])



text \<open>C33: a successful open returns a fresh token for the resolved node with exactly the rights
  asked for, never write access to a directory, and leaves every other token alone; a failed open
  leaves all tokens alone and stores no token.\<close>

theorem fs_open_correct:
  assumes "fs_inv s" and "fs_open ctx path acc (Some r0) s = ((e, r), s')"
  shows "fs_inv s' \<and> busy s' = busy s \<and>
    (if e = FS_OK
     then \<exists>t x. r = Some t \<and> t \<noteq> 0 \<and> open_refs s t = None \<and> open_refs s' = (open_refs s)(t \<mapsto> x) \<and> open_access x = acc \<and>
            (acc AND FS_WRITE \<noteq> 0 \<longrightarrow> open_kind x = FS_FILE)
     else (r = Some 0 \<or> r = Some r0) \<and> open_refs s' = open_refs s)"
proof (cases "e = FS_OK")
  case True
  then obtain l t where a: "r = Some t" "reference_added s l acc t s'" using fs_open_result [OF assms] by (auto simp: opened_def)
  define x where "x = \<lparr>open_mount = loc_mount l, open_id = node_id (here l), open_kind = node_kind (here l), open_access = acc\<rparr>"
  have "open_refs s' t = Some x" and inv': "fs_inv s'" using a(2) by (simp_all add: reference_added_def x_def)
  then have "acc AND FS_WRITE \<noteq> 0 \<longrightarrow> open_kind x = FS_FILE"
    using find_reference_live(6) [OF inv'] by (auto simp: open_refs_def x_def)
  then show ?thesis using True a by (auto simp: reference_added_def x_def)
next
  case False
  have "r = Some 0 \<or> r = Some r0"
    using assms(2) False by (auto simp: fs_open_def Let_def split: if_splits sum.splits prod.splits)
  moreover have "quiet s s'" using fs_open_result [OF assms] False by (simp add: opened_def)
  ultimately show ?thesis using False assms(1) tables_view [of s' s] by (simp add: quiet_def)
qed

theorem fs_open_correct_witness:
  "\<exists>s' x. fs_open None (Some ''/'') FS_READ (Some 0) demo_fs = ((FS_OK, Some 1), s') \<and> fs_inv s' \<and>
     open_refs s' = (open_refs demo_fs)(1 \<mapsto> x) \<and> open_access x = FS_READ"
  using fs_open_correct [OF demo_fs_inv demo_open(1)] demo_open(1) by auto

text \<open>C36: opening a path and closing the token restores the map of open tokens, and a second close
  of the same token is refused.\<close>

theorem fs_open_close_roundtrip:
  assumes "fs_inv s" and "fs_open ctx path acc r0 s = ((FS_OK, Some t), s1)" and "fs_close t s1 = (e, s2)"
  shows "e = FS_OK \<and> open_refs s2 = open_refs s \<and> fs_inv s2 \<and> fst (fs_close t s2) \<noteq> FS_OK"
proof -
  obtain l where a: "reference_added s l acc t s1" using fs_open_result [OF assms(1,2)] by (auto simp: opened_def)
  have en: "ready s \<and> \<not> busy s"
    using assms(2) preflight_ok [of ctx path] by (auto simp: fs_open_def enter_def Let_def split: if_splits sum.splits prod.splits)
  then have o: "ready s1" "\<not> busy s1" "open_refs s1 t \<noteq> None" "(open_refs s1)(t := None) = open_refs s" "fs_inv s1"
    using a by (auto simp: reference_added_def fun_eq_iff)
  have c: "e = FS_OK" "fs_inv s2" "open_refs s2 = (open_refs s1)(t := None)" using fs_close_result [OF o(5) assms(3)] o(1-3) by auto
  have "fst (fs_close t s2) \<noteq> FS_OK"
    using fs_close_result [OF c(2), of t "fst (fs_close t s2)" "snd (fs_close t s2)"] c(3) by (simp split: if_splits)
  with c o(4) show ?thesis by simp
qed

theorem fs_open_close_roundtrip_witness:
  "\<exists>s2. fs_open None (Some ''/'') FS_READ (Some 0) demo_fs = ((FS_OK, Some 1), demo_opened) \<and> fs_close 1 demo_opened = (FS_OK, s2) \<and>
     open_refs s2 = open_refs demo_fs"
proof -
  obtain e s2 where c: "fs_close 1 demo_opened = (e, s2)" by fastforce
  from fs_open_close_roundtrip [OF demo_fs_inv demo_open(1) c] demo_open(1) c show ?thesis by auto
qed



text \<open>C35: a read or write never reports more bytes than asked for, whatever the backend claims. When
  the token is unknown, lacks the right, names a directory, or the backend is read-only for a
  write, the call fails with nothing transferred, the buffer as it was and the backend not called.\<close>

theorem fs_io_guarded:
  assumes "fs_inv s" and "io t offset buffer bytes write s = ((r, b), s')"
  shows "transferred r \<le> bytes \<and> open_refs s' = open_refs s \<and>
    (\<not> (\<exists>x. open_refs s t = Some x \<and> open_access x AND (if write then FS_WRITE else FS_READ) \<noteq> 0 \<and> open_kind x = FS_FILE \<and>
            \<not> (write \<and> backend_read_only (backend_of s (open_mount x)))) \<longrightarrow>
       io_error r \<noteq> FS_OK \<and> transferred r = 0 \<and> b = buffer \<and> backend_state s' = backend_state s)"
proof -
  obtain e s1 where en: "enter s = (e, s1)" by fastforce
  have bs: "backend_state s1 = backend_state s" "tables s1 = tables s" using enter_cases [OF en] by auto
  have q: "open_refs s' = open_refs s" using io_quiet [OF assms(2)] tables_view(2) [of s' s] by (simp add: quiet_def)
  have "transferred r \<le> bytes" using assms(2) by (auto simp: io_def io_result_of_def Let_def split: if_splits option.splits prod.splits)
  moreover have "io_error r \<noteq> FS_OK \<and> transferred r = 0 \<and> b = buffer \<and> backend_state s' = backend_state s"
    if g: "\<not> (\<exists>x. open_refs s t = Some x \<and> open_access x AND (if write then FS_WRITE else FS_READ) \<noteq> 0 \<and> open_kind x = FS_FILE \<and>
            \<not> (write \<and> backend_read_only (backend_of s (open_mount x))))"
  proof (cases "find_reference t s1")
    case None
    then show ?thesis using assms(2) en bs enter_cases [OF en] by (auto simp: io_def io_result_of_def leave_def split: if_splits)
  next
    case (Some i)
    then have "open_refs s t = Some \<lparr>open_mount = object_mount (object_of i s1), open_id = object_id (object_of i s1),
        open_kind = object_kind (object_of i s1), open_access = access (references s1 ! i)\<rparr>"
      using open_refs_found [OF Some] tables_view(2) [OF bs(2)] by simp
    with g tables_view(10) [OF bs(2), of "object_mount (object_of i s1)"] show ?thesis
      using assms(2) en Some bs enter_cases [OF en] by (auto simp: io_def io_result_of_def leave_def Let_def split: if_splits)
  qed
  ultimately show ?thesis using q by blast
qed

theorem fs_io_guarded_witness:
  "io_error (fst (fst (io 1 0 (Some [1, 2]) 2 True demo_fs))) \<noteq> FS_OK \<and>
   backend_state (snd (io 1 0 (Some [1, 2]) 2 True demo_fs)) = backend_state demo_fs"
proof -
  obtain r b s' where e: "io 1 0 (Some [1, 2]) 2 True demo_fs = ((r, b), s')" by (metis prod.exhaust)
  have "open_refs demo_fs 1 = None" using demo_open(3) by (simp add: reference_added_def)
  then show ?thesis using fs_io_guarded [OF demo_fs_inv e] e by simp
qed

text \<open>C34: an object that is open cannot be replaced or removed: when the name looked up denotes an
  object with references, the call fails and the backend sees the lookup and nothing else.\<close>

theorem fs_mutation_protects_open:
  assumes "fs_inv s" and "mutate_at action dir name data n parent s = (e, s')"
    and "the (op_lookup (ops_of s (loc_mount parent))) (node_id (here parent)) name (backend_state s) = ((FS_OK, node), b1)"
    and "open_refs s t = Some x" and "open_mount x = loc_mount parent" and "open_id x = node_id node"
  shows "e \<noteq> FS_OK \<and> backend_state s' \<in> {backend_state s, b1} \<and> open_refs s' = open_refs s"
proof -
  have c: "call (the (op_lookup (ops_of s (loc_mount parent))) (node_id (here parent)) name) s = ((FS_OK, node), s\<lparr>backend_state := b1\<rparr>)"
    using assms(3) by (simp add: call_def)
  obtain i where i: "find_reference t s = Some i" "object_mount (object_of i s) = loc_mount parent" "object_id (object_of i s) = node_id node"
    using assms(4-6) by (auto simp: open_refs_def)
  have "objects_ok s" using assms(1) by (simp add: fs_inv_def)
  then have "retained (loc_mount parent) (node_id node) s"
    using retained_slot [of s "ref_object (references s ! i)"] find_reference_live(1,2) [OF assms(1) i(1)] i by (simp add: object_of_def)
  then have "retained (loc_mount parent) (node_id node) (s\<lparr>backend_state := b1\<rparr>)" by (simp add: retained_def)
  then have "mutation_check action dir (loc_mount parent) FS_OK node (s\<lparr>backend_state := b1\<rparr>) \<noteq> FS_OK" by (simp add: mutation_check_def Let_def)
  then have "e \<noteq> FS_OK \<and> backend_state s' \<in> {backend_state s, b1}"
    using assms(2) c by (auto simp: mutate_at_def Let_def split: if_splits)
  moreover have "open_refs s' = open_refs s" using mutate_at_quiet [OF assms(2)] tables_view(2) [of s' s] by (simp add: quiet_def)
  ultimately show ?thesis by blast
qed

theorem fs_mutation_protects_open_witness:
  "\<exists>(s :: nat list fs) e s'. mutate_at REMOVE False ''D'' None 0 (location_of FS_MOUNT_DISK (demo_node 1)) s = (e, s') \<and> fs_inv s \<and> e \<noteq> FS_OK"
proof -
  obtain s t x where s: "fs_inv s" "mounts s = mounts demo_fs" "open_refs s t = Some x" "open_mount x = FS_MOUNT_DISK" "open_id x = 3"
    using demo_chdir by blast
  obtain e s' where m: "mutate_at REMOVE False ''D'' None 0 (location_of FS_MOUNT_DISK (demo_node 1)) s = (e, s')" by fastforce
  have "the (op_lookup (ops_of s FS_MOUNT_DISK)) 1 ''D'' (backend_state s) = ((FS_OK, demo_node 3), backend_state s)"
    using s(2) by (simp add: ops_of_def backend_of_def demo_fs_eq demo_backend_def demo_operations_def demo_tree_def)
  then have "e \<noteq> FS_OK" using fs_mutation_protects_open [OF s(1) m _ s(3)] s(4,5) by (simp add: demo_node_def)
  then show ?thesis using m s(1) by blast
qed

end
