(* ===== verification/Rum_Fat16.thy ===== *)
theory Rum_Fat16
  imports Rum_Fs Rum_Block
begin

text \<open>
  The reading half of the FAT16 backend, \<open>kernel/fs/fat16.c\<close> and \<open>kernel/fs/fat16-internal.h\<close>: the
  volume state, the sector cache, the cluster chains of the cached FAT, directory slots and short
  names, file reading, and mounting. The state is \<open>struct fat16_volume\<close> together with the block
  layer behind its device pointer; the table \<open>ops\<close> is the device's \<open>operations\<close> field.

  A function that returns \<open>FS_OK\<close> and an out-parameter returns \<open>Inr\<close> of the out-parameter, one that
  fails returns \<open>Inl\<close> of its error. \<open>kmalloc n bytes\<close> is the answer of the heap to the \<open>n\<close>-th request:
  the contents of the new block, or \<open>None\<close>; the number of requests made so far is part of the state.
  The local \<open>started\<close> that a running mutation passes to its helpers by address is the field
  \<open>vol_started\<close>.
\<close>

section \<open>Limits and volume state\<close>

definition FAT16_SECTOR_SIZE :: nat where "FAT16_SECTOR_SIZE = 512"
definition FAT16_FAT_SECTOR_LIMIT :: nat where "FAT16_FAT_SECTOR_LIMIT = 256"
definition FAT16_CLUSTER_SECTOR_LIMIT :: nat where "FAT16_CLUSTER_SECTOR_LIMIT = 64"
definition FAT16_DIRECTORY_ENTRY_LIMIT :: nat where "FAT16_DIRECTORY_ENTRY_LIMIT = 65536"
definition FAT16_WRITE_ENTRY_LIMIT :: nat where "FAT16_WRITE_ENTRY_LIMIT = 65536"

definition ROOT_ID :: nat where "ROOT_ID = 1"
definition ENTRY_BYTES :: nat where "ENTRY_BYTES = 32"
definition ENTRIES_PER_SECTOR :: nat where "ENTRIES_PER_SECTOR = FAT16_SECTOR_SIZE div ENTRY_BYTES"
definition FIRST_RESERVED :: nat where "FIRST_RESERVED = 0xfff0"
definition FIRST_END :: nat where "FIRST_END = 0xfff8"
definition MAX_CLUSTERS :: nat where "MAX_CLUSTERS = 65524"

lemmas fat16_limits = FAT16_SECTOR_SIZE_def FAT16_FAT_SECTOR_LIMIT_def FAT16_CLUSTER_SECTOR_LIMIT_def
  FAT16_DIRECTORY_ENTRY_LIMIT_def FAT16_WRITE_ENTRY_LIMIT_def ROOT_ID_def ENTRY_BYTES_def
  ENTRIES_PER_SECTOR_def FIRST_RESERVED_def FIRST_END_def MAX_CLUSTERS_def

record fat16_information =
  fi_sectors :: nat
  fi_clusters :: nat
  fi_cluster_bytes :: nat
  fi_fat_start :: nat
  fi_fat_sectors :: nat
  fi_root_start :: nat
  fi_root_entries :: nat
  fi_data_start :: nat
  fi_mounted :: bool
  fi_writable :: bool
  fi_faulted :: bool

definition zero_fat16_information :: fat16_information where
  "zero_fat16_information =
     \<lparr>fi_sectors = 0, fi_clusters = 0, fi_cluster_bytes = 0, fi_fat_start = 0, fi_fat_sectors = 0, fi_root_start = 0,
      fi_root_entries = 0, fi_data_start = 0, fi_mounted = False, fi_writable = False, fi_faulted = False\<rparr>"

record pin =
  pin_id :: nat
  pin_count :: nat

record description =
  desc_node :: fs_node
  desc_first :: nat
  desc_length :: nat

definition zero_description :: description where
  "zero_description = \<lparr>desc_node = zero_node, desc_first = 0, desc_length = 0\<rparr>"

definition root_description :: description where
  "root_description = zero_description\<lparr>desc_node := \<lparr>node_id = ROOT_ID, node_size = 0, node_kind = FS_DIRECTORY\<rparr>\<rparr>"

definition BITMAP_BYTES :: nat where "BITMAP_BYTES = (MAX_CLUSTERS + 2 + 7) div 8"

record 'd fat16_volume =
  vol_layer :: "'d block_layer"
  vol_info :: fat16_information
  vol_fat :: "u8 list"
  vol_sector :: "u8 list"
  vol_visited :: "u8 list"
  vol_owners :: "u8 list"
  vol_pins :: "pin list"
  vol_last_io :: fs_io_result
  vol_cached_sector :: nat
  vol_ready :: bool
  vol_busy :: bool
  vol_cache_valid :: bool
  vol_audited :: bool
  vol_started :: bool
  vol_heap_calls :: nat

text \<open>\<open>memset\<close> of the whole volume; the device and the heap are not part of it.\<close>

definition zero_volume :: "'d fat16_volume \<Rightarrow> 'd fat16_volume" where
  "zero_volume v =
     v\<lparr>vol_info := zero_fat16_information, vol_fat := [], vol_sector := replicate FAT16_SECTOR_SIZE 0,
       vol_visited := replicate BITMAP_BYTES 0, vol_owners := replicate BITMAP_BYTES 0,
       vol_pins := replicate FS_OBJECT_LIMIT \<lparr>pin_id = 0, pin_count = 0\<rparr>, vol_last_io := io_result_of FS_OK,
       vol_cached_sector := 0, vol_ready := False, vol_busy := False, vol_cache_valid := False,
       vol_audited := False, vol_started := False\<rparr>"

section \<open>Bytes and results\<close>

definition u16_at :: "u8 list \<Rightarrow> nat \<Rightarrow> nat" where
  "u16_at p i = unat (p ! i) + 256 * unat (p ! (i + 1))"

definition u32_at :: "u8 list \<Rightarrow> nat \<Rightarrow> nat" where
  "u32_at p i = u16_at p i + 65536 * u16_at p (i + 2)"

text \<open>Continue with the value of a step that succeeded.\<close>

definition on_value :: "(fs_error + 'a) \<times> 's \<Rightarrow> ('a \<Rightarrow> 's \<Rightarrow> (fs_error + 'b) \<times> 's) \<Rightarrow> (fs_error + 'b) \<times> 's" where
  "on_value r k = (case fst r of Inl error \<Rightarrow> (Inl error, snd r) | Inr x \<Rightarrow> k x (snd r))"

lemma on_value_Inr: "on_value r k = (Inr y, s') \<longleftrightarrow> (\<exists>x s. r = (Inr x, s) \<and> k x s = (Inr y, s'))"
  by (cases r) (auto simp: on_value_def split: sum.splits)

lemma on_value_simps [simp]: "on_value (Inl e, s) k = (Inl e, s)" "on_value (Inr x, s) k = k x s"
  by (simp_all add: on_value_def)

definition fs_status :: "fs_error \<Rightarrow> fs_error + unit" where
  "fs_status error = (if error = FS_OK then Inr () else Inl error)"

definition fs_error_of :: "fs_error + 'a \<Rightarrow> fs_error" where
  "fs_error_of r = (case r of Inl error \<Rightarrow> error | Inr _ \<Rightarrow> FS_OK)"

definition device_result :: "block_result \<Rightarrow> nat \<Rightarrow> 'd fat16_volume \<Rightarrow> (fs_error + unit) \<times> 'd fat16_volume" where
  "device_result r expected v =
     (let error = (if br_error r = BLOCK_OK \<and> br_completed r \<noteq> expected then FS_IO_ERROR else fs_error_from_block (br_error r))
      in (fs_status error,
          v\<lparr>vol_last_io := \<lparr>io_error = error, transferred = 0, io_device_status = br_status r, io_device_error = br_device_error r\<rparr>\<rparr>))"

section \<open>Sectors and clusters\<close>

definition fat16_read_sectors ::
  "'d block_operations option \<Rightarrow> nat \<Rightarrow> nat \<Rightarrow> u8 list \<Rightarrow> 'd fat16_volume \<Rightarrow> ((fs_error + unit) \<times> u8 list) \<times> 'd fat16_volume" where
  "fat16_read_sectors ops sec count buffer v =
     (if sec \<ge> fi_sectors (vol_info v) \<or> count > fi_sectors (vol_info v) - sec then ((Inl FS_RANGE, buffer), v)
      else
        (let (r, b, l) = block_read ops sec count (Some buffer) (count * FAT16_SECTOR_SIZE) (vol_layer v);
             (error, v1) = device_result r count (v\<lparr>vol_layer := l\<rparr>)
         in ((error, the b), v1)))"

definition fat16_sector :: "'d block_operations option \<Rightarrow> nat \<Rightarrow> 'd fat16_volume \<Rightarrow> (fs_error + unit) \<times> 'd fat16_volume" where
  "fat16_sector ops number v =
     (if vol_cache_valid v \<and> number = vol_cached_sector v then (Inr (), v)
      else
        (let v1 = v\<lparr>vol_cache_valid := False\<rparr>;
             ((error, b), v2) = fat16_read_sectors ops number 1 (vol_sector v1) v1;
             v3 = v2\<lparr>vol_sector := b\<rparr>
         in (error, if error = Inr () then v3\<lparr>vol_cached_sector := number, vol_cache_valid := True\<rparr> else v3)))"

definition fat16_valid_cluster :: "fat16_information \<Rightarrow> nat \<Rightarrow> bool" where
  "fat16_valid_cluster info cluster \<longleftrightarrow> cluster \<ge> 2 \<and> cluster < FIRST_RESERVED \<and> cluster \<le> fi_clusters info + 1"

definition fat16_next_cluster :: "u8 list \<Rightarrow> nat \<Rightarrow> nat" where
  "fat16_next_cluster fat cluster = u16_at fat (cluster * 2)"

text \<open>The bitmaps \<open>visited\<close> and \<open>owners\<close>, one bit for each cluster.\<close>

definition cluster_bit :: "u8 list \<Rightarrow> nat \<Rightarrow> bool" where
  "cluster_bit bm cluster \<longleftrightarrow> bm ! (cluster div 8) AND push_bit (cluster mod 8) 1 \<noteq> 0"

definition cluster_set :: "u8 list \<Rightarrow> nat \<Rightarrow> u8 list" where
  "cluster_set bm cluster = bm[cluster div 8 := bm ! (cluster div 8) OR push_bit (cluster mod 8) 1]"

text \<open>The loop of \<open>fat16_chain\<close> with \<open>n\<close> rounds left; \<open>count\<close> is the number of the round.\<close>

fun chain_loop :: "nat \<Rightarrow> nat \<Rightarrow> nat \<Rightarrow> 'd fat16_volume \<Rightarrow> (fs_error + nat) \<times> 'd fat16_volume" where
  "chain_loop 0 count cluster v = (Inl FS_IO_ERROR, v)"
| "chain_loop (Suc n) count cluster v =
     (if \<not> fat16_valid_cluster (vol_info v) cluster then (Inl FS_IO_ERROR, v)
      else if cluster_bit (vol_visited v) cluster then (Inl FS_IO_ERROR, v)
      else
        (let v1 = v\<lparr>vol_visited := cluster_set (vol_visited v) cluster\<rparr>;
             nxt = fat16_next_cluster (vol_fat v1) cluster
         in if nxt \<ge> FIRST_END then (Inr count, v1)
            else if \<not> fat16_valid_cluster (vol_info v1) nxt then (Inl FS_IO_ERROR, v1)
            else chain_loop n (count + 1) nxt v1))"

definition fat16_chain :: "nat \<Rightarrow> 'd fat16_volume \<Rightarrow> (fs_error + nat) \<times> 'd fat16_volume" where
  "fat16_chain first v =
     chain_loop (fi_clusters (vol_info v)) 1 first (v\<lparr>vol_visited := replicate BITMAP_BYTES 0\<rparr>)"

definition fat16_slot_offset :: "fat16_information \<Rightarrow> nat \<Rightarrow> nat option" where
  "fat16_slot_offset info ident =
     (if ident < 2 \<or> ident - 2 > UINT64_MAX div ENTRY_BYTES then None
      else
        (let bytes = (ident - 2) * ENTRY_BYTES;
             start = fi_root_start info * FAT16_SECTOR_SIZE;
             data = fi_data_start info * FAT16_SECTOR_SIZE;
             end0 = data + fi_clusters info * fi_cluster_bytes info
         in if \<not> ((bytes \<ge> start \<and> bytes - start < fi_root_entries info * ENTRY_BYTES) \<or> (bytes \<ge> data \<and> bytes < end0))
            then None else Some bytes))"

fun fat16_cluster_from :: "u8 list \<Rightarrow> nat \<Rightarrow> nat \<Rightarrow> nat" where
  "fat16_cluster_from fat cluster 0 = cluster"
| "fat16_cluster_from fat cluster (Suc index) = fat16_cluster_from fat (fat16_next_cluster fat cluster) index"

definition fat16_cluster_at :: "u8 list \<Rightarrow> description \<Rightarrow> nat \<Rightarrow> nat" where
  "fat16_cluster_at fat d index = fat16_cluster_from fat (desc_first d) index"

text \<open>Unsigned 32-bit arithmetic: subtracting 2 is adding \<open>2 ^ 32 - 2\<close>.\<close>

definition fat16_cluster_sector :: "fat16_information \<Rightarrow> nat \<Rightarrow> nat" where
  "fat16_cluster_sector info cluster =
     (fi_data_start info + (cluster + 4294967294) * (fi_cluster_bytes info div FAT16_SECTOR_SIZE)) mod 4294967296"

section \<open>Directory entries\<close>

fun trim_count :: "u8 list \<Rightarrow> nat \<Rightarrow> nat \<Rightarrow> nat" where
  "trim_count entry start 0 = 0"
| "trim_count entry start (Suc count) = (if entry ! (start + count) = 0x20 then trim_count entry start count else Suc count)"

definition name_byte :: "u8 \<Rightarrow> u8" where
  "name_byte c = (if c \<ge> 0x61 \<and> c \<le> 0x7A then c - 0x20 else c)"

fun name_part :: "u8 list \<Rightarrow> string \<Rightarrow> fs_error + string" where
  "name_part [] name = Inr name"
| "name_part (c # cs) name =
     (if c = 0x20 \<or> c = 0 then Inl FS_IO_ERROR else name_part cs (name @ [char_of (unat (name_byte c))]))"

definition short_name :: "u8 list \<Rightarrow> fs_error + string" where
  "short_name entry =
     (let base = trim_count entry 0 8; extension = trim_count entry 8 3 in
      if base = 0 then Inl FS_IO_ERROR
      else
        (case name_part (take base entry) [] of
           Inl error \<Rightarrow> Inl error
         | Inr name \<Rightarrow>
             (case name_part (take extension (drop 8 entry)) (if extension \<noteq> 0 then name @ ''.'' else name) of
                Inl error \<Rightarrow> Inl error
              | Inr full \<Rightarrow> if fs_name_check FS_NAMES_FAT83 (Some full) = FS_OK then Inr full else Inl FS_NOT_FOUND)))"

definition entry_kind_of :: "u8 list \<Rightarrow> fs_kind" where
  "entry_kind_of entry = (if entry ! 11 AND 0x10 \<noteq> 0 then FS_DIRECTORY else FS_FILE)"

definition entry_description :: "u8 list \<Rightarrow> nat \<Rightarrow> description" where
  "entry_description entry ident =
     \<lparr>desc_node = \<lparr>node_id = ident, node_size = u32_at entry 28, node_kind = entry_kind_of entry\<rparr>,
      desc_first = u16_at entry 26, desc_length = 0\<rparr>"

text \<open>The checks of \<open>fat16_decode\<close> on the clusters of an entry.\<close>

definition decode_clusters :: "description \<Rightarrow> 'd fat16_volume \<Rightarrow> (fs_error + description) \<times> 'd fat16_volume" where
  "decode_clusters d v =
     (let size = node_size (desc_node d); cb = fi_cluster_bytes (vol_info v) in
      if node_kind (desc_node d) = FS_DIRECTORY then
        (if size \<noteq> 0 then (Inl FS_IO_ERROR, v)
         else on_value (fat16_chain (desc_first d) v)
                (\<lambda>len v1. if len * cb div ENTRY_BYTES > FAT16_DIRECTORY_ENTRY_LIMIT then (Inl FS_UNSUPPORTED, v1)
                          else (Inr (d\<lparr>desc_length := len\<rparr>), v1)))
      else if size = 0 then (if desc_first d \<noteq> 0 then Inl FS_IO_ERROR else Inr d, v)
      else
        (let required = (size + cb - 1) div cb in
         if required > fi_clusters (vol_info v) then (Inl FS_IO_ERROR, v)
         else on_value (fat16_chain (desc_first d) v)
                (\<lambda>len v1. (if len = required then Inr (d\<lparr>desc_length := len\<rparr>) else Inl FS_IO_ERROR, v1))))"

definition fat16_decode :: "u8 list \<Rightarrow> nat \<Rightarrow> 'd fat16_volume \<Rightarrow> (fs_error + description \<times> string) \<times> 'd fat16_volume" where
  "fat16_decode entry ident v =
     (if entry ! 0 = 0 then (Inl FS_END, v)
      else if entry ! 0 = 0xe5 \<or> entry ! 11 AND 8 \<noteq> 0 then (Inl FS_NOT_FOUND, v)
      else if entry ! 0 = 0x2E \<and> entry ! 1 = 0x20 then (Inl FS_NOT_FOUND, v)
      else if entry ! 0 = 0x2E \<and> entry ! 1 = 0x2E \<and> entry ! 2 = 0x20 then (Inl FS_NOT_FOUND, v)
      else
        (case short_name entry of
           Inl error \<Rightarrow> (Inl error, v)
         | Inr name \<Rightarrow>
             if entry ! 11 AND 0xc0 \<noteq> 0 \<or> u16_at entry 20 \<noteq> 0 then (Inl FS_IO_ERROR, v)
             else on_value (decode_clusters (entry_description entry ident) v) (\<lambda>d v1. (Inr (d, name), v1))))"

text \<open>The entry at a byte offset of the cached sector.\<close>

definition sector_entry :: "nat \<Rightarrow> 'd fat16_volume \<Rightarrow> u8 list" where
  "sector_entry offset v = take ENTRY_BYTES (drop (offset mod FAT16_SECTOR_SIZE) (vol_sector v))"

definition fat16_describe :: "'d block_operations option \<Rightarrow> nat \<Rightarrow> 'd fat16_volume \<Rightarrow> (fs_error + description) \<times> 'd fat16_volume" where
  "fat16_describe ops ident v =
     (if \<not> vol_ready v then (Inl FS_UNAVAILABLE, v)
      else if fi_faulted (vol_info v) then (Inl FS_IO_ERROR, v)
      else if ident = ROOT_ID then (Inr root_description, v)
      else
        (case fat16_slot_offset (vol_info v) ident of
           None \<Rightarrow> (Inl FS_RANGE, v)
         | Some offset \<Rightarrow>
             on_value (fat16_sector ops (offset div FAT16_SECTOR_SIZE) v)
               (\<lambda>_ v1.
                  case fat16_decode (sector_entry offset v1) ident v1 of
                    (Inl error, v2) \<Rightarrow> (Inl (if error = FS_END then FS_NOT_FOUND else error), v2)
                  | (Inr (d, _), v2) \<Rightarrow> (Inr d, v2))))"

definition fat16_directory_slots :: "fat16_information \<Rightarrow> description \<Rightarrow> nat" where
  "fat16_directory_slots info d =
     (if node_id (desc_node d) = ROOT_ID then fi_root_entries info
      else desc_length d * fi_cluster_bytes info div ENTRY_BYTES)"

definition fat16_directory_slot :: "description \<Rightarrow> nat \<Rightarrow> 'd fat16_volume \<Rightarrow> fs_error + nat" where
  "fat16_directory_slot d cursor v =
     (let info = vol_info v in
      if cursor \<ge> fat16_directory_slots info d then Inl FS_END
      else if node_id (desc_node d) = ROOT_ID
      then Inr ((fi_root_start info + cursor div ENTRIES_PER_SECTOR) * ENTRIES_PER_SECTOR + cursor mod ENTRIES_PER_SECTOR + 2)
      else
        (let per_cluster = fi_cluster_bytes info div ENTRY_BYTES;
             cluster = fat16_cluster_at (vol_fat v) d (cursor div per_cluster);
             within = cursor mod per_cluster;
             number = fat16_cluster_sector info cluster + within div ENTRIES_PER_SECTOR
         in Inr (number * ENTRIES_PER_SECTOR + within mod ENTRIES_PER_SECTOR + 2)))"

definition fat16_directory_entry ::
  "'d block_operations option \<Rightarrow> description \<Rightarrow> nat \<Rightarrow> 'd fat16_volume \<Rightarrow> (fs_error + description \<times> string) \<times> 'd fat16_volume" where
  "fat16_directory_entry ops d cursor v =
     (case fat16_directory_slot d cursor v of
        Inl error \<Rightarrow> (Inl error, v)
      | Inr ident \<Rightarrow>
          (case fat16_slot_offset (vol_info v) ident of
             None \<Rightarrow> (Inl FS_RANGE, v)
           | Some offset \<Rightarrow>
               on_value (fat16_sector ops (offset div FAT16_SECTOR_SIZE) v)
                 (\<lambda>_ v1. fat16_decode (sector_entry offset v1) ident v1)))"

section \<open>Backend operations\<close>

text \<open>The scan of a directory for a name, with \<open>n\<close> slots left.\<close>

fun lookup_loop :: "'d block_operations option \<Rightarrow> description \<Rightarrow> string \<Rightarrow> nat \<Rightarrow> nat \<Rightarrow> 'd fat16_volume \<Rightarrow> (fs_error + fs_node) \<times> 'd fat16_volume" where
  "lookup_loop ops d name 0 cursor v = (Inl FS_NOT_FOUND, v)"
| "lookup_loop ops d name (Suc n) cursor v =
     (case fat16_directory_entry ops d cursor v of
        (Inl error, v1) \<Rightarrow>
          if error = FS_END then (Inl FS_NOT_FOUND, v1)
          else if error = FS_NOT_FOUND then lookup_loop ops d name n (cursor + 1) v1
          else (Inl error, v1)
      | (Inr (entry, decoded), v1) \<Rightarrow>
          if c_equal decoded name then (Inr (desc_node entry), v1) else lookup_loop ops d name n (cursor + 1) v1)"

definition fat16_lookup :: "'d block_operations option \<Rightarrow> nat \<Rightarrow> string \<Rightarrow> 'd fat16_volume \<Rightarrow> (fs_error + fs_node) \<times> 'd fat16_volume" where
  "fat16_lookup ops parent name v =
     on_value (fat16_describe ops parent v)
       (\<lambda>d v1. if node_kind (desc_node d) \<noteq> FS_DIRECTORY then (Inl FS_NOT_DIRECTORY, v1)
               else lookup_loop ops d name (fat16_directory_slots (vol_info v1) d) 0 v1)"

definition fat16_stat_node :: "'d block_operations option \<Rightarrow> nat \<Rightarrow> 'd fat16_volume \<Rightarrow> (fs_error + fs_node) \<times> 'd fat16_volume" where
  "fat16_stat_node ops ident v = on_value (fat16_describe ops ident v) (\<lambda>d v1. (Inr (desc_node d), v1))"

text \<open>The scan of the pins: the pinned slot of \<open>ident\<close>, which ends the scan, or the first empty slot.\<close>

definition pin_slot :: "nat \<Rightarrow> pin list \<Rightarrow> nat option" where
  "pin_slot ident ps = index_of (\<lambda>p. pin_count p \<noteq> 0 \<and> pin_id p = ident) ps"

definition fat16_retain :: "nat \<Rightarrow> 'd fat16_volume \<Rightarrow> fs_error \<times> 'd fat16_volume" where
  "fat16_retain ident v =
     (if \<not> vol_ready v then (FS_UNAVAILABLE, v)
      else if ident \<noteq> ROOT_ID \<and> fat16_slot_offset (vol_info v) ident = None then (FS_RANGE, v)
      else
        (case pin_slot ident (vol_pins v) of
           Some i \<Rightarrow>
             (let p = vol_pins v ! i in
              if pin_count p = UINT32_MAX then (FS_NO_SPACE, v)
              else (FS_OK, v\<lparr>vol_pins := (vol_pins v)[i := p\<lparr>pin_count := pin_count p + 1\<rparr>]\<rparr>))
         | None \<Rightarrow>
             (case index_of (\<lambda>p. pin_count p = 0) (vol_pins v) of
                None \<Rightarrow> (FS_NO_SPACE, v)
              | Some i \<Rightarrow> (FS_OK, v\<lparr>vol_pins := (vol_pins v)[i := \<lparr>pin_id = ident, pin_count = 1\<rparr>]\<rparr>))))"

definition fat16_release :: "nat \<Rightarrow> 'd fat16_volume \<Rightarrow> 'd fat16_volume" where
  "fat16_release ident v =
     (case pin_slot ident (vol_pins v) of
        None \<Rightarrow> v
      | Some i \<Rightarrow>
          (let p = vol_pins v ! i in v\<lparr>vol_pins := (vol_pins v)[i := p\<lparr>pin_count := pin_count p - 1\<rparr>]\<rparr>))"

text \<open>The copying loop of \<open>read_file\<close>; \<open>moved\<close> is \<open>result.transferred\<close>.\<close>

function read_loop ::
  "'d block_operations option \<Rightarrow> nat \<Rightarrow> nat \<Rightarrow> nat \<Rightarrow> nat \<Rightarrow> u8 list \<Rightarrow> 'd fat16_volume \<Rightarrow>
     (fs_error \<times> nat \<times> u8 list) \<times> 'd fat16_volume" where
  "read_loop ops bytes moved offset cluster data v =
     (if moved < bytes then
        (let cb = fi_cluster_bytes (vol_info v);
             within = offset mod cb;
             number = fat16_cluster_sector (vol_info v) cluster + within div FAT16_SECTOR_SIZE;
             (error, v1) = fat16_sector ops number v
         in if error \<noteq> Inr () then ((fs_error_of error, moved, data), v1)
            else
              (let amount = min (FAT16_SECTOR_SIZE - within mod FAT16_SECTOR_SIZE) (bytes - moved);
                   data1 = blit data moved (take amount (drop (within mod FAT16_SECTOR_SIZE) (vol_sector v1)))
               in read_loop ops bytes (moved + amount) (offset + amount)
                    (if (offset + amount) mod cb = 0 \<and> moved + amount < bytes
                     then fat16_next_cluster (vol_fat v1) cluster else cluster) data1 v1))
      else ((FS_OK, moved, data), v))"
  by pat_completeness auto
termination
  by (relation "measure (\<lambda>(_, bytes, moved, _). bytes - moved)") (auto simp: FAT16_SECTOR_SIZE_def)

declare read_loop.simps [simp del]

definition fat16_read_file ::
  "'d block_operations option \<Rightarrow> nat \<Rightarrow> nat \<Rightarrow> u8 list \<Rightarrow> nat \<Rightarrow> 'd fat16_volume \<Rightarrow> (fs_io_result \<times> u8 list) \<times> 'd fat16_volume" where
  "fat16_read_file ops ident offset data bytes v =
     (let (r, v1) = fat16_describe ops ident (v\<lparr>vol_last_io := io_result_of FS_OK\<rparr>);
          ((error, moved, data1), v2) =
            (case r of
               Inl error \<Rightarrow> ((error, 0, data), v1)
             | Inr d \<Rightarrow>
                 if node_kind (desc_node d) \<noteq> FS_FILE then ((FS_IS_DIRECTORY, 0, data), v1)
                 else if offset < node_size (desc_node d) then
                   read_loop ops (min bytes (node_size (desc_node d) - offset)) 0 offset
                     (fat16_cluster_at (vol_fat v1) d (offset div fi_cluster_bytes (vol_info v1))) data v1
                 else ((FS_OK, 0, data), v1))
      in ((if error \<noteq> FS_OK
           then \<lparr>io_error = error, transferred = moved, io_device_status = io_device_status (vol_last_io v2),
                 io_device_error = io_device_error (vol_last_io v2)\<rparr>
           else (io_result_of FS_OK)\<lparr>transferred := moved\<rparr>, data1), v2))"

text \<open>The scan of \<open>readdir\<close>, with \<open>n\<close> slots left.\<close>

fun readdir_loop :: "'d block_operations option \<Rightarrow> description \<Rightarrow> nat \<Rightarrow> nat \<Rightarrow> 'd fat16_volume \<Rightarrow> (fs_error + fs_entry \<times> nat) \<times> 'd fat16_volume" where
  "readdir_loop ops d 0 cursor v = (Inl FS_END, v)"
| "readdir_loop ops d (Suc n) cursor v =
     (case fat16_directory_entry ops d cursor v of
        (Inl error, v1) \<Rightarrow> if error = FS_NOT_FOUND then readdir_loop ops d n (cursor + 1) v1 else (Inl error, v1)
      | (Inr (entry, name), v1) \<Rightarrow>
          (Inr (\<lparr>entry_name = name, entry_kind = node_kind (desc_node entry), entry_size = node_size (desc_node entry)\<rparr>, cursor + 1), v1))"

definition fat16_readdir_node :: "'d block_operations option \<Rightarrow> nat \<Rightarrow> nat \<Rightarrow> 'd fat16_volume \<Rightarrow> (fs_error + fs_entry \<times> nat) \<times> 'd fat16_volume" where
  "fat16_readdir_node ops ident cursor v =
     on_value (fat16_describe ops ident v)
       (\<lambda>d v1. if node_kind (desc_node d) \<noteq> FS_DIRECTORY then (Inl FS_NOT_DIRECTORY, v1)
               else readdir_loop ops d (fat16_directory_slots (vol_info v1) d - cursor) cursor v1)"

definition fat16_detach :: "'d fat16_volume \<Rightarrow> 'd fat16_volume" where
  "fat16_detach v = (zero_volume v)\<lparr>vol_busy := vol_busy v\<rparr>"

end
