(* ===== verification/Rum_Fat16_Write.thy ===== *)
theory Rum_Fat16_Write
  imports Rum_Fat16
begin

text \<open>
  The writing half of the FAT16 backend, \<open>kernel/fs/fat16-write.c\<close>: sector writes and flushes, the
  two FAT copies, the ownership audit that precedes the first mutation, the search for a directory
  slot, cluster allocation, and the mutations. A mutation that fails after its first device write
  leaves the volume faulted.
\<close>

section \<open>Entries and device writes\<close>

record target =
  t_directory :: description
  t_old :: description
  t_id :: nat
  t_cursor :: nat
  t_entry :: "u8 list"
  t_exists :: bool
  t_end :: bool
  t_grow :: bool
  t_long_name :: bool

definition zero_target :: target where
  "zero_target =
     \<lparr>t_directory = zero_description, t_old = zero_description, t_id = 0, t_cursor = 0,
      t_entry = replicate ENTRY_BYTES 0, t_exists = False, t_end = False, t_grow = False, t_long_name = False\<rparr>"

definition put16 :: "u8 list \<Rightarrow> nat \<Rightarrow> nat \<Rightarrow> u8 list" where
  "put16 p i n = blit p i (bytes_le 2 n)"

definition put32 :: "u8 list \<Rightarrow> nat \<Rightarrow> nat \<Rightarrow> u8 list" where
  "put32 p i n = put16 (put16 p i n) (i + 2) (n div 65536)"

definition set_cluster :: "u8 list \<Rightarrow> nat \<Rightarrow> nat \<Rightarrow> u8 list" where
  "set_cluster fat cluster nxt = put16 fat (cluster * 2) nxt"

definition pinned :: "nat \<Rightarrow> 'd fat16_volume \<Rightarrow> bool" where
  "pinned ident v \<longleftrightarrow> (\<exists>p\<in>set (vol_pins v). pin_count p \<noteq> 0 \<and> pin_id p = ident)"

definition entry_read :: "'d block_operations option \<Rightarrow> nat \<Rightarrow> 'd fat16_volume \<Rightarrow> (fs_error + u8 list) \<times> 'd fat16_volume" where
  "entry_read ops ident v =
     (case fat16_slot_offset (vol_info v) ident of
        None \<Rightarrow> (Inl FS_RANGE, v)
      | Some offset \<Rightarrow> on_value (fat16_sector ops (offset div FAT16_SECTOR_SIZE) v) (\<lambda>_ v1. (Inr (sector_entry offset v1), v1)))"

definition finish :: "(fs_error + unit) \<times> 'd fat16_volume \<Rightarrow> bool \<Rightarrow> (fs_error + unit) \<times> 'd fat16_volume" where
  "finish r begun =
     (let v = snd r in
      (fst r, if fst r \<noteq> Inr () \<and> begun
              then v\<lparr>vol_info := (vol_info v)\<lparr>fi_faulted := True, fi_writable := False\<rparr>, vol_cache_valid := False\<rparr> else v))"

definition write_sector :: "'d block_operations option \<Rightarrow> nat \<Rightarrow> u8 list \<Rightarrow> 'd fat16_volume \<Rightarrow> (fs_error + unit) \<times> 'd fat16_volume" where
  "write_sector ops sec data v =
     (if sec < fi_fat_start (vol_info v) \<or> sec \<ge> fi_sectors (vol_info v) then (Inl FS_RANGE, v)
      else if dev_read_only (device (vol_layer v)) then (Inl FS_READ_ONLY, v)
      else
        (let v1 = v\<lparr>vol_started := True, vol_cache_valid := False\<rparr>;
             (r, l) = block_write ops sec 1 (Some data) FAT16_SECTOR_SIZE (vol_layer v1)
         in device_result r 1 (v1\<lparr>vol_layer := l\<rparr>)))"

definition flush_device :: "'d block_operations option \<Rightarrow> 'd fat16_volume \<Rightarrow> (fs_error + unit) \<times> 'd fat16_volume" where
  "flush_device ops v = (let (r, l) = block_flush ops (vol_layer v) in device_result r 0 (v\<lparr>vol_layer := l\<rparr>))"

definition entry_write :: "'d block_operations option \<Rightarrow> nat \<Rightarrow> u8 list \<Rightarrow> 'd fat16_volume \<Rightarrow> (fs_error + unit) \<times> 'd fat16_volume" where
  "entry_write ops ident entry v =
     (case fat16_slot_offset (vol_info v) ident of
        None \<Rightarrow> (Inl FS_RANGE, v)
      | Some offset \<Rightarrow>
          on_value (fat16_sector ops (offset div FAT16_SECTOR_SIZE) v)
            (\<lambda>_ v1. write_sector ops (offset div FAT16_SECTOR_SIZE) (blit (vol_sector v1) (offset mod FAT16_SECTOR_SIZE) entry) v1))"

section \<open>Publishing the FAT\<close>

definition fat_window :: "u8 list \<Rightarrow> nat \<Rightarrow> u8 list" where
  "fat_window fat i = take FAT16_SECTOR_SIZE (drop (i * FAT16_SECTOR_SIZE) fat)"

text \<open>One copy, with \<open>n\<close> sectors left; the result says whether a sector was written.\<close>

fun persist_loop :: "'d block_operations option \<Rightarrow> nat \<Rightarrow> u8 list \<Rightarrow> nat \<Rightarrow> nat \<Rightarrow> bool \<Rightarrow> 'd fat16_volume \<Rightarrow> (fs_error + bool) \<times> 'd fat16_volume" where
  "persist_loop ops start fat 0 i changed v = (Inr changed, v)"
| "persist_loop ops start fat (Suc n) i changed v =
     (if fat_window fat i = fat_window (vol_fat v) i then persist_loop ops start fat n (i + 1) changed v
      else on_value (write_sector ops (start + i) (fat_window fat i) v)
             (\<lambda>_ v1. persist_loop ops start fat n (i + 1) True v1))"

definition persist_copy :: "'d block_operations option \<Rightarrow> nat \<Rightarrow> u8 list \<Rightarrow> 'd fat16_volume \<Rightarrow> (fs_error + unit) \<times> 'd fat16_volume" where
  "persist_copy ops copy fat v =
     (let info = vol_info v in
      on_value (persist_loop ops (fi_fat_start info + copy * fi_fat_sectors info) fat (fi_fat_sectors info) 0 False v)
        (\<lambda>changed v1. if changed then flush_device ops v1 else (Inr (), v1)))"

definition persist_fat :: "'d block_operations option \<Rightarrow> u8 list \<Rightarrow> 'd fat16_volume \<Rightarrow> (fs_error + unit) \<times> 'd fat16_volume" where
  "persist_fat ops fat v =
     on_value (persist_copy ops 0 fat v)
       (\<lambda>_ v1. on_value (persist_copy ops 1 fat v1)
          (\<lambda>_ v2. (Inr (), v2\<lparr>vol_fat := blit (vol_fat v2) 0 (take (fi_fat_sectors (vol_info v2) * FAT16_SECTOR_SIZE) fat)\<rparr>)))"

section \<open>The ownership audit\<close>

fun own_loop :: "nat \<Rightarrow> nat \<Rightarrow> 'd fat16_volume \<Rightarrow> (fs_error + unit) \<times> 'd fat16_volume" where
  "own_loop 0 cluster v = (Inr (), v)"
| "own_loop (Suc n) cluster v =
     (if cluster_bit (vol_owners v) cluster then (Inl FS_IO_ERROR, v)
      else own_loop n (fat16_next_cluster (vol_fat v) cluster) (v\<lparr>vol_owners := cluster_set (vol_owners v) cluster\<rparr>))"

definition own_chain :: "nat \<Rightarrow> nat \<Rightarrow> 'd fat16_volume \<Rightarrow> (fs_error + unit) \<times> 'd fat16_volume" where
  "own_chain first len v = own_loop len first v"

definition dot :: "u8 list \<Rightarrow> bool \<Rightarrow> bool" where
  "dot entry parent \<longleftrightarrow>
     entry ! 0 = 0x2E \<and> entry ! 1 = (if parent then 0x2E else 0x20) \<and> (\<forall>i\<in>set [2..<11]. entry ! i = 0x20)"

text \<open>What a slot of an audited directory asks for: nothing, the end of the directory, or the check of
  a file or directory it names.\<close>

datatype audit_verdict = Audit_Skip | Audit_End | Audit_Child description

definition audit_entry :: "description \<Rightarrow> nat \<Rightarrow> nat \<Rightarrow> nat \<Rightarrow> u8 list \<Rightarrow> fs_error + audit_verdict" where
  "audit_entry d parent cursor ident entry =
     (if node_id (desc_node d) \<noteq> ROOT_ID \<and> cursor < 2 then
        (let expected = (if cursor \<noteq> 0 then parent else desc_first d) in
         if \<not> dot entry (cursor \<noteq> 0) \<or> entry ! 11 \<noteq> 0x10 \<or> u16_at entry 20 \<noteq> 0 \<or>
            u16_at entry 26 \<noteq> expected \<or> u32_at entry 28 \<noteq> 0
         then Inl FS_IO_ERROR else Inr Audit_Skip)
      else if entry ! 0 = 0 then Inr Audit_End
      else if entry ! 0 = 0xe5 \<or> entry ! 11 = 0x0f then Inr Audit_Skip
      else if entry ! 11 AND 8 \<noteq> 0 then
        (if entry ! 11 \<noteq> 8 \<or> u16_at entry 20 \<noteq> 0 \<or> u16_at entry 26 \<noteq> 0 \<or> u32_at entry 28 \<noteq> 0
         then Inl FS_IO_ERROR else Inr Audit_Skip)
      else if dot entry False \<or> dot entry True \<or> entry ! 11 AND 0xc0 \<noteq> 0 \<or> u16_at entry 20 \<noteq> 0 then Inl FS_IO_ERROR
      else
        (let child = entry_description entry ident in
         if node_kind (desc_node child) = FS_FILE \<and> node_size (desc_node child) = 0
         then (if desc_first child \<noteq> 0 then Inl FS_IO_ERROR else Inr Audit_Skip)
         else Inr (Audit_Child child)))"

text \<open>The chain of a child: its shape and its exclusive ownership.\<close>

definition audit_child :: "description \<Rightarrow> 'd fat16_volume \<Rightarrow> (fs_error + description) \<times> 'd fat16_volume" where
  "audit_child child v =
     on_value (fat16_chain (desc_first child) v)
       (\<lambda>len v1.
          let cb = fi_cluster_bytes (vol_info v1); sz = node_size (desc_node child) in
          if node_kind (desc_node child) = FS_DIRECTORY \<and> sz \<noteq> 0 then (Inl FS_IO_ERROR, v1)
          else if node_kind (desc_node child) = FS_DIRECTORY \<and> len * cb div ENTRY_BYTES > FAT16_DIRECTORY_ENTRY_LIMIT
          then (Inl FS_UNSUPPORTED, v1)
          else if node_kind (desc_node child) \<noteq> FS_DIRECTORY \<and> (sz + cb - 1) div cb \<noteq> len then (Inl FS_IO_ERROR, v1)
          else on_value (own_chain (desc_first child) len v1) (\<lambda>_ v2. (Inr (child\<lparr>desc_length := len\<rparr>), v2)))"

definition slot_read :: "'d block_operations option \<Rightarrow> description \<Rightarrow> nat \<Rightarrow> 'd fat16_volume \<Rightarrow> (fs_error + nat \<times> u8 list) \<times> 'd fat16_volume" where
  "slot_read ops d cursor v =
     (case fat16_directory_slot d cursor v of
        Inl error \<Rightarrow> (Inl error, v)
      | Inr ident \<Rightarrow> on_value (entry_read ops ident v) (\<lambda>entry v1. (Inr (ident, entry), v1)))"

text \<open>The body of the audit loop before it descends: the remaining budget and the verdict.\<close>

definition audit_slot ::
  "'d block_operations option \<Rightarrow> description \<Rightarrow> nat \<Rightarrow> nat \<Rightarrow> nat \<Rightarrow> 'd fat16_volume \<Rightarrow> (fs_error + audit_verdict) \<times> 'd fat16_volume" where
  "audit_slot ops d parent cursor budget v =
     (if budget = 0 then (Inl FS_UNSUPPORTED, v)
      else on_value (slot_read ops d cursor v)
             (\<lambda>(ident, entry) v1.
                case audit_entry d parent cursor ident entry of
                  Inl error \<Rightarrow> (Inl error, v1)
                | Inr (Audit_Child child) \<Rightarrow> on_value (audit_child child v1) (\<lambda>c v2. (Inr (Audit_Child c), v2))
                | Inr verdict \<Rightarrow> (Inr verdict, v1)))"

text \<open>The audit loop. Depth and slot count are fixed when a directory is entered; the value returned
  is the budget left.\<close>

function audit_loop ::
  "'d block_operations option \<Rightarrow> description \<Rightarrow> nat \<Rightarrow> nat \<Rightarrow> nat \<Rightarrow> nat \<Rightarrow> nat \<Rightarrow> 'd fat16_volume \<Rightarrow> (fs_error + nat) \<times> 'd fat16_volume" where
  "audit_loop ops d parent depth0 count cursor budget v =
     (if depth0 > FS_PATH_DEPTH then (Inl FS_TOO_DEEP, v)
      else if cursor < count then
        (case audit_slot ops d parent cursor budget v of
           (Inl error, v1) \<Rightarrow> (Inl error, v1)
         | (Inr Audit_End, v1) \<Rightarrow> (Inr (budget - 1), v1)
         | (Inr Audit_Skip, v1) \<Rightarrow> audit_loop ops d parent depth0 count (cursor + 1) (budget - 1) v1
         | (Inr (Audit_Child child), v1) \<Rightarrow>
             if node_kind (desc_node child) = FS_DIRECTORY then
               (case audit_loop ops child (if node_id (desc_node d) \<noteq> ROOT_ID then desc_first d else 0) (depth0 + 1)
                       (fat16_directory_slots (vol_info v1) child) 0 (budget - 1) v1 of
                  (Inl error, v2) \<Rightarrow> (Inl error, v2)
                | (Inr budget1, v2) \<Rightarrow> audit_loop ops d parent depth0 count (cursor + 1) budget1 v2)
             else audit_loop ops d parent depth0 count (cursor + 1) (budget - 1) v1)
      else (Inr budget, v))"
  by pat_completeness auto
termination
  by (relation "measures [\<lambda>(_, _, _, depth0, _). Suc FS_PATH_DEPTH - depth0, \<lambda>(_, _, _, _, count, cursor, _). count - cursor]") auto

declare audit_loop.simps [simp del]

definition audit_directory :: "'d block_operations option \<Rightarrow> description \<Rightarrow> nat \<Rightarrow> nat \<Rightarrow> nat \<Rightarrow> 'd fat16_volume \<Rightarrow> (fs_error + nat) \<times> 'd fat16_volume" where
  "audit_directory ops d parent depth0 budget v =
     audit_loop ops d parent depth0 (fat16_directory_slots (vol_info v) d) 0 budget v"

definition fat16_writable :: "'d block_operations option \<Rightarrow> 'd fat16_volume \<Rightarrow> (fs_error + unit) \<times> 'd fat16_volume" where
  "fat16_writable ops v =
     (if \<not> vol_ready v then (Inl FS_UNAVAILABLE, v)
      else if fi_faulted (vol_info v) then (Inl FS_IO_ERROR, v)
      else if \<not> fi_writable (vol_info v) \<or> dev_read_only (device (vol_layer v)) then (Inl FS_READ_ONLY, v)
      else if \<not> vol_audited v then
        on_value (audit_directory ops root_description 0 0 FAT16_WRITE_ENTRY_LIMIT (v\<lparr>vol_owners := replicate BITMAP_BYTES 0\<rparr>))
          (\<lambda>_ v1. (Inr (), v1\<lparr>vol_audited := True\<rparr>))
      else (Inr (), v))"

section \<open>Finding a slot\<close>

text \<open>One round of the scan of \<open>find_target\<close>: it goes on with the first reusable slot, the long-name mark
  and the target so far, or it stops with the target, the reusable slot and whether an end marker was
  met. A target that exists was found.\<close>

datatype find_verdict = Find_Next nat bool target | Find_Stop target nat bool

definition find_step ::
  "'d block_operations option \<Rightarrow> string \<Rightarrow> nat \<Rightarrow> nat \<Rightarrow> nat \<Rightarrow> bool \<Rightarrow> target \<Rightarrow> 'd fat16_volume \<Rightarrow>
     (fs_error + find_verdict) \<times> 'd fat16_volume" where
  "find_step ops name count cursor reusable long_name t v =
     on_value (slot_read ops (t_directory t) cursor v)
       (\<lambda>(ident, entry) v1.
          if entry ! 0 = 0xe5 \<or> entry ! 0 = 0 then
            (if long_name then (Inl FS_UNSUPPORTED, v1)
             else
               (let first = (reusable = count);
                    reusable1 = (if first then cursor else reusable);
                    t1 = (if first then t\<lparr>t_id := ident, t_end := entry ! 0 = 0\<rparr> else t)
                in (Inr (if entry ! 0 = 0 then Find_Stop t1 reusable1 True else Find_Next reusable1 False t1), v1)))
          else if entry ! 11 = 0x0f then (Inr (Find_Next reusable True t), v1)
          else
            (case fat16_decode entry ident v1 of
               (Inl error, v2) \<Rightarrow> (if error \<noteq> FS_NOT_FOUND then Inl error else Inr (Find_Next reusable False t), v2)
             | (Inr (old, decoded), v2) \<Rightarrow>
                 (Inr (if c_equal decoded name
                       then Find_Stop (t\<lparr>t_old := old, t_exists := True, t_id := ident, t_cursor := cursor,
                                         t_long_name := long_name, t_entry := entry\<rparr>) reusable False
                       else Find_Next reusable False t), v2)))"

text \<open>The scan, with \<open>n\<close> slots left.\<close>

fun find_loop ::
  "'d block_operations option \<Rightarrow> string \<Rightarrow> nat \<Rightarrow> nat \<Rightarrow> nat \<Rightarrow> nat \<Rightarrow> bool \<Rightarrow> target \<Rightarrow> 'd fat16_volume \<Rightarrow>
     (fs_error + target \<times> nat \<times> bool) \<times> 'd fat16_volume" where
  "find_loop ops name count 0 cursor reusable long_name t v = (Inr (t, reusable, False), v)"
| "find_loop ops name count (Suc n) cursor reusable long_name t v =
     on_value (find_step ops name count cursor reusable long_name t v)
       (\<lambda>verdict v1.
          case verdict of
            Find_Stop t1 reusable1 ended \<Rightarrow> (Inr (t1, reusable1, ended), v1)
          | Find_Next reusable1 long_name1 t1 \<Rightarrow> find_loop ops name count n (cursor + 1) reusable1 long_name1 t1 v1)"

definition find_target :: "'d block_operations option \<Rightarrow> nat \<Rightarrow> string \<Rightarrow> 'd fat16_volume \<Rightarrow> (fs_error + target) \<times> 'd fat16_volume" where
  "find_target ops parent name v =
     on_value (fat16_describe ops parent v)
       (\<lambda>d v1.
          if node_kind (desc_node d) \<noteq> FS_DIRECTORY then (Inl FS_NOT_DIRECTORY, v1)
          else
            (let count = fat16_directory_slots (vol_info v1) d in
             on_value (find_loop ops name count count 0 count False (zero_target\<lparr>t_directory := d\<rparr>) v1)
               (\<lambda>(t, reusable, ended) v2.
                  if t_exists t then (Inr t, v2)
                  else
                    (let grow0 = (reusable = count \<and> \<not> ended) in
                     if grow0 \<and> parent = ROOT_ID then (Inl FS_NO_SPACE, v2)
                     else if grow0 \<and> count + fi_cluster_bytes (vol_info v2) div ENTRY_BYTES > FAT16_DIRECTORY_ENTRY_LIMIT
                     then (Inl FS_NO_SPACE, v2)
                     else (Inr (t\<lparr>t_cursor := reusable, t_grow := grow0\<rparr>), v2)))))"

section \<open>Clusters and entries\<close>

definition fat_copy :: "(nat \<Rightarrow> nat \<Rightarrow> u8 list option) \<Rightarrow> 'd fat16_volume \<Rightarrow> u8 list option \<times> 'd fat16_volume" where
  "fat_copy kmalloc v =
     (let bytes = fi_fat_sectors (vol_info v) * FAT16_SECTOR_SIZE
      in (map_option (\<lambda>b. blit b 0 (take bytes (vol_fat v))) (kmalloc (vol_heap_calls v) bytes),
          v\<lparr>vol_heap_calls := vol_heap_calls v + 1\<rparr>))"

text \<open>The search for free clusters, with \<open>n\<close> clusters left to look at; the result is the FAT, the
  first cluster and the number still missing.\<close>

fun allocate_from :: "fat16_information \<Rightarrow> nat \<Rightarrow> nat \<Rightarrow> nat \<Rightarrow> nat \<Rightarrow> nat \<Rightarrow> u8 list \<Rightarrow> u8 list \<times> nat \<times> nat" where
  "allocate_from info 0 cluster count first last0 fat = (fat, first, count)"
| "allocate_from info (Suc n) cluster count first last0 fat =
     (if count = 0 then (fat, first, count)
      else if \<not> fat16_valid_cluster info cluster \<or> u16_at fat (cluster * 2) \<noteq> 0
      then allocate_from info n (cluster + 1) count first last0 fat
      else
        allocate_from info n (cluster + 1) (count - 1) (if last0 \<noteq> 0 then first else cluster) cluster
          (set_cluster (if last0 \<noteq> 0 then set_cluster fat last0 cluster else fat) cluster 0xffff))"

definition fat16_allocate :: "fat16_information \<Rightarrow> u8 list \<Rightarrow> nat \<Rightarrow> (fs_error + nat) \<times> u8 list" where
  "fat16_allocate info fat count =
     (let (fat1, first, missing) = allocate_from info (fi_clusters info) 2 count 0 0 fat
      in (if missing \<noteq> 0 then Inl FS_NO_SPACE else Inr first, fat1))"

text \<open>The links are read from the cached FAT while the copy is cleared.\<close>

fun free_from :: "u8 list \<Rightarrow> nat \<Rightarrow> nat \<Rightarrow> u8 list \<Rightarrow> u8 list" where
  "free_from cached 0 cluster fat = fat"
| "free_from cached (Suc n) cluster fat =
     free_from cached n (fat16_next_cluster cached cluster) (set_cluster fat cluster 0)"

definition free_chain :: "u8 list \<Rightarrow> description \<Rightarrow> 'd fat16_volume \<Rightarrow> u8 list" where
  "free_chain fat old v = free_from (vol_fat v) (desc_length old) (desc_first old) fat"

fun entry_name_loop :: "string \<Rightarrow> nat \<Rightarrow> u8 list \<Rightarrow> u8 list" where
  "entry_name_loop [] offset entry = entry"
| "entry_name_loop (c # cs) offset entry =
     (if c = CHR ''.'' then entry_name_loop cs 8 entry
      else entry_name_loop cs (offset + 1) (blit entry offset [of_char c]))"

definition stamp_entry :: "nat \<Rightarrow> u8 list \<Rightarrow> u8 list" where
  "stamp_entry base entry = put16 (put16 (put16 entry (base + 16) 0x21) (base + 18) 0x21) (base + 24) 0x21"

definition make_entry :: "string \<Rightarrow> bool \<Rightarrow> nat \<Rightarrow> nat \<Rightarrow> u8 list" where
  "make_entry name is_directory first sz =
     (let entry = entry_name_loop name 0 (blit (replicate ENTRY_BYTES 0) 0 (replicate 11 0x20));
          stamped = stamp_entry 0 (entry[11 := if is_directory then 0x10 else 0x20])
      in put32 (put16 stamped 26 first) 28 sz)"

text \<open>The first sector of a new directory, and the other sectors of a cleared cluster.\<close>

definition directory_sector :: "nat \<Rightarrow> nat \<Rightarrow> u8 list" where
  "directory_sector self parent =
     (let data = replicate FAT16_SECTOR_SIZE 0;
          one = put16 ((blit data 0 (replicate 11 0x20))[0 := 0x2E, 11 := 0x10]) 26 self;
          two = put16 ((blit one ENTRY_BYTES (replicate 11 0x20))[ENTRY_BYTES := 0x2E, ENTRY_BYTES + 1 := 0x2E, ENTRY_BYTES + 11 := 0x10])
                  (ENTRY_BYTES + 26) parent
      in if self \<noteq> 0 then stamp_entry ENTRY_BYTES (stamp_entry 0 two) else data)"

fun zero_loop :: "'d block_operations option \<Rightarrow> nat \<Rightarrow> nat \<Rightarrow> nat \<Rightarrow> u8 list \<Rightarrow> 'd fat16_volume \<Rightarrow> (fs_error + unit) \<times> 'd fat16_volume" where
  "zero_loop ops cluster 0 i data v = (Inr (), v)"
| "zero_loop ops cluster (Suc n) i data v =
     on_value (write_sector ops (fat16_cluster_sector (vol_info v) cluster + i) data v)
       (\<lambda>_ v1. zero_loop ops cluster n (i + 1) (if i = 0 then replicate FAT16_SECTOR_SIZE 0 else data) v1)"

definition zero_cluster :: "'d block_operations option \<Rightarrow> nat \<Rightarrow> nat \<Rightarrow> nat \<Rightarrow> 'd fat16_volume \<Rightarrow> (fs_error + unit) \<times> 'd fat16_volume" where
  "zero_cluster ops cluster self parent v =
     zero_loop ops cluster (fi_cluster_bytes (vol_info v) div FAT16_SECTOR_SIZE) 0 (directory_sector self parent) v"

text \<open>The slot of a directory's new cluster.\<close>

definition grown_id :: "fat16_information \<Rightarrow> nat \<Rightarrow> nat" where
  "grown_id info cluster = fat16_cluster_sector info cluster * ENTRIES_PER_SECTOR + 2"

definition grow_directory ::
  "'d block_operations option \<Rightarrow> target \<Rightarrow> u8 list \<Rightarrow> 'd fat16_volume \<Rightarrow> (fs_error + target \<times> u8 list) \<times> 'd fat16_volume" where
  "grow_directory ops t fat v =
     (if \<not> t_grow t then (Inr (t, fat), v)
      else
        (case fat16_allocate (vol_info v) fat 1 of
           (Inl error, _) \<Rightarrow> (Inl error, v)
         | (Inr cluster, fat1) \<Rightarrow>
             (let last0 = fat16_cluster_at (vol_fat v) (t_directory t) (desc_length (t_directory t) - 1)
              in on_value (zero_cluster ops cluster 0 0 v)
                   (\<lambda>_ v1. (Inr (t\<lparr>t_id := grown_id (vol_info v) cluster\<rparr>, set_cluster fat1 last0 cluster), v1)))))"

text \<open>The slot after a consumed end marker is made the new end marker before the entry is written.\<close>

definition publish_end :: "'d block_operations option \<Rightarrow> target \<Rightarrow> 'd fat16_volume \<Rightarrow> (fs_error + unit) \<times> 'd fat16_volume" where
  "publish_end ops t v =
     (if t_end t \<and> t_cursor t + 1 < fat16_directory_slots (vol_info v) (t_directory t) then
        on_value (slot_read ops (t_directory t) (t_cursor t + 1) v)
          (\<lambda>(nxt, following) v1.
             if following ! 0 \<noteq> 0 then
               on_value (entry_write ops nxt (replicate ENTRY_BYTES 0) v1) (\<lambda>_ v2. flush_device ops v2)
             else (Inr (), v1))
      else (Inr (), v))"

definition publish :: "'d block_operations option \<Rightarrow> target \<Rightarrow> u8 list \<Rightarrow> 'd fat16_volume \<Rightarrow> (fs_error + unit) \<times> 'd fat16_volume" where
  "publish ops t entry v =
     on_value (publish_end ops t v)
       (\<lambda>_ v1. on_value (entry_write ops (t_id t) entry v1) (\<lambda>_ v2. flush_device ops v2))"

section \<open>Contents\<close>

text \<open>One sector of the new contents: old bytes, then the patch, limited to the size.\<close>

definition patch_sector :: "nat \<Rightarrow> nat \<Rightarrow> nat \<Rightarrow> u8 list \<Rightarrow> nat \<Rightarrow> u8 list \<Rightarrow> u8 list" where
  "patch_sector base sz offset patch bytes data =
     (let start = max base offset;
          end0 = min (min (base + FAT16_SECTOR_SIZE) (offset + bytes)) sz
      in if end0 > start then blit data (start - base) (take (end0 - start) (drop (start - offset) patch)) else data)"

definition old_sector ::
  "'d block_operations option \<Rightarrow> description \<Rightarrow> nat \<Rightarrow> nat \<Rightarrow> nat \<Rightarrow> nat \<Rightarrow> bool \<Rightarrow> 'd fat16_volume \<Rightarrow> (fs_error + u8 list) \<times> 'd fat16_volume" where
  "old_sector ops old old_cluster i base sz keep v =
     (if keep \<and> base < sz \<and> base < node_size (desc_node old) then
        on_value (fat16_sector ops (fat16_cluster_sector (vol_info v) old_cluster + i) v)
          (\<lambda>_ v1. (Inr (blit (replicate FAT16_SECTOR_SIZE 0) 0
                          (take (min (min (node_size (desc_node old) - base) FAT16_SECTOR_SIZE) (sz - base)) (vol_sector v1))), v1))
      else (Inr (replicate FAT16_SECTOR_SIZE 0), v))"

text \<open>The sectors of one cluster, with \<open>n\<close> left; the result is the next \<open>base\<close>.\<close>

fun copy_sectors ::
  "'d block_operations option \<Rightarrow> description \<Rightarrow> nat \<Rightarrow> nat \<Rightarrow> u8 list \<Rightarrow> nat \<Rightarrow> bool \<Rightarrow> nat \<Rightarrow> nat \<Rightarrow> nat \<Rightarrow> nat \<Rightarrow> nat \<Rightarrow>
     'd fat16_volume \<Rightarrow> (fs_error + nat) \<times> 'd fat16_volume" where
  "copy_sectors ops old sz offset patch bytes keep cluster old_cluster 0 i base v = (Inr base, v)"
| "copy_sectors ops old sz offset patch bytes keep cluster old_cluster (Suc n) i base v =
     on_value (old_sector ops old old_cluster i base sz keep v)
       (\<lambda>data v1.
          on_value (write_sector ops (fat16_cluster_sector (vol_info v1) cluster + i) (patch_sector base sz offset patch bytes data) v1)
            (\<lambda>_ v2. copy_sectors ops old sz offset patch bytes keep cluster old_cluster n (i + 1) (base + FAT16_SECTOR_SIZE) v2))"

lemma copy_sectors_base:
  "copy_sectors ops old sz offset patch bytes keep cluster old_cluster n i base v = (Inr base', v') \<Longrightarrow>
     base' = base + n * FAT16_SECTOR_SIZE"
proof (induction n arbitrary: i base v)
  case (Suc n)
  then obtain v1 where "copy_sectors ops old sz offset patch bytes keep cluster old_cluster n (i + 1) (base + FAT16_SECTOR_SIZE) v1 = (Inr base', v')"
    by (auto simp: on_value_Inr)
  from Suc.IH [OF this] show ?case by simp
qed simp

text \<open>The loop over the clusters. A cluster has at least one sector on every mounted volume; the guard
  on \<open>sectors\<close> makes the recursion total on the others.\<close>

function copy_loop ::
  "'d block_operations option \<Rightarrow> description \<Rightarrow> u8 list \<Rightarrow> nat \<Rightarrow> nat \<Rightarrow> u8 list \<Rightarrow> nat \<Rightarrow> bool \<Rightarrow> nat \<Rightarrow> nat \<Rightarrow> nat \<Rightarrow> nat \<Rightarrow> nat \<Rightarrow>
     'd fat16_volume \<Rightarrow> (fs_error + unit) \<times> 'd fat16_volume" where
  "copy_loop ops old fat sz offset patch bytes keep sectors cluster old_cluster index base v =
     (if base < sz \<and> sectors \<noteq> 0 then
        (case copy_sectors ops old sz offset patch bytes keep cluster old_cluster sectors 0 base v of
           (Inl error, v1) \<Rightarrow> (Inl error, v1)
         | (Inr base1, v1) \<Rightarrow>
             copy_loop ops old fat sz offset patch bytes keep sectors (u16_at fat (cluster * 2))
               (if keep \<and> index + 1 < desc_length old then fat16_next_cluster (vol_fat v1) old_cluster else old_cluster)
               (index + 1) base1 v1)
      else (Inr (), v))"
  by pat_completeness auto
termination
  by (relation "measure (\<lambda>(_, _, _, sz, _, _, _, _, _, _, _, _, base, _). sz - base)")
     (auto simp: FAT16_SECTOR_SIZE_def dest!: copy_sectors_base [OF sym])

declare copy_loop.simps [simp del]

definition copy_contents ::
  "'d block_operations option \<Rightarrow> description \<Rightarrow> u8 list \<Rightarrow> nat \<Rightarrow> nat \<Rightarrow> nat \<Rightarrow> u8 list \<Rightarrow> nat \<Rightarrow> bool \<Rightarrow>
     'd fat16_volume \<Rightarrow> (fs_error + unit) \<times> 'd fat16_volume" where
  "copy_contents ops old fat first sz offset patch bytes keep v =
     copy_loop ops old fat sz offset patch bytes keep (fi_cluster_bytes (vol_info v) div FAT16_SECTOR_SIZE)
       first (if keep then desc_first old else 0) 0 0 v"

end
