(* ===== verification/Rum_Fat16_Ops.thy ===== *)
theory Rum_Fat16_Ops
  imports Rum_Fat16_Write
begin

text \<open>
  The mutations of the FAT16 backend (the second half of \<open>kernel/fs/fat16-write.c\<close>), its operation
  table, and mounting (the end of \<open>kernel/fs/fat16.c\<close>). The volume is the backend state of the
  filesystem layer, so mounting and unmounting work on the state of \<open>Rum_Fs\<close>.
\<close>

section \<open>Rewriting a file\<close>

definition free_clusters :: "fat16_information \<Rightarrow> u8 list \<Rightarrow> nat" where
  "free_clusters info fat =
     length (filter (\<lambda>c. fat16_valid_cluster info c \<and> u16_at fat (c * 2) = 0) [2..<fi_clusters info + 2])"

text \<open>Everything before the commit point: data, directory growth and the FAT reach the device before
  the entry is published. The result is the FAT in use.\<close>

definition rewrite_prepare ::
  "'d block_operations option \<Rightarrow> target \<Rightarrow> nat \<Rightarrow> nat \<Rightarrow> u8 list \<Rightarrow> nat \<Rightarrow> bool \<Rightarrow> nat \<Rightarrow> u8 list \<Rightarrow>
     'd fat16_volume \<Rightarrow> (fs_error + u8 list) \<times> 'd fat16_volume" where
  "rewrite_prepare ops t sz offset data bytes keep needed fat v =
     (case fat16_allocate (vol_info v) fat needed of
        (Inl error, _) \<Rightarrow> (Inl error, v)
      | (Inr first, fat1) \<Rightarrow>
          if t_grow t \<and> free_clusters (vol_info v) fat1 = 0 then (Inl FS_NO_SPACE, v)
          else
            on_value (copy_contents ops (t_old t) fat1 first sz offset data bytes keep v) (\<lambda>_ v1.
            on_value (grow_directory ops t fat1 v1) (\<lambda>(t1, fat2) v2.
            on_value (flush_device ops v2) (\<lambda>_ v3.
            on_value (persist_fat ops fat2 v3) (\<lambda>_ v4.
              let entry = put32 (put16 (t_entry t1) 26 first) 28 sz;
                  marked = entry[11 := entry ! 11 OR 0x20]
              in on_value (publish ops t1 marked v4) (\<lambda>_ v5. (Inr fat2, v5)))))))"

text \<open>After the commit point the old chain is freed; \<open>finish\<close> ends both outcomes. The result carries
  \<open>*committed\<close>.\<close>

definition rewrite_settle ::
  "'d block_operations option \<Rightarrow> target \<Rightarrow> (fs_error + u8 list) \<times> 'd fat16_volume \<Rightarrow> ((fs_error + unit) \<times> bool) \<times> 'd fat16_volume" where
  "rewrite_settle ops t p =
     (case p of
        (Inl error, v) \<Rightarrow> (let (r, v1) = finish (Inl error, v) (vol_started v) in ((r, False), v1))
      | (Inr fat, v) \<Rightarrow>
          (let (r, v1) = persist_fat ops (free_chain fat (t_old t) v) v; (r1, v2) = finish (r, v1) (vol_started v1)
           in ((r1, True), v2)))"

definition rewrite ::
  "'d block_operations option \<Rightarrow> (nat \<Rightarrow> nat \<Rightarrow> u8 list option) \<Rightarrow> target \<Rightarrow> nat \<Rightarrow> nat \<Rightarrow> u8 list \<Rightarrow> nat \<Rightarrow> bool \<Rightarrow>
     'd fat16_volume \<Rightarrow> ((fs_error + unit) \<times> bool) \<times> 'd fat16_volume" where
  "rewrite ops kmalloc t sz offset data bytes keep v =
     (let info = vol_info v; cb = fi_cluster_bytes info in
      if sz > UINT32_MAX \<or> sz > fi_clusters info * cb then ((Inl FS_RANGE, False), v)
      else if t_exists t \<and> t_entry t ! 11 AND 1 \<noteq> 0 then ((Inl FS_ACCESS, False), v)
      else
        (case fat_copy kmalloc v of
           (None, v1) \<Rightarrow> ((Inl FS_NO_MEMORY, False), v1)
         | (Some fat, v1) \<Rightarrow>
             rewrite_settle ops t
               (rewrite_prepare ops t sz offset data bytes keep ((sz + cb - 1) div cb) fat (v1\<lparr>vol_started := False\<rparr>))))"

section \<open>Mutations\<close>

definition fat16_replace_file ::
  "'d block_operations option \<Rightarrow> (nat \<Rightarrow> nat \<Rightarrow> u8 list option) \<Rightarrow> nat \<Rightarrow> string \<Rightarrow> u8 list \<Rightarrow> nat \<Rightarrow> 'd fat16_volume \<Rightarrow>
     (fs_error + unit) \<times> 'd fat16_volume" where
  "fat16_replace_file ops kmalloc parent name data bytes v =
     on_value (fat16_writable ops v) (\<lambda>_ v1.
     on_value (find_target ops parent name v1) (\<lambda>t v2.
       if t_exists t \<and> node_kind (desc_node (t_old t)) \<noteq> FS_FILE then (Inl FS_IS_DIRECTORY, v2)
       else if t_exists t \<and> pinned (t_id t) v2 then (Inl FS_BUSY, v2)
       else
         (let t1 = (if t_exists t then t else t\<lparr>t_entry := make_entry name False 0 0\<rparr>);
              ((r, _), v3) = rewrite ops kmalloc t1 bytes 0 data bytes False v2
          in (r, v3))))"

definition by_id :: "'d block_operations option \<Rightarrow> nat \<Rightarrow> 'd fat16_volume \<Rightarrow> (fs_error + target) \<times> 'd fat16_volume" where
  "by_id ops ident v =
     on_value (fat16_describe ops ident v) (\<lambda>d v1.
       if node_kind (desc_node d) \<noteq> FS_FILE then (Inl FS_IS_DIRECTORY, v1)
       else on_value (entry_read ops ident v1)
              (\<lambda>entry v2. (Inr (zero_target\<lparr>t_old := d, t_id := ident, t_exists := True, t_entry := entry\<rparr>), v2)))"

definition fat16_write_file ::
  "'d block_operations option \<Rightarrow> (nat \<Rightarrow> nat \<Rightarrow> u8 list option) \<Rightarrow> nat \<Rightarrow> nat \<Rightarrow> u8 list \<Rightarrow> nat \<Rightarrow> 'd fat16_volume \<Rightarrow>
     fs_io_result \<times> 'd fat16_volume" where
  "fat16_write_file ops kmalloc ident offset data bytes v =
     (let (r, v1) = on_value (fat16_writable ops (v\<lparr>vol_last_io := io_result_of FS_OK\<rparr>)) (\<lambda>_ v0. by_id ops ident v0);
          ((r1, committed), v2) =
            (case r of
               Inl error \<Rightarrow> ((Inl error, False), v1)
             | Inr t \<Rightarrow>
                 if offset > node_size (desc_node (t_old t)) \<or> bytes > UINT32_MAX \<or> offset > UINT32_MAX - bytes
                 then ((Inl FS_RANGE, False), v1)
                 else rewrite ops kmalloc t (max (offset + bytes) (node_size (desc_node (t_old t)))) offset data bytes True v1)
      in (\<lparr>io_error = fs_error_of r1, transferred = (if committed then bytes else 0),
           io_device_status = io_device_status (vol_last_io v2), io_device_error = io_device_error (vol_last_io v2)\<rparr>, v2))"

definition fat16_truncate_file ::
  "'d block_operations option \<Rightarrow> (nat \<Rightarrow> nat \<Rightarrow> u8 list option) \<Rightarrow> nat \<Rightarrow> nat \<Rightarrow> 'd fat16_volume \<Rightarrow> (fs_error + unit) \<times> 'd fat16_volume" where
  "fat16_truncate_file ops kmalloc ident sz v =
     on_value (on_value (fat16_writable ops v) (\<lambda>_ v0. by_id ops ident v0)) (\<lambda>t v1.
       if t_entry t ! 11 AND 1 \<noteq> 0 then (Inl FS_ACCESS, v1)
       else if sz = node_size (desc_node (t_old t)) then (Inr (), v1)
       else (let ((r, _), v2) = rewrite ops kmalloc t sz 0 [] 0 True v1 in (r, v2)))"

text \<open>The frame of \<open>mkdir\<close> and \<open>remove\<close>: they work on a copy of the FAT and end in \<open>finish\<close>.\<close>

definition on_fat_copy ::
  "(nat \<Rightarrow> nat \<Rightarrow> u8 list option) \<Rightarrow> (u8 list \<Rightarrow> 'd fat16_volume \<Rightarrow> (fs_error + unit) \<times> 'd fat16_volume) \<Rightarrow> 'd fat16_volume \<Rightarrow>
     (fs_error + unit) \<times> 'd fat16_volume" where
  "on_fat_copy kmalloc act v =
     (case fat_copy kmalloc v of
        (None, v1) \<Rightarrow> (Inl FS_NO_MEMORY, v1)
      | (Some fat, v1) \<Rightarrow> (let r = act fat (v1\<lparr>vol_started := False\<rparr>) in finish r (vol_started (snd r))))"

text \<open>\<open>mkdir\<close> after its reservations: the new cluster, the growth of the parent, the FAT and the entry.\<close>

definition mkdir_commit ::
  "'d block_operations option \<Rightarrow> target \<Rightarrow> nat \<Rightarrow> string \<Rightarrow> nat \<Rightarrow> u8 list \<Rightarrow> 'd fat16_volume \<Rightarrow> (fs_error + unit) \<times> 'd fat16_volume" where
  "mkdir_commit ops t parent name cluster fat v =
     (let extra = (if t_grow t then u16_at fat (cluster * 2) else 0);
          fat1 = set_cluster fat cluster 0xffff
      in on_value (zero_cluster ops cluster cluster (if parent = ROOT_ID then 0 else desc_first (t_directory t)) v) (\<lambda>_ v1.
         on_value
           (if t_grow t then
              (let last0 = fat16_cluster_at (vol_fat v1) (t_directory t) (desc_length (t_directory t) - 1)
               in on_value (zero_cluster ops extra 0 0 v1)
                    (\<lambda>_ v2. (Inr (t\<lparr>t_id := grown_id (vol_info v1) extra\<rparr>, set_cluster fat1 last0 extra), v2)))
            else (Inr (t, fat1), v1)) (\<lambda>(t1, fat2) v2.
         on_value (flush_device ops v2) (\<lambda>_ v3.
         on_value (persist_fat ops fat2 v3) (\<lambda>_ v4.
           publish ops t1 (make_entry name True cluster 0) v4)))))"

definition mkdir_apply ::
  "'d block_operations option \<Rightarrow> target \<Rightarrow> nat \<Rightarrow> string \<Rightarrow> u8 list \<Rightarrow> 'd fat16_volume \<Rightarrow> (fs_error + unit) \<times> 'd fat16_volume" where
  "mkdir_apply ops t parent name fat v =
     (case fat16_allocate (vol_info v) fat (if t_grow t then 2 else 1) of
        (Inl error, _) \<Rightarrow> (Inl error, v)
      | (Inr cluster, fat1) \<Rightarrow> mkdir_commit ops t parent name cluster fat1 v)"

definition fat16_mkdir_node ::
  "'d block_operations option \<Rightarrow> (nat \<Rightarrow> nat \<Rightarrow> u8 list option) \<Rightarrow> nat \<Rightarrow> string \<Rightarrow> 'd fat16_volume \<Rightarrow> (fs_error + unit) \<times> 'd fat16_volume" where
  "fat16_mkdir_node ops kmalloc parent name v =
     on_value (fat16_writable ops v) (\<lambda>_ v1.
     on_value (find_target ops parent name v1) (\<lambda>t v2.
       if t_exists t then (Inl FS_EXISTS, v2) else on_fat_copy kmalloc (mkdir_apply ops t parent name) v2))"

text \<open>The search of a directory for a live entry, with \<open>n\<close> slots left.\<close>

fun empty_loop :: "'d block_operations option \<Rightarrow> description \<Rightarrow> nat \<Rightarrow> nat \<Rightarrow> 'd fat16_volume \<Rightarrow> (fs_error + unit) \<times> 'd fat16_volume" where
  "empty_loop ops d 0 i v = (Inr (), v)"
| "empty_loop ops d (Suc n) i v =
     on_value (slot_read ops d i v)
       (\<lambda>(_, entry) v1.
          if entry ! 0 = 0 then (Inr (), v1)
          else if entry ! 0 \<noteq> 0xe5 then (Inl FS_NOT_EMPTY, v1)
          else empty_loop ops d n (i + 1) v1)"

text \<open>The entry is marked deleted before its clusters are freed.\<close>

definition remove_apply :: "'d block_operations option \<Rightarrow> target \<Rightarrow> u8 list \<Rightarrow> 'd fat16_volume \<Rightarrow> (fs_error + unit) \<times> 'd fat16_volume" where
  "remove_apply ops t fat v =
     on_value (entry_write ops (t_id t) ((t_entry t)[0 := 0xe5]) v) (\<lambda>_ v1.
     on_value (flush_device ops v1) (\<lambda>_ v2.
     persist_fat ops (free_chain fat (t_old t) v2) v2))"

definition fat16_remove_node ::
  "'d block_operations option \<Rightarrow> (nat \<Rightarrow> nat \<Rightarrow> u8 list option) \<Rightarrow> nat \<Rightarrow> string \<Rightarrow> 'd fat16_volume \<Rightarrow> (fs_error + unit) \<times> 'd fat16_volume" where
  "fat16_remove_node ops kmalloc parent name v =
     on_value (fat16_writable ops v) (\<lambda>_ v1.
     on_value (find_target ops parent name v1) (\<lambda>t v2.
       if \<not> t_exists t then (Inl FS_NOT_FOUND, v2)
       else if pinned (t_id t) v2 then (Inl FS_BUSY, v2)
       else if t_entry t ! 11 AND 1 \<noteq> 0 then (Inl FS_ACCESS, v2)
       else if t_long_name t then (Inl FS_UNSUPPORTED, v2)
       else
         on_value
           (if node_kind (desc_node (t_old t)) = FS_DIRECTORY
            then empty_loop ops (t_old t) (fat16_directory_slots (vol_info v2) (t_old t) - 2) 2 v2
            else (Inr (), v2)) (\<lambda>_ v3.
         on_fat_copy kmalloc (remove_apply ops t) v3)))"

definition fat16_flush :: "'d block_operations option \<Rightarrow> 'd fat16_volume \<Rightarrow> (fs_error + unit) \<times> 'd fat16_volume" where
  "fat16_flush ops v =
     (if \<not> vol_ready v then (Inl FS_UNAVAILABLE, v)
      else if fi_faulted (vol_info v) then (Inl FS_IO_ERROR, v)
      else if \<not> fi_writable (vol_info v) then (Inr (), v)
      else finish (flush_device ops v) True)"

section \<open>The operation table\<close>

definition out_value :: "'a \<Rightarrow> (fs_error + 'a) \<times> 's \<Rightarrow> (fs_error \<times> 'a) \<times> 's" where
  "out_value x r = ((fs_error_of (fst r), case fst r of Inl _ \<Rightarrow> x | Inr y \<Rightarrow> y), snd r)"

definition out_status :: "(fs_error + unit) \<times> 's \<Rightarrow> fs_error \<times> 's" where
  "out_status r = (fs_error_of (fst r), snd r)"

definition fat16_operations ::
  "'d block_operations option \<Rightarrow> (nat \<Rightarrow> nat \<Rightarrow> u8 list option) \<Rightarrow> 'd fat16_volume fs_operations" where
  "fat16_operations ops kmalloc =
     \<lparr>op_lookup = Some (\<lambda>parent name v. out_value zero_node (fat16_lookup ops parent name v)),
      op_stat = Some (\<lambda>ident v. out_value zero_node (fat16_stat_node ops ident v)),
      op_retain = Some fat16_retain,
      op_release = Some fat16_release,
      op_read = Some (fat16_read_file ops),
      op_write = Some (fat16_write_file ops kmalloc),
      op_replace = Some (\<lambda>parent name data bytes v. out_status (fat16_replace_file ops kmalloc parent name data bytes v)),
      op_remove = Some (\<lambda>parent name v. out_status (fat16_remove_node ops kmalloc parent name v)),
      op_mkdir = Some (\<lambda>parent name v. out_status (fat16_mkdir_node ops kmalloc parent name v)),
      op_readdir = Some (\<lambda>ident cursor v.
        let (r, v1) = fat16_readdir_node ops ident cursor v
        in (case r of Inl error \<Rightarrow> (error, zero_entry, cursor) | Inr (entry, nxt) \<Rightarrow> (FS_OK, entry, nxt), v1)),
      op_flush = Some (\<lambda>v. out_status (fat16_flush ops v)),
      op_unmount = Some fat16_detach,
      op_truncate = Some (\<lambda>ident sz v. out_status (fat16_truncate_file ops kmalloc ident sz v))\<rparr>"

section \<open>Mounting\<close>

text \<open>The checks of the boot sector, and the layout it describes.\<close>

definition boot_total :: "u8 list \<Rightarrow> nat" where
  "boot_total boot = (if u16_at boot 19 \<noteq> 0 then u16_at boot 19 else u32_at boot 32)"

definition boot_invalid :: "u8 list \<Rightarrow> bool" where
  "boot_invalid boot \<longleftrightarrow>
     boot ! 510 \<noteq> 0x55 \<or> boot ! 511 \<noteq> 0xaa \<or> u16_at boot 14 = 0 \<or> u16_at boot 17 = 0 \<or>
     u16_at boot 17 mod ENTRIES_PER_SECTOR \<noteq> 0 \<or> u16_at boot 22 = 0 \<or> boot_total boot = 0 \<or>
     (u16_at boot 19 \<noteq> 0 \<and> u32_at boot 32 \<noteq> 0) \<or> boot ! 13 = 0 \<or> boot ! 13 AND (boot ! 13 - 1) \<noteq> 0 \<or>
     u32_at boot 28 \<noteq> 0 \<or> (boot ! 21 \<noteq> 0xf0 \<and> boot ! 21 < 0xf8)"

definition boot_information :: "u8 list \<Rightarrow> nat \<Rightarrow> fs_error + fat16_information" where
  "boot_information boot sector_limit =
     (let per_cluster = unat (boot ! 13); reserved = u16_at boot 14; copies = unat (boot ! 16);
          entries = u16_at boot 17; fat_sectors = u16_at boot 22; total = boot_total boot in
      if boot_invalid boot then Inl FS_INVALID
      else if u16_at boot 11 \<noteq> FAT16_SECTOR_SIZE \<or> copies \<noteq> 2 \<or> per_cluster > FAT16_CLUSTER_SECTOR_LIMIT \<or>
              fat_sectors > FAT16_FAT_SECTOR_LIMIT then Inl FS_UNSUPPORTED
      else if total > sector_limit then Inl FS_RANGE
      else
        (let root_start = reserved + copies * fat_sectors;
             data_start = root_start + entries div ENTRIES_PER_SECTOR
         in if data_start \<ge> total then Inl FS_RANGE
            else
              (let clusters = (total - data_start) div per_cluster in
               if clusters < 4085 \<or> clusters > MAX_CLUSTERS then Inl FS_UNSUPPORTED
               else if (clusters + 2) * 2 > fat_sectors * FAT16_SECTOR_SIZE then Inl FS_RANGE
               else Inr \<lparr>fi_sectors = total, fi_clusters = clusters, fi_cluster_bytes = per_cluster * FAT16_SECTOR_SIZE,
                         fi_fat_start = reserved, fi_fat_sectors = fat_sectors, fi_root_start = root_start,
                         fi_root_entries = entries, fi_data_start = data_start,
                         fi_mounted = False, fi_writable = False, fi_faulted = False\<rparr>)))"

text \<open>The device is \<open>None\<close> when the pointer is null; its block layer is part of the volume. The result
  carries the contents of \<open>boot\<close>.\<close>

definition geometry ::
  "'d block_operations option \<Rightarrow> bool \<Rightarrow> u8 list \<Rightarrow> 'd fat16_volume \<Rightarrow> ((fs_error + unit) \<times> u8 list) \<times> 'd fat16_volume" where
  "geometry ops given boot v =
     (let dev = device (vol_layer v) in
      if \<not> given \<or> \<not> online dev then ((Inl FS_UNAVAILABLE, boot), v)
      else if sector_size dev \<noteq> FAT16_SECTOR_SIZE then ((Inl FS_UNSUPPORTED, boot), v)
      else
        (let (r, b, l) = block_read ops 0 1 (Some boot) FAT16_SECTOR_SIZE (vol_layer v);
             boot1 = the b; v1 = v\<lparr>vol_layer := l\<rparr>
         in if br_error r \<noteq> BLOCK_OK then ((Inl (fs_error_from_block (br_error r)), boot1), v1)
            else if br_completed r \<noteq> 1 then ((Inl FS_IO_ERROR, boot1), v1)
            else
              (case boot_information boot1 (sector_count (device l)) of
                 Inl error \<Rightarrow> ((Inl error, boot1), v1)
               | Inr info \<Rightarrow> ((Inr (), boot1), v1\<lparr>vol_info := info\<rparr>))))"

text \<open>The comparison of the second FAT copy with the first, with \<open>n\<close> sectors left.\<close>

fun compare_fats :: "'d block_operations option \<Rightarrow> nat \<Rightarrow> nat \<Rightarrow> u8 list \<Rightarrow> 'd fat16_volume \<Rightarrow> (fs_error + unit) \<times> 'd fat16_volume" where
  "compare_fats ops 0 i buffer v = (Inr (), v)"
| "compare_fats ops (Suc n) i buffer v =
     (let info = vol_info v;
          ((r, buffer1), v1) = fat16_read_sectors ops (fi_fat_start info + fi_fat_sectors info + i) 1 buffer v
      in if r \<noteq> Inr () then (r, v1)
         else if fat_window (vol_fat v1) i \<noteq> take FAT16_SECTOR_SIZE buffer1 then (Inl FS_IO_ERROR, v1)
         else compare_fats ops n (i + 1) buffer1 v1)"

text \<open>Loading the FAT: allocation, both copies, and the two reserved entries.\<close>

definition load_fat ::
  "'d block_operations option \<Rightarrow> (nat \<Rightarrow> nat \<Rightarrow> u8 list option) \<Rightarrow> u8 list \<Rightarrow> 'd fat16_volume \<Rightarrow> (fs_error + unit) \<times> 'd fat16_volume" where
  "load_fat ops kmalloc buffer v =
     (let info = vol_info v; media = unat (buffer ! 21);
          v1 = v\<lparr>vol_heap_calls := vol_heap_calls v + 1\<rparr> in
      case kmalloc (vol_heap_calls v) (fi_fat_sectors info * FAT16_SECTOR_SIZE) of
        None \<Rightarrow> (Inl FS_NO_MEMORY, v1)
      | Some b \<Rightarrow>
          (let ((r, fat), v2) = fat16_read_sectors ops (fi_fat_start info) (fi_fat_sectors info) b v1
           in on_value (r, v2\<lparr>vol_fat := fat\<rparr>) (\<lambda>_ v3.
              on_value (compare_fats ops (fi_fat_sectors info) 0 buffer v3) (\<lambda>_ v4.
                (if u16_at (vol_fat v4) 0 \<noteq> 0xff00 OR media \<or> u16_at (vol_fat v4) 2 AND 0x3fff \<noteq> 0x3fff
                 then Inl FS_IO_ERROR else Inr (), v4)))))"

text \<open>The part of \<open>mount_volume\<close> that hands the volume to the filesystem layer.\<close>

definition attach_volume ::
  "'d block_operations option \<Rightarrow> (nat \<Rightarrow> nat \<Rightarrow> u8 list option) \<Rightarrow> bool \<Rightarrow> 'd fat16_volume fs \<Rightarrow> fs_error \<times> 'd fat16_volume fs" where
  "attach_volume ops kmalloc read_only s =
     (let v = backend_state s;
          can_write = (\<not> read_only \<and> \<not> dev_read_only (device (vol_layer v)) \<and>
                       (case ops of None \<Rightarrow> False | Some f \<Rightarrow> bop_write f \<noteq> None \<and> bop_flush f \<noteq> None));
          v1 = v\<lparr>vol_info := (vol_info v)\<lparr>fi_writable := can_write\<rparr>, vol_ready := True\<rparr>;
          b = \<lparr>operations = Some (fat16_operations ops kmalloc), backend_root = ROOT_ID, naming = FS_NAMES_FAT83,
               backend_read_only = \<not> can_write\<rparr>;
          (error, s1) = fs_mount_disk (Some b) (s\<lparr>backend_state := v1\<rparr>);
          v2 = backend_state s1
      in (error, if error = FS_OK then s1\<lparr>backend_state := v2\<lparr>vol_info := (vol_info v2)\<lparr>fi_mounted := True\<rparr>\<rparr>\<rparr> else s1))"

text \<open>The argument \<open>buffer\<close> is the uninitialised stack buffer.\<close>

definition mount_volume ::
  "'d block_operations option \<Rightarrow> (nat \<Rightarrow> nat \<Rightarrow> u8 list option) \<Rightarrow> u8 list \<Rightarrow> bool \<Rightarrow> bool \<Rightarrow> 'd fat16_volume fs \<Rightarrow>
     fs_error \<times> 'd fat16_volume fs" where
  "mount_volume ops kmalloc buffer given read_only s =
     (if vol_busy (backend_state s) \<or> vol_ready (backend_state s) then (FS_BUSY, s)
      else
        (let ((r, boot), v1) = geometry ops given buffer ((backend_state s)\<lparr>vol_busy := True\<rparr>);
             (error, s1) =
               (if r \<noteq> Inr () then (fs_error_of r, s\<lparr>backend_state := v1\<rparr>)
                else
                  (let (r1, v2) = load_fat ops kmalloc boot v1; s2 = s\<lparr>backend_state := v2\<rparr>
                   in if r1 \<noteq> Inr () then (fs_error_of r1, s2) else attach_volume ops kmalloc read_only s2));
             v3 = backend_state s1;
             v4 = (if error \<noteq> FS_OK then zero_volume v3 else v3)
         in (error, s1\<lparr>backend_state := v4\<lparr>vol_busy := False\<rparr>\<rparr>)))"

definition fat16_mount ::
  "'d block_operations option \<Rightarrow> (nat \<Rightarrow> nat \<Rightarrow> u8 list option) \<Rightarrow> u8 list \<Rightarrow> bool \<Rightarrow> 'd fat16_volume fs \<Rightarrow> fs_error \<times> 'd fat16_volume fs" where
  "fat16_mount ops kmalloc buffer given s = mount_volume ops kmalloc buffer given False s"

definition fat16_mount_read_only ::
  "'d block_operations option \<Rightarrow> (nat \<Rightarrow> nat \<Rightarrow> u8 list option) \<Rightarrow> u8 list \<Rightarrow> bool \<Rightarrow> 'd fat16_volume fs \<Rightarrow> fs_error \<times> 'd fat16_volume fs" where
  "fat16_mount_read_only ops kmalloc buffer given s = mount_volume ops kmalloc buffer given True s"

definition fat16_unmount :: "'d fat16_volume fs \<Rightarrow> fs_error \<times> 'd fat16_volume fs" where
  "fat16_unmount s =
     (let v = backend_state s in
      if vol_busy v then (FS_BUSY, s)
      else if \<not> fi_mounted (vol_info v) then (FS_UNAVAILABLE, s)
      else
        (let (error, s1) = fs_unmount_disk (s\<lparr>backend_state := v\<lparr>vol_busy := True\<rparr>\<rparr>)
         in (error, s1\<lparr>backend_state := (backend_state s1)\<lparr>vol_busy := False\<rparr>\<rparr>)))"

definition fat16_info :: "'d fat16_volume \<Rightarrow> fat16_information" where
  "fat16_info v = (if fi_mounted (vol_info v) then vol_info v else zero_fat16_information)"

end
