(* ===== verification/Rum_Fat16_Chain.thy ===== *)
theory Rum_Fat16_Chain
  imports Rum_Fat16_Ops
begin

text \<open>
  Cluster chains. \<open>linked\<close> says what a chain is: a list of valid clusters, each the successor of the
  one before, ending in an end marker. \<open>fat16_chain\<close> accepts exactly the clusters that start one and
  returns its length, and \<open>fat16_allocate\<close> builds one from free clusters.
\<close>

section \<open>Bytes of the FAT\<close>

lemma u16_at_less: "u16_at p i < 65536"
  using unat_u8_less [of "p ! i"] unat_u8_less [of "p ! (i + 1)"] by (simp add: u16_at_def)

lemma length_put16 [simp]: "i + 2 \<le> length p \<Longrightarrow> length (put16 p i n) = length p"
  by (simp add: put16_def length_blit)

lemma nth_put16:
  "i + 2 \<le> length p \<Longrightarrow> j < length p \<Longrightarrow>
     put16 p i n ! j = (if j = i then word_of_nat (n mod 256) else if j = i + 1 then word_of_nat (n div 256 mod 256) else p ! j)"
  by (auto simp: put16_def nth_blit numeral_2_eq_2 nth_Cons')

lemma u16_at_put16:
  assumes "i + 2 \<le> length p" and "j + 2 \<le> length p" and "n < 65536" and "j = i \<or> j + 2 \<le> i \<or> i + 2 \<le> j"
  shows "u16_at (put16 p i n) j = (if j = i then n else u16_at p j)"
proof -
  have "n mod 256 < 256" "n div 256 mod 256 = n div 256" "n div 256 < 256" using assms(3) by auto
  then have "unat (word_of_nat (n mod 256) :: u8) + 256 * unat (word_of_nat (n div 256) :: u8) = n"
    by (simp add: unat_of_nat)
  moreover have "n div 256 mod 256 = n div 256" using assms(3) by auto
  ultimately show ?thesis using assms by (auto simp: u16_at_def nth_put16)
qed

definition fat_fits :: "fat16_information \<Rightarrow> u8 list \<Rightarrow> bool" where
  "fat_fits info fat \<longleftrightarrow> (fi_clusters info + 2) * 2 \<le> length fat \<and> fi_clusters info \<le> MAX_CLUSTERS"

lemma length_set_cluster [simp]:
  "c * 2 + 2 \<le> length fat \<Longrightarrow> length (set_cluster fat c n) = length fat"
  by (simp add: set_cluster_def)

lemma valid_cluster_fits:
  "fat16_valid_cluster info c \<Longrightarrow> fat_fits info fat \<Longrightarrow> c * 2 + 2 \<le> length fat \<and> c < 65536"
  by (auto simp: fat16_valid_cluster_def fat_fits_def fat16_limits)

lemma next_set_cluster:
  assumes "c * 2 + 2 \<le> length fat" and "d * 2 + 2 \<le> length fat" and "n < 65536"
  shows "fat16_next_cluster (set_cluster fat c n) d = (if d = c then n else fat16_next_cluster fat d)"
  unfolding fat16_next_cluster_def set_cluster_def using assms by (subst u16_at_put16) auto

section \<open>Chains\<close>

fun linked :: "fat16_information \<Rightarrow> u8 list \<Rightarrow> nat \<Rightarrow> nat list \<Rightarrow> bool" where
  "linked info fat c [] = False"
| "linked info fat c (x # xs) =
     (x = c \<and> fat16_valid_cluster info c \<and>
      (if xs = [] then FIRST_END \<le> fat16_next_cluster fat c else linked info fat (fat16_next_cluster fat c) xs))"

lemma end_not_valid: "FIRST_END \<le> c \<Longrightarrow> \<not> fat16_valid_cluster info c"
  by (simp add: fat16_valid_cluster_def fat16_limits)

lemma linked_start: "linked info fat c xs \<Longrightarrow> xs \<noteq> [] \<and> hd xs = c \<and> fat16_valid_cluster info c"
  by (cases xs) auto

lemma linked_unique: "linked info fat c xs \<Longrightarrow> linked info fat c ys \<Longrightarrow> xs = ys"
proof (induction xs arbitrary: c ys)
  case (Cons x xs)
  then obtain zs where ys: "ys = c # zs" and x: "x = c" by (cases ys) auto
  show ?case
  proof (cases "xs = [] \<or> zs = []")
    case True
    then show ?thesis using Cons.prems ys x by (auto dest: linked_start end_not_valid split: if_splits)
  next
    case False
    then have "linked info fat (fat16_next_cluster fat c) xs" "linked info fat (fat16_next_cluster fat c) zs"
      using Cons.prems ys by simp_all
    then show ?thesis using Cons.IH ys x by blast
  qed
qed simp

lemma linked_suffix: "linked info fat c (xs @ y # ys) \<Longrightarrow> linked info fat y (y # ys)"
  by (induction xs arbitrary: c) (auto split: if_splits)

lemma linked_valid: "linked info fat c xs \<Longrightarrow> x \<in> set xs \<Longrightarrow> fat16_valid_cluster info x"
  by (metis linked_start linked_suffix list.sel(1) split_list)

lemma linked_distinct: "linked info fat c xs \<Longrightarrow> distinct xs"
proof (rule ccontr)
  assume l: "linked info fat c xs" and "\<not> distinct xs"
  then obtain as y bs cs where "xs = as @ y # bs @ y # cs" using not_distinct_decomp by fastforce
  with l have "linked info fat y (y # bs @ y # cs)" "linked info fat y (y # cs)"
    using linked_suffix [of info fat c as y "bs @ y # cs"] linked_suffix [of info fat c "as @ y # bs" y cs] by auto
  then show False using linked_unique by fastforce
qed

lemma linked_length:
  assumes "linked info fat c xs" shows "length xs \<le> fi_clusters info"
proof -
  have "set xs \<subseteq> {2..<fi_clusters info + 2}"
    using linked_valid [OF assms] by (fastforce simp: fat16_valid_cluster_def)
  then have "card (set xs) \<le> card {2..<fi_clusters info + 2}" by (rule card_mono [rotated]) simp
  then show ?thesis using distinct_card [OF linked_distinct [OF assms]] by simp
qed

section \<open>Bitmaps\<close>

lemma cluster_bit_iff: "cluster_bit bm c = bit (bm ! (c div 8)) (c mod 8)"
  by (simp add: cluster_bit_def and_exp_eq_0_iff_not_bit push_bit_eq_mult)

lemma cluster_bit_set:
  assumes "p div 8 < length b"
  shows "cluster_bit (cluster_set b p) q = (q = p \<or> cluster_bit b q)"
proof (cases "q div 8 = p div 8")
  case True
  then have "q = p \<longleftrightarrow> q mod 8 = p mod 8" by (metis div_mult_mod_eq)
  moreover have "bit (push_bit (p mod 8) 1 :: u8) (q mod 8) \<longleftrightarrow> q mod 8 = p mod 8"
    by (auto simp: bit_simps bit_push_bit_iff)
  ultimately show ?thesis using assms True
    by (simp only: cluster_bit_iff cluster_set_def nth_list_update_eq bit_or_iff) blast
next
  case False
  then have "q \<noteq> p" by auto
  then show ?thesis using False by (simp add: cluster_bit_iff cluster_set_def)
qed

interpretation cm: bit_marks cluster_bit cluster_set "\<lambda>bm. 8 * length bm"
  by unfold_locales (auto simp: cluster_bit_set cluster_set_def [THEN arg_cong [where f = length]])

lemma valid_cluster_bitmap: "fat16_valid_cluster info c \<Longrightarrow> c < 8 * BITMAP_BYTES"
  by (simp add: fat16_valid_cluster_def BITMAP_BYTES_def fat16_limits)

lemma cluster_bit_zero: "c < 8 * BITMAP_BYTES \<Longrightarrow> \<not> cluster_bit (replicate BITMAP_BYTES 0) c"
  by (simp add: cluster_bit_def)

section \<open>The chain walk\<close>

text \<open>Only the bitmap changes, and it holds the clusters \<open>S\<close>.\<close>

definition visited_only :: "nat set \<Rightarrow> 'd fat16_volume \<Rightarrow> 'd fat16_volume \<Rightarrow> bool" where
  "visited_only S w v \<longleftrightarrow>
     v = w\<lparr>vol_visited := vol_visited v\<rparr> \<and> length (vol_visited v) = BITMAP_BYTES \<and>
     (\<forall>c < 8 * BITMAP_BYTES. cluster_bit (vol_visited v) c \<longleftrightarrow> c \<in> S)"

lemma visited_only_same:
  assumes "visited_only S w v" shows "vol_info v = vol_info w \<and> vol_fat v = vol_fat w"
proof -
  obtain x where "v = w\<lparr>vol_visited := x\<rparr>" using assms unfolding visited_only_def by blast
  then show ?thesis by simp
qed

lemma visited_only_step:
  assumes "visited_only S w v" and "c < 8 * BITMAP_BYTES"
  shows "visited_only (insert c S) w (v\<lparr>vol_visited := cluster_set (vol_visited v) c\<rparr>)"
proof -
  obtain x where v: "v = w\<lparr>vol_visited := x\<rparr>" using assms(1) unfolding visited_only_def by blast
  then have "length x = BITMAP_BYTES" "\<forall>c < 8 * BITMAP_BYTES. cluster_bit x c \<longleftrightarrow> c \<in> S"
    using assms(1) by (simp_all add: visited_only_def)
  then show ?thesis using assms(2) by (simp add: visited_only_def v cm.test_put1 cluster_set_def [of x c, THEN arg_cong [where f = length]])
qed

lemma chain_loop_accepts:
  assumes "linked (vol_info w) (vol_fat w) c xs" and "length xs \<le> n" and "set xs \<inter> S = {}" and "visited_only S w v"
  shows "\<exists>v'. chain_loop n count c v = (Inr (count + length xs - 1), v') \<and> visited_only (S \<union> set xs) w v'"
  using assms
proof (induction xs arbitrary: c n S count v)
  case (Cons x xs)
  then obtain m where n: "n = Suc m" and m: "length xs \<le> m" by (cases n) auto
  note same = visited_only_same [OF Cons.prems(4)]
  have c: "x = c" "fat16_valid_cluster (vol_info w) c" "c < 8 * BITMAP_BYTES"
    using Cons.prems(1) valid_cluster_bitmap by auto
  have fresh: "\<not> cluster_bit (vol_visited v) c" using Cons.prems(3,4) c by (auto simp: visited_only_def)
  note seen = visited_only_step [OF Cons.prems(4) c(3)]
  show ?case
  proof (cases "xs = []")
    case True
    then show ?thesis using Cons.prems(1) n c fresh same seen by (auto simp: Let_def)
  next
    case False
    then have l: "linked (vol_info w) (vol_fat w) (fat16_next_cluster (vol_fat w) c) xs" using Cons.prems(1) by simp
    then have v: "fat16_valid_cluster (vol_info w) (fat16_next_cluster (vol_fat w) c)"
      "\<not> FIRST_END \<le> fat16_next_cluster (vol_fat w) c" using linked_start end_not_valid by blast+
    have "set xs \<inter> insert c S = {}" using linked_distinct [OF Cons.prems(1)] Cons.prems(3) c(1) by auto
    from Cons.IH [OF l m this seen, of "count + 1"] show ?thesis
      using n c fresh same v False by (auto simp: Let_def)
  qed
qed simp

lemma chain_loop_sound:
  assumes "chain_loop n count c v = (r, v')" and "visited_only S w v"
  shows "(\<exists>T. visited_only T w v') \<and>
     (case r of Inr m \<Rightarrow> \<exists>xs. linked (vol_info w) (vol_fat w) c xs \<and> m + 1 = count + length xs | Inl e \<Rightarrow> e = FS_IO_ERROR)"
  using assms
proof (induction n arbitrary: c S count v)
  case (Suc n)
  note same = visited_only_same [OF Suc.prems(2)]
  show ?case
  proof (cases "fat16_valid_cluster (vol_info w) c \<and> \<not> cluster_bit (vol_visited v) c")
    case False
    then show ?thesis using Suc.prems same by (auto split: if_splits)
  next
    case True
    let ?nxt = "fat16_next_cluster (vol_fat w) c" and ?v1 = "v\<lparr>vol_visited := cluster_set (vol_visited v) c\<rparr>"
    note seen = visited_only_step [OF Suc.prems(2) valid_cluster_bitmap [OF conjunct1 [OF True]]]
    show ?thesis
    proof (cases "FIRST_END \<le> ?nxt \<or> \<not> fat16_valid_cluster (vol_info w) ?nxt")
      case stop: True
      then show ?thesis
        using Suc.prems True same seen by (auto simp: Let_def split: if_splits intro!: exI [of _ "[c]"])
    next
      case False
      then have "chain_loop n (count + 1) ?nxt ?v1 = (r, v')" using Suc.prems True same by (simp add: Let_def)
      note ih = Suc.IH [OF this seen]
      show ?thesis
      proof (cases r)
        case (Inr m)
        with ih True obtain xs where "linked (vol_info w) (vol_fat w) ?nxt xs" "m + 1 = count + 1 + length xs" by auto
        then have "linked (vol_info w) (vol_fat w) c (c # xs) \<and> m + 1 = count + length (c # xs)"
          using True linked_start by fastforce
        then have "\<exists>xs. linked (vol_info w) (vol_fat w) c xs \<and> m + 1 = count + length xs" by blast
        with ih Inr show ?thesis by auto
      next
        case (Inl e)
        with ih show ?thesis by simp
      qed
    qed
  qed
qed auto

lemma visited_only_start: "visited_only {} v (v\<lparr>vol_visited := replicate BITMAP_BYTES 0\<rparr>)"
  by (simp add: visited_only_def cluster_bit_zero)

lemma fat16_chain_accepts:
  "linked (vol_info v) (vol_fat v) first xs \<Longrightarrow>
     \<exists>v'. fat16_chain first v = (Inr (length xs), v') \<and> visited_only (set xs) v v'"
  using chain_loop_accepts [of v first xs "fi_clusters (vol_info v)" "{}" "v\<lparr>vol_visited := replicate BITMAP_BYTES 0\<rparr>" 1]
    linked_length visited_only_start [of v] by (simp add: fat16_chain_def)

lemma fat16_chain_sound:
  assumes "fat16_chain first v = (r, v')"
  shows "(\<exists>T. visited_only T v v') \<and>
    (case r of Inr n \<Rightarrow> \<exists>xs. linked (vol_info v) (vol_fat v) first xs \<and> length xs = n
             | Inl e \<Rightarrow> e = FS_IO_ERROR \<and> (\<nexists>xs. linked (vol_info v) (vol_fat v) first xs))"
proof -
  have "(\<exists>T. visited_only T v v') \<and> (case r of Inr m \<Rightarrow> \<exists>xs. linked (vol_info v) (vol_fat v) first xs \<and> m + 1 = 1 + length xs
      | Inl e \<Rightarrow> e = FS_IO_ERROR)"
    using chain_loop_sound [OF _ visited_only_start] assms unfolding fat16_chain_def by blast
  moreover have "r = Inr (length xs)" if "linked (vol_info v) (vol_fat v) first xs" for xs
    using fat16_chain_accepts [OF that] assms by auto
  ultimately show ?thesis by (cases r) auto
qed

section \<open>Allocation\<close>

text \<open>The successors after the clusters of a list are linked in order and the last one ends the chain.\<close>

fun link_up :: "nat list \<Rightarrow> (nat \<Rightarrow> nat) \<Rightarrow> nat \<Rightarrow> nat" where
  "link_up [] f = f"
| "link_up (x # xs) f = (link_up xs f)(x := if xs = [] then 0xffff else hd xs)"

lemma link_up_other: "d \<notin> set xs \<Longrightarrow> link_up xs f d = f d"
  by (induction xs) auto

lemma link_up_snoc:
  "distinct xs \<Longrightarrow> c \<notin> set xs \<Longrightarrow>
     link_up (xs @ [c]) f d = (if d = c then 0xffff else if xs \<noteq> [] \<and> d = last xs then c else link_up xs f d)"
  by (induction xs) (auto simp: hd_append)

lemma link_up_linked:
  assumes "xs \<noteq> []" and "distinct xs" and "\<forall>x\<in>set xs. fat16_valid_cluster info x"
    and "\<forall>x\<in>set xs. fat16_next_cluster fat x = link_up xs f x"
  shows "linked info fat (hd xs) xs"
  using assms
proof (induction xs)
  case (Cons x xs)
  show ?case
  proof (cases "xs = []")
    case False
    have "\<forall>y\<in>set xs. fat16_next_cluster fat y = link_up xs f y" using Cons.prems by auto
    then have "linked info fat (hd xs) xs" using Cons False by auto
    then show ?thesis using Cons.prems False by auto
  qed (use Cons.prems in \<open>auto simp: fat16_limits\<close>)
qed simp

text \<open>The free clusters from \<open>c\<close> on, among \<open>n\<close>.\<close>

definition free_list :: "fat16_information \<Rightarrow> (nat \<Rightarrow> nat) \<Rightarrow> nat \<Rightarrow> nat \<Rightarrow> nat list" where
  "free_list info f c n = filter (\<lambda>x. fat16_valid_cluster info x \<and> f x = 0) [c..<c + n]"

lemma free_list_Suc:
  "free_list info f c (Suc n) = (if fat16_valid_cluster info c \<and> f c = 0 then [c] else []) @ free_list info f (c + 1) n"
  by (simp add: free_list_def upt_conv_Cons del: upt_Suc)

lemma link_cluster:
  assumes "\<forall>d < fi_clusters info + 2. fat16_next_cluster fat d = link_up xs f d"
    and "fat_fits info fat" and "distinct xs" and "\<forall>x\<in>set xs. 2 \<le> x \<and> x < c"
    and "fat16_valid_cluster info c" and "last0 = (if xs = [] then 0 else last xs)"
  shows "length (set_cluster (if last0 \<noteq> 0 then set_cluster fat last0 c else fat) c 0xffff) = length fat \<and>
    (\<forall>d < fi_clusters info + 2.
       fat16_next_cluster (set_cluster (if last0 \<noteq> 0 then set_cluster fat last0 c else fat) c 0xffff) d = link_up (xs @ [c]) f d)"
proof -
  have "c \<notin> set xs" using assms(4) by auto
  have below: "c < fi_clusters info + 2" using assms(5) by (auto simp: fat16_valid_cluster_def)
  define fat1 where "fat1 = (if last0 \<noteq> 0 then set_cluster fat last0 c else fat)"
  define fat2 where "fat2 = set_cluster fat1 c 0xffff"
  have fits: "d < fi_clusters info + 2 \<Longrightarrow> d * 2 + 2 \<le> length fat" for d
    using assms(2) by (auto simp: fat_fits_def)
  have lastx: "xs \<noteq> [] \<Longrightarrow> last xs < c \<and> last xs \<noteq> 0 \<and> last0 = last xs"
    using assms(4,6) last_in_set [of xs] by fastforce
  then have last_fits: "xs \<noteq> [] \<Longrightarrow> last0 * 2 + 2 \<le> length fat" using fits [of "last xs"] below by simp
  have len1: "length fat1 = length fat" using last_fits assms(6) by (auto simp: fat1_def)
  then have len: "length fat2 = length fat" using fits [OF below] by (simp add: fat2_def)
  have small: "c < 65536" using assms(5) valid_cluster_fits assms(2) by blast
  have n1: "fat16_next_cluster fat1 d = (if xs \<noteq> [] \<and> d = last xs then c else link_up xs f d)"
    if "d < fi_clusters info + 2" for d
    using next_set_cluster [OF last_fits fits [OF that] small] lastx assms(1,6) that
    by (cases "xs = []") (auto simp: fat1_def)
  have n2: "\<forall>d < fi_clusters info + 2. fat16_next_cluster fat2 d = link_up (xs @ [c]) f d"
  proof (intro allI impI)
    fix d assume d: "d < fi_clusters info + 2"
    have "fat16_next_cluster fat2 d = (if d = c then 65535 else fat16_next_cluster fat1 d)"
      unfolding fat2_def using next_set_cluster [of c fat1 d 65535] len1 fits [OF below] fits [OF d] by simp
    then show "fat16_next_cluster fat2 d = link_up (xs @ [c]) f d"
      using n1 [OF d] link_up_snoc [OF assms(3) \<open>c \<notin> set xs\<close>, of f d] by simp
  qed
  show ?thesis using len n2 by (simp only: fat2_def fat1_def)
qed

lemma allocate_from_result:
  assumes "\<forall>d < fi_clusters info + 2. fat16_next_cluster fat d = link_up xs f d"
    and "fat_fits info fat" and "distinct xs" and "\<forall>x\<in>set xs. 2 \<le> x \<and> x < c" and "c + n = fi_clusters info + 2"
    and "last0 = (if xs = [] then 0 else last xs)" and "first = (if xs = [] then 0 else hd xs)"
  shows "\<exists>fat'. allocate_from info n c count first last0 fat =
      (fat', (let ys = xs @ take count (free_list info f c n) in if ys = [] then 0 else hd ys),
       count - length (free_list info f c n)) \<and>
      length fat' = length fat \<and>
      (\<forall>d < fi_clusters info + 2. fat16_next_cluster fat' d = link_up (xs @ take count (free_list info f c n)) f d)"
  using assms
proof (induction n arbitrary: c count first last0 fat xs)
  case 0
  then show ?case by (auto simp: free_list_def Let_def)
next
  case (Suc n)
  have below: "c < fi_clusters info + 2" using Suc.prems(5) by simp
  have "c \<notin> set xs" using Suc.prems(4) by auto
  then have same: "fat16_next_cluster fat c = f c" using Suc.prems(1) below by (simp add: link_up_other)
  have step: "c + 1 + n = fi_clusters info + 2" using Suc.prems(5) by simp
  show ?case
  proof (cases "count = 0")
    case True
    then show ?thesis using Suc.prems by (auto simp: Let_def)
  next
    case False
    show ?thesis
    proof (cases "fat16_valid_cluster info c \<and> f c = 0")
      case skip: False
      have "\<forall>x\<in>set xs. 2 \<le> x \<and> x < c + 1" using Suc.prems(4) by auto
      moreover have "free_list info f c (Suc n) = free_list info f (c + 1) n" using skip by (auto simp: free_list_Suc)
      moreover have "allocate_from info (Suc n) c count first last0 fat = allocate_from info n (c + 1) count first last0 fat"
        using skip False same by (auto simp: fat16_next_cluster_def)
      ultimately show ?thesis
        using Suc.IH [OF Suc.prems(1-3) _ step Suc.prems(6,7), of count] by (simp only:)
    next
      case use: True
      define fat2 where "fat2 = set_cluster (if last0 \<noteq> 0 then set_cluster fat last0 c else fat) c 0xffff"
      note l = link_cluster [OF Suc.prems(1-4) conjunct1 [OF use] Suc.prems(6), folded fat2_def]
      then have len: "length fat2 = length fat" and n2: "\<forall>d < fi_clusters info + 2. fat16_next_cluster fat2 d = link_up (xs @ [c]) f d"
        by blast+
      have "fat_fits info fat2" using Suc.prems(2) len by (simp add: fat_fits_def)
      moreover have "distinct (xs @ [c])" using Suc.prems(3) \<open>c \<notin> set xs\<close> by simp
      moreover have "\<forall>x\<in>set (xs @ [c]). 2 \<le> x \<and> x < c + 1" using Suc.prems(4) use by (auto simp: fat16_valid_cluster_def)
      moreover have "free_list info f c (Suc n) = c # free_list info f (c + 1) n" using use by (auto simp: free_list_Suc)
      moreover have "allocate_from info (Suc n) c count first last0 fat =
          allocate_from info n (c + 1) (count - 1) (if last0 \<noteq> 0 then first else c) c fat2"
        using use False same by (auto simp: fat16_next_cluster_def fat2_def)
      moreover have "(if last0 \<noteq> 0 then first else c) = (if xs @ [c] = [] then 0 else hd (xs @ [c]))"
        using last_in_set [of xs] Suc.prems(4,6,7) by fastforce
      moreover have "take count (c # free_list info f (c + 1) n) = c # take (count - 1) (free_list info f (c + 1) n)"
        "count - length (c # free_list info f (c + 1) n) = count - 1 - length (free_list info f (c + 1) n)"
        using False by (auto simp: take_Cons')
      ultimately show ?thesis
        using Suc.IH [OF n2 _ _ _ step, of c "if last0 \<noteq> 0 then first else c" "count - 1"] len by simp
    qed
  qed
qed

lemma linked_frame:
  "linked info fat c xs \<Longrightarrow> \<forall>x\<in>set xs. fat16_next_cluster fat' x = fat16_next_cluster fat x \<Longrightarrow> linked info fat' c xs"
  by (induction xs arbitrary: c) (auto split: if_splits)

lemma linked_nonzero:
  assumes "linked info fat c xs" and "x \<in> set xs" shows "fat16_next_cluster fat x \<noteq> 0"
proof -
  obtain as bs where "xs = as @ x # bs" using split_list [OF assms(2)] by blast
  then have "linked info fat x (x # bs)" using linked_suffix assms(1) by blast
  then show ?thesis using linked_start [of info fat "fat16_next_cluster fat x" bs]
    by (auto simp: fat16_limits fat16_valid_cluster_def split: if_splits)
qed

definition free_cluster_set :: "fat16_information \<Rightarrow> u8 list \<Rightarrow> nat set" where
  "free_cluster_set info fat = {c. fat16_valid_cluster info c \<and> fat16_next_cluster fat c = 0}"

lemma free_clusters_list:
  "free_clusters info fat = length (free_list info (fat16_next_cluster fat) 2 (fi_clusters info))"
  "set (free_list info (fat16_next_cluster fat) 2 (fi_clusters info)) = free_cluster_set info fat"
  "distinct (free_list info f a n)"
  by (auto simp: free_clusters_def free_list_def fat16_next_cluster_def free_cluster_set_def fat16_valid_cluster_def add.commute)

lemma fat16_allocate_result:
  fixes count :: nat
  assumes "fat_fits info fat"
  defines "cs \<equiv> take count (free_list info (fat16_next_cluster fat) 2 (fi_clusters info))"
  shows "if count \<le> free_clusters info fat
    then \<exists>fat'. fat16_allocate info fat count = (Inr (if count = 0 then 0 else hd cs), fat') \<and>
      length cs = count \<and> length fat' = length fat \<and>
      (\<forall>d < fi_clusters info + 2. fat16_next_cluster fat' d = link_up cs (fat16_next_cluster fat) d)
    else fst (fat16_allocate info fat count) = Inl FS_NO_SPACE"
proof -
  have "\<exists>fat'. allocate_from info (fi_clusters info) 2 count 0 0 fat =
      (fat', if cs = [] then 0 else hd cs, count - free_clusters info fat) \<and> length fat' = length fat \<and>
      (\<forall>d < fi_clusters info + 2. fat16_next_cluster fat' d = link_up cs (fat16_next_cluster fat) d)"
    using allocate_from_result [of info fat "[]" "fat16_next_cluster fat" 2 "fi_clusters info" 0 0 count,
        unfolded append_Nil, folded cs_def] assms(1)
    by (simp add: free_clusters_list(1) Let_def)
  then obtain fat' where a: "allocate_from info (fi_clusters info) 2 count 0 0 fat =
      (fat', if cs = [] then 0 else hd cs, count - free_clusters info fat)"
    "length fat' = length fat" "\<forall>d < fi_clusters info + 2. fat16_next_cluster fat' d = link_up cs (fat16_next_cluster fat) d"
    by blast
  have "count \<le> free_clusters info fat \<Longrightarrow> length cs = count" by (simp add: cs_def free_clusters_list(1))
  then show ?thesis using a by (cases "count \<le> free_clusters info fat"; cases "count = 0") (auto simp: fat16_allocate_def)
qed

text \<open>The chain an allocation returns: as many clusters as asked for, all of them free before, and every
  other cluster as it was.\<close>

definition allocated :: "fat16_information \<Rightarrow> u8 list \<Rightarrow> nat \<Rightarrow> u8 list \<Rightarrow> nat list \<Rightarrow> bool" where
  "allocated info fat first fat' cs \<longleftrightarrow>
     linked info fat' first cs \<and> set cs \<subseteq> free_cluster_set info fat \<and> length fat' = length fat \<and>
     (\<forall>d. d < fi_clusters info + 2 \<longrightarrow> d \<notin> set cs \<longrightarrow> fat16_next_cluster fat' d = fat16_next_cluster fat d)"

lemma fat16_allocate_chain:
  assumes fits: "fat_fits info fat" and r: "fat16_allocate info fat count = (Inr first, fat')" and "0 < count"
  shows "\<exists>cs. allocated info fat first fat' cs \<and> length cs = count"
proof -
  define cs where "cs = take count (free_list info (fat16_next_cluster fat) 2 (fi_clusters info))"
  from fat16_allocate_result [OF fits, of count, folded cs_def] r \<open>0 < count\<close>
  have cs: "length cs = count" "first = hd cs" "length fat' = length fat"
    "\<forall>d < fi_clusters info + 2. fat16_next_cluster fat' d = link_up cs (fat16_next_cluster fat) d"
    by (auto split: if_splits)
  have free: "set cs \<subseteq> free_cluster_set info fat" "distinct cs"
    using free_clusters_list(2,3) set_take_subset unfolding cs_def by (fast, simp add: free_clusters_list(3))
  then have valid: "\<forall>x\<in>set cs. fat16_valid_cluster info x \<and> x < fi_clusters info + 2"
    by (auto simp: free_cluster_set_def fat16_valid_cluster_def)
  moreover have "cs \<noteq> []" using cs(1) \<open>0 < count\<close> by auto
  ultimately have "linked info fat' (hd cs) cs" using link_up_linked [of cs info fat' "fat16_next_cluster fat"] free(2) cs(4) by blast
  then show ?thesis using cs free(1) unfolding allocated_def by (metis link_up_other)
qed

text \<open>Chains that were there before are kept and stay apart from the new one.\<close>

lemma allocated_keeps:
  assumes "allocated info fat first fat' cs" and "linked info fat c xs"
  shows "linked info fat' c xs \<and> set xs \<inter> set cs = {}"
proof -
  have apart: "set xs \<inter> set cs = {}"
    using linked_nonzero [OF assms(2)] assms(1) unfolding allocated_def free_cluster_set_def by blast
  have "fat16_next_cluster fat' x = fat16_next_cluster fat x" if "x \<in> set xs" for x
  proof -
    have "x < fi_clusters info + 2" using linked_valid [OF assms(2) that] by (simp add: fat16_valid_cluster_def)
    then show ?thesis using apart that assms(1) by (auto simp: allocated_def)
  qed
  then show ?thesis using linked_frame [OF assms(2)] apart by blast
qed

end
