(* ===== verification/Rum_Fat16_Name.thy ===== *)
theory Rum_Fat16_Name
  imports Rum_Fat16_Chain
begin

text \<open>
  Directory entries: what \<open>make_entry\<close> writes for an 8.3 name, \<open>fat16_decode\<close> reads back.
\<close>

section \<open>Name bytes\<close>

lemma unat_of_char: "unat (of_char c :: u8) = of_char c"
  using nat_of_char_less_256 [of c] by (simp add: of_nat_of_char [symmetric, where ?'a = "8 word"] unat_of_nat del: of_nat_of_char)

lemma name_byte_char:
  assumes "name_char c"
  shows "(of_char c :: u8) \<noteq> 0x20" "(of_char c :: u8) \<noteq> 0" "(of_char c :: u8) \<noteq> 0xe5" "(of_char c :: u8) \<noteq> 0x2E"
    and "char_of (unat (name_byte (of_char c))) = upcase c"
proof -
  define n :: nat where "n = of_char c"
  have n: "97 \<le> n \<and> n \<le> 122 \<or> 65 \<le> n \<and> n \<le> 90 \<or> 48 \<le> n \<and> n \<le> 57 \<or> n = 95 \<or> n = 45" "n < 256"
  proof -
    have "n \<noteq> 46" using assms of_char_eq_iff [of c "CHR ''.''", where ?'a = nat] by (auto simp: name_char_def n_def)
    then show "97 \<le> n \<and> n \<le> 122 \<or> 65 \<le> n \<and> n \<le> 90 \<or> 48 \<le> n \<and> n \<le> 57 \<or> n = 95 \<or> n = 45"
      using assms by (auto simp: name_char_def valid_byte_code Let_def n_def)
    show "n < 256" by (simp add: n_def nat_of_char_less_256)
  qed
  have u: "unat (of_char c :: u8) = n" by (simp add: unat_of_char n_def)
  show "(of_char c :: u8) \<noteq> 0x20" "(of_char c :: u8) \<noteq> 0" "(of_char c :: u8) \<noteq> 0xe5" "(of_char c :: u8) \<noteq> 0x2E"
    using u n by auto
  have "unat (name_byte (of_char c)) = (if 97 \<le> n \<and> n \<le> 122 then n - 32 else n)"
    using u n by (auto simp: name_byte_def word_le_nat_alt unat_sub_if_size word_size)
  then have "unat (name_byte (of_char c)) = of_char (upcase c)" using of_char_upcase [of c] by (simp add: n_def)
  then show "char_of (unat (name_byte (of_char c))) = upcase c" by simp
qed

lemma name_part_chars:
  "list_all name_char s \<Longrightarrow> name_part (map of_char s) acc = Inr (acc @ map upcase s)"
  by (induction s arbitrary: acc) (auto simp: name_byte_char)

text \<open>The fields of a name are padded with spaces.\<close>

lemma trim_count_padded:
  assumes "\<forall>i<length s. entry ! (start + i) = s ! i" and "\<forall>i. length s \<le> i \<longrightarrow> i < n \<longrightarrow> entry ! (start + i) = 0x20"
    and "0x20 \<notin> set s" and "length s \<le> n"
  shows "trim_count entry start n = length s"
  using assms
proof (induction n)
  case (Suc n)
  show ?case
  proof (cases "length s = Suc n")
    case True
    then have "entry ! (start + n) \<noteq> 0x20" using Suc.prems(1,3) nth_mem [of n s] by (auto simp del: nth_mem)
    then show ?thesis using True by simp
  qed (use Suc in auto)
qed simp

section \<open>Building an entry\<close>

lemma blit_blit:
  "off + length xs + length ys \<le> length buf \<Longrightarrow> blit (blit buf off xs) (off + length xs) ys = blit buf off (xs @ ys)"
  by (simp add: blit_def ac_simps)

lemma entry_name_loop_run:
  "CHR ''.'' \<notin> set b \<Longrightarrow> off + length b \<le> length entry \<Longrightarrow>
     entry_name_loop (b @ rest) off entry = entry_name_loop rest (off + length b) (blit entry off (map of_char b))"
proof (induction b arbitrary: off entry)
  case (Cons c b)
  then have "entry_name_loop (b @ rest) (off + 1) (blit entry off [of_char c]) =
      entry_name_loop rest (off + 1 + length b) (blit (blit entry off [of_char c]) (off + 1) (map of_char b))"
    by (intro Cons.IH) (auto simp: length_blit)
  also have "blit (blit entry off [of_char c]) (off + 1) (map of_char b) = blit entry off (map of_char (c # b))"
    using blit_blit [of off "[of_char c]" "map of_char b" entry] Cons.prems by simp
  finally show ?case using Cons.prems by auto
qed (simp add: blit_def)

definition name_field :: "string \<Rightarrow> string \<Rightarrow> u8 list" where
  "name_field b e = map of_char b @ replicate (8 - length b) 0x20 @ map of_char e @ replicate (3 - length e) 0x20"

lemma name_field_extension:
  "length b \<le> 8 \<Longrightarrow> name_field b e ! (8 + i) = (map of_char e @ replicate (3 - length e) 0x20) ! i"
  using nth_append_length_plus [of "map of_char b @ replicate (8 - length b) 0x20" "map of_char e @ replicate (3 - length e) 0x20" i]
  by (simp add: name_field_def)

lemma entry_name_field:
  assumes "length b \<le> 8" and "length e \<le> 3" and "CHR ''.'' \<notin> set b" and "CHR ''.'' \<notin> set e"
  shows "entry_name_loop (b @ (if e = [] then [] else CHR ''.'' # e)) 0 (blit (replicate ENTRY_BYTES 0) 0 (replicate 11 0x20))
    = name_field b e @ replicate 21 0"
proof -
  let ?e0 = "replicate 11 0x20 @ replicate 21 (0 :: u8)"
  have e0: "blit (replicate ENTRY_BYTES 0) 0 (replicate 11 0x20) = ?e0" by (simp add: blit_def ENTRY_BYTES_def)
  have sp: "replicate 11 (0x20 :: u8) = replicate (length b) 0x20 @ replicate (8 - length b) 0x20 @ replicate 3 0x20"
    using assms(1) by (simp flip: replicate_add)
  have e1: "blit ?e0 0 (map of_char b) = map of_char b @ replicate (8 - length b) 0x20 @ replicate 3 0x20 @ replicate 21 0"
    unfolding sp by (simp add: blit_def)
  have sp3: "replicate 3 (0x20 :: u8) = replicate (length e) 0x20 @ replicate (3 - length e) 0x20"
    using assms(2) by (simp flip: replicate_add)
  have e2: "blit (map of_char b @ replicate (8 - length b) 0x20 @ replicate 3 0x20 @ replicate 21 0) 8 (map of_char e)
      = name_field b e @ replicate 21 0"
    unfolding sp3 name_field_def using assms(1) by (simp add: blit_def)
  show ?thesis
    using entry_name_loop_run [OF assms(3), of 0 ?e0] entry_name_loop_run [OF assms(4), of 8 "blit ?e0 0 (map of_char b)" "[]"]
      assms(1,2) e1 e2 e0 by (auto simp: name_field_def)
qed

text \<open>The bytes of a finished entry.\<close>

lemma take_put16: "n \<le> i \<Longrightarrow> i \<le> length p \<Longrightarrow> take n (put16 p i x) = take n p"
  by (simp add: put16_def take_blit_before)

lemma put_index:
  "i + 2 \<le> length p \<Longrightarrow> j < length p \<Longrightarrow> j \<noteq> i \<Longrightarrow> j \<noteq> i + 1 \<Longrightarrow> put16 p i n ! j = p ! j"
  by (simp add: nth_put16)

lemma u16_at_put16_other:
  "i + 2 \<le> length p \<Longrightarrow> j + 2 \<le> length p \<Longrightarrow> j + 2 \<le> i \<or> i + 2 \<le> j \<Longrightarrow> u16_at (put16 p i n) j = u16_at p j"
  by (auto simp: u16_at_def nth_put16)

lemma u16_at_put16_same: "i + 2 \<le> length p \<Longrightarrow> u16_at (put16 p i n) i = n mod 65536"
  using mod_mult2_eq [of n 256 256] by (simp add: u16_at_def nth_put16 unat_of_nat)

lemma make_entry_fields:
  fixes name first sz is_directory
  defines "entry \<equiv> make_entry name is_directory first sz"
  assumes "length b \<le> 8" and "length e \<le> 3" and "CHR ''.'' \<notin> set b" and "CHR ''.'' \<notin> set e"
    and "name = b @ (if e = [] then [] else CHR ''.'' # e)"
  shows "length entry = ENTRY_BYTES" "take 11 entry = name_field b e" "entry ! 11 = (if is_directory then 0x10 else 0x20)"
    "u16_at entry 20 = 0" "u16_at entry 26 = first mod 65536" "u32_at entry 28 = sz mod 4294967296"
proof -
  define e1 where "e1 = (name_field b e @ replicate 21 0)[11 := if is_directory then 0x10 else 0x20]"
  have entry: "entry = put16 (put16 (put16 (put16 (put16 (put16 e1 16 0x21) 18 0x21) 24 0x21) 26 first) 28 sz) 30 (sz div 65536)"
    unfolding entry_def make_entry_def Let_def stamp_entry_def put32_def assms(6) entry_name_field [OF assms(2-5)] e1_def by simp
  have len: "length (name_field b e) = 11" using assms(2,3) by (simp add: name_field_def)
  then have l1: "length e1 = 32" by (simp add: e1_def)
  show "length entry = ENTRY_BYTES" by (simp add: entry l1 ENTRY_BYTES_def)
  show "take 11 entry = name_field b e" using len by (simp add: entry l1 take_put16 e1_def)
  show "entry ! 11 = (if is_directory then 0x10 else 0x20)" using len by (simp add: entry l1 put_index e1_def)
  have "u16_at e1 20 = 0" using len by (simp add: u16_at_def e1_def nth_append)
  then show "u16_at entry 20 = 0" by (simp add: entry l1 u16_at_put16_other)
  show "u16_at entry 26 = first mod 65536" by (simp add: entry l1 u16_at_put16_other u16_at_put16_same)
  have "u32_at entry 28 = sz mod 65536 + 65536 * (sz div 65536 mod 65536)"
    by (simp add: u32_at_def entry l1 u16_at_put16_other u16_at_put16_same)
  then show "u32_at entry 28 = sz mod 4294967296" using mod_mult2_eq [of sz 65536 65536] by simp
qed

section \<open>Reading an entry back\<close>

lemma short_name_field:
  assumes "take 11 entry = name_field b e" and "11 \<le> length entry"
    and "1 \<le> length b" and "length b \<le> 8" and "length e \<le> 3" and "list_all name_char b" and "list_all name_char e"
  shows "short_name entry =
    (let full = map upcase b @ (if e = [] then [] else CHR ''.'' # map upcase e)
     in if name83 full then Inr full else Inl FS_NOT_FOUND)"
proof -
  have nth: "entry ! i = name_field b e ! i" if "i < 11" for i
    using that assms(1) nth_take [of i 11 entry] by simp
  have clean: "0x20 \<notin> set (map of_char s :: u8 list)" if "list_all name_char s" for s
    using that name_byte_char(1) by (fastforce simp: list_all_iff)
  have pad1: "entry ! i = 0x20" if "length b \<le> i" "i < 8" for i
  proof -
    have "i - length b < 8 - length b" using that by simp
    then show ?thesis using that nth [of i] by (simp add: name_field_def nth_append)
  qed
  have pad2: "entry ! (8 + i) = 0x20" if "length e \<le> i" "i < 3" for i
  proof -
    have "i - length e < 3 - length e" using that by simp
    then show ?thesis using that nth [of "8 + i"] by (simp add: name_field_extension [OF assms(4)] nth_append)
  qed
  have base: "trim_count entry 0 8 = length b"
    using trim_count_padded [of "map of_char b" entry 0 8, OF _ _ clean [OF assms(6)]] pad1 assms(4)
    by (simp add: nth name_field_def nth_append)
  have ext: "trim_count entry 8 3 = length e"
    using trim_count_padded [of "map of_char e" entry 8 3, OF _ _ clean [OF assms(7)]] pad2 assms(5)
    by (simp add: nth name_field_extension [OF assms(4)] nth_append)
  have "take (length b) entry = take (length b) (name_field b e)"
    using take_takeD [OF assms(1), of "length b"] assms(4) by simp
  then have b: "take (length b) entry = map of_char b" by (simp add: name_field_def)
  have "take (length e) (drop 8 entry) = take (length e) (drop 8 (take 11 entry))" using assms(5) by (simp add: drop_take)
  then have e: "take (length e) (drop 8 entry) = map of_char e" using assms(1,4) by (simp add: name_field_def)
  show ?thesis
    using assms(3) by (auto simp: short_name_def base ext b e name_part_chars assms(6,7) fs_name_check_iff Let_def)
qed

lemma name83_split:
  assumes "name83 name"
  obtains b e where "name = b @ (if e = [] then [] else CHR ''.'' # e)" and "1 \<le> length b" and "length b \<le> 8"
    and "length e \<le> 3" and "list_all name_char b" and "list_all name_char e"
    and "CHR ''.'' \<notin> set b" and "CHR ''.'' \<notin> set e"
proof -
  define b r where "b = takeWhile (\<lambda>c. c \<noteq> CHR ''.'') name" and "r = dropWhile (\<lambda>c. c \<noteq> CHR ''.'') name"
  have name: "name = b @ r" by (simp add: b_def r_def)
  have dot: "r \<noteq> [] \<Longrightarrow> r = CHR ''.'' # tl r"
    unfolding r_def using hd_dropWhile [of "\<lambda>c. c \<noteq> CHR ''.''" name] by (metis list.collapse)
  have f: "1 \<le> length b" "length b \<le> 8" "list_all name_char b"
    "r = [] \<or> (1 \<le> length (tl r) \<and> length (tl r) \<le> 3 \<and> list_all name_char (tl r))"
    using assms by (simp_all add: name83_def Let_def b_def r_def)
  have plain: "list_all name_char s \<Longrightarrow> CHR ''.'' \<notin> set s" for s by (auto simp: list_all_iff name_char_def)
  show thesis
  proof (rule that [of b "tl r"])
    show "name = b @ (if tl r = [] then [] else CHR ''.'' # tl r)" using name dot f(4) by (cases r) auto
  qed (use f plain in auto)
qed

lemma fat16_decode_make_entry:
  assumes "name83 name" and "first < 65536" and "sz < 4294967296"
  shows "fat16_decode (make_entry name is_directory first sz) ident v =
    on_value (decode_clusters
        \<lparr>desc_node = \<lparr>node_id = ident, node_size = sz, node_kind = if is_directory then FS_DIRECTORY else FS_FILE\<rparr>,
         desc_first = first, desc_length = 0\<rparr> v)
      (\<lambda>d v1. (Inr (d, map upcase name), v1))"
proof -
  obtain b e where n: "name = b @ (if e = [] then [] else CHR ''.'' # e)" "1 \<le> length b" "length b \<le> 8"
    "length e \<le> 3" "list_all name_char b" "list_all name_char e" "CHR ''.'' \<notin> set b" "CHR ''.'' \<notin> set e"
    using name83_split [OF assms(1)] by blast
  define entry where "entry = make_entry name is_directory first sz"
  note f = make_entry_fields [OF n(3,4,7,8,1), of is_directory first sz, folded entry_def]
  have full: "map upcase name = map upcase b @ (if e = [] then [] else CHR ''.'' # map upcase e)" by (simp add: n(1) upcase_def)
  have short: "short_name entry = Inr (map upcase name)"
    using short_name_field [OF f(2) _ n(2-6)] f(1) name83_upcase [OF assms(1)] by (simp add: ENTRY_BYTES_def full)
  have b0: "b \<noteq> []" "name_char (hd b)" using n(2,5) by (cases b; simp)+
  have "entry ! 0 = name_field b e ! 0" using f(1) f(2) [symmetric] by (simp add: ENTRY_BYTES_def)
  then have "entry ! 0 = of_char (hd b)" using b0 by (cases b) (auto simp: name_field_def)
  then have "entry ! 0 \<noteq> 0" "entry ! 0 \<noteq> 0xe5" "entry ! 0 \<noteq> 0x2E" using name_byte_char [OF b0(2)] by simp_all
  moreover have "entry ! 11 AND 8 = 0" "entry ! 11 AND 0xc0 = 0" by (simp_all add: f(3))
  moreover have "entry_description entry ident =
      \<lparr>desc_node = \<lparr>node_id = ident, node_size = sz, node_kind = if is_directory then FS_DIRECTORY else FS_FILE\<rparr>,
       desc_first = first, desc_length = 0\<rparr>"
    using assms(2,3) by (simp add: entry_description_def entry_kind_of_def f)
  ultimately show ?thesis by (simp add: fat16_decode_def entry_def [symmetric] short f(4))
qed

end
