(* ===== verification/Rum_Fat16_Safe.thy ===== *)
theory Rum_Fat16_Safe
  imports Rum_Fat16_Name
begin

text \<open>
  What the FAT16 operations do to the device. An observation \<open>disk\<close> of a device is \<^emph>\<open>inert\<close> when the
  driver's reads and flushes do not change it. Reading operations keep such an observation and the
  whole logical state of the volume; a mutation that fails either kept it or leaves the volume faulted,
  and a faulted volume refuses every mutation.
\<close>

section \<open>Reading keeps the volume\<close>

definition inert :: "'d block_operations option \<Rightarrow> ('d block_device \<Rightarrow> 'x) \<Rightarrow> bool" where
  "inert ops disk \<longleftrightarrow>
     (\<forall>d b. disk (d\<lparr>dev_busy := b\<rparr>) = disk d) \<and>
     (\<forall>t f lba n b d. ops = Some t \<longrightarrow> bop_read t = Some f \<longrightarrow> disk (snd (snd (f lba n b d))) = disk d) \<and>
     (\<forall>t f d. ops = Some t \<longrightarrow> bop_flush t = Some f \<longrightarrow> disk (snd (f d)) = disk d)"

definition kept :: "('d block_device \<Rightarrow> 'x) \<Rightarrow> 'd fat16_volume \<Rightarrow> 'd fat16_volume \<Rightarrow> bool" where
  "kept disk v v' \<longleftrightarrow>
     disk (device (vol_layer v')) = disk (device (vol_layer v)) \<and> vol_started v' = vol_started v \<and>
     vol_info v' = vol_info v \<and> vol_fat v' = vol_fat v \<and> vol_pins v' = vol_pins v \<and> vol_ready v' = vol_ready v"

lemma kept_refl [simp]: "kept disk v v" by (simp add: kept_def)

lemma kept_trans: "kept disk v v1 \<Longrightarrow> kept disk v1 v2 \<Longrightarrow> kept disk v v2" by (simp add: kept_def)

text \<open>Updates of fields outside the logical state.\<close>

lemma kept_updates [simp]:
  "kept disk v (v'\<lparr>vol_sector := b\<rparr>) = kept disk v v'" "kept disk v (v'\<lparr>vol_cache_valid := c\<rparr>) = kept disk v v'"
  "kept disk v (v'\<lparr>vol_cached_sector := n\<rparr>) = kept disk v v'" "kept disk v (v'\<lparr>vol_last_io := i\<rparr>) = kept disk v v'"
  "kept disk v (v'\<lparr>vol_visited := b\<rparr>) = kept disk v v'" "kept disk v (v'\<lparr>vol_owners := b\<rparr>) = kept disk v v'"
  "kept disk v (v'\<lparr>vol_audited := c\<rparr>) = kept disk v v'" "kept disk v (v'\<lparr>vol_heap_calls := n\<rparr>) = kept disk v v'"
  by (simp_all add: kept_def)

lemma kept_on_value:
  "kept disk v (snd m) \<Longrightarrow> (\<And>x. kept disk (snd m) (snd (k x (snd m)))) \<Longrightarrow> kept disk v (snd (on_value m k))"
  by (cases m; cases "fst m") (auto intro: kept_trans)

lemma block_read_inert:
  "inert ops disk \<Longrightarrow> disk (device (snd (snd (block_read ops lba n b m s)))) = disk (device s)"
  by (auto simp: inert_def block_read_def block_acquire_def block_release_def Let_def split: prod.splits option.splits)
     (metis snd_conv)+

lemma block_flush_inert: "inert ops disk \<Longrightarrow> disk (device (snd (block_flush ops s))) = disk (device s)"
  by (auto simp: inert_def block_flush_def block_acquire_def block_release_def Let_def split: prod.splits option.splits)
     (metis snd_conv)+

lemma device_result_kept [simp]: "kept disk v (snd (device_result r n v')) = kept disk v v'"
  by (simp add: device_result_def Let_def)

lemma read_sectors_kept: "inert ops disk \<Longrightarrow> kept disk v (snd (fat16_read_sectors ops sec n b v))"
  using block_read_inert [of ops disk sec n "Some b" "n * FAT16_SECTOR_SIZE" "vol_layer v"]
  by (auto simp: fat16_read_sectors_def Let_def split: prod.splits) (simp add: kept_def device_result_def Let_def split: prod.splits)

lemma sector_kept: "inert ops disk \<Longrightarrow> kept disk v (snd (fat16_sector ops n v))"
  using read_sectors_kept [of ops disk "v\<lparr>vol_cache_valid := False\<rparr>" n 1 "vol_sector v"]
  by (auto simp: fat16_sector_def Let_def kept_def split: prod.splits)

lemma chain_kept: "kept disk v (snd (fat16_chain first v))"
proof -
  obtain r v' where c: "fat16_chain first v = (r, v')" by fastforce
  then obtain x where "v' = v\<lparr>vol_visited := x\<rparr>" using fat16_chain_sound [OF c] unfolding visited_only_def by blast
  then show ?thesis by (simp add: c)
qed

lemma decode_clusters_kept: "kept disk v (snd (decode_clusters d v))"
  unfolding decode_clusters_def Let_def by (auto intro!: kept_on_value chain_kept)

lemma decode_kept: "kept disk v (snd (fat16_decode entry ident v))"
  unfolding fat16_decode_def by (auto intro!: kept_on_value decode_clusters_kept split: sum.splits)

lemma describe_kept: "inert ops disk \<Longrightarrow> kept disk v (snd (fat16_describe ops ident v))"
proof -
  assume q: "inert ops disk"
  have k: "kept disk v1 (snd (case fat16_decode (sector_entry offset v1) ident v1 of
      (Inl error, v2) \<Rightarrow> (Inl (if error = FS_END then FS_NOT_FOUND else error), v2) | (Inr (d, _), v2) \<Rightarrow> (Inr d, v2)))" for offset v1
    using decode_kept [of disk v1 "sector_entry offset v1" ident] by (auto split: prod.splits sum.splits)
  show ?thesis unfolding fat16_describe_def by (auto intro!: kept_on_value sector_kept q k split: option.splits)
qed

lemma directory_entry_kept: "inert ops disk \<Longrightarrow> kept disk v (snd (fat16_directory_entry ops d cursor v))"
  unfolding fat16_directory_entry_def by (auto intro!: kept_on_value sector_kept decode_kept split: sum.splits option.splits)

lemma entry_read_kept: "inert ops disk \<Longrightarrow> kept disk v (snd (entry_read ops ident v))"
  unfolding entry_read_def by (auto intro!: kept_on_value sector_kept split: option.splits)

lemma slot_read_kept: "inert ops disk \<Longrightarrow> kept disk v (snd (slot_read ops d cursor v))"
  unfolding slot_read_def by (auto intro!: kept_on_value entry_read_kept split: sum.splits)

lemma own_loop_kept: "kept disk v (snd (own_loop n c v))"
proof (induction n arbitrary: c v)
  case (Suc n)
  show ?case using Suc [of "v\<lparr>vol_owners := cluster_set (vol_owners v) c\<rparr>" "fat16_next_cluster (vol_fat v) c"]
    by (auto simp: kept_def)
qed simp

lemma audit_child_kept: "kept disk v (snd (audit_child child v))"
  unfolding audit_child_def own_chain_def Let_def by (auto intro!: kept_on_value chain_kept own_loop_kept)

lemma audit_slot_kept: "inert ops disk \<Longrightarrow> kept disk v (snd (audit_slot ops d parent cursor budget v))"
  unfolding audit_slot_def
  by (auto intro!: kept_on_value slot_read_kept audit_child_kept split: sum.splits audit_verdict.splits prod.splits)

lemma audit_loop_kept: "inert ops disk \<Longrightarrow> kept disk v (snd (audit_loop ops d parent depth0 count cursor budget v))"
proof (induction ops d parent depth0 count cursor budget v rule: audit_loop.induct)
  case (1 ops d parent depth0 count cursor budget v)
  obtain r v1 where s: "audit_slot ops d parent cursor budget v = (r, v1)" by fastforce
  have k: "kept disk v v1" using audit_slot_kept [OF "1.prems", of v d parent cursor budget] by (simp add: s)
  show ?case
  proof (cases "depth0 > FS_PATH_DEPTH \<or> \<not> cursor < count")
    case False
    then have g: "\<not> depth0 > FS_PATH_DEPTH" "cursor < count" by auto
    note e = audit_loop.simps [of ops d parent depth0 count cursor budget v]
    show ?thesis
    proof (cases "r = Inr Audit_Skip")
      case True
      then show ?thesis using kept_trans [OF k 1(1) [OF g s [symmetric] True refl "1.prems"]] g by (simp add: e s)
    next
      case ns: False
      show ?thesis
      proof (cases "\<exists>c. r = Inr (Audit_Child c)")
        case True
        then obtain c where c: "r = Inr (Audit_Child c)" by blast
        show ?thesis
        proof (cases "node_kind (desc_node c) = FS_DIRECTORY")
          case True
          obtain r2 v2 where l: "audit_loop ops c (if node_id (desc_node d) \<noteq> ROOT_ID then desc_first d else 0) (depth0 + 1)
              (fat16_directory_slots (vol_info v1) c) 0 (budget - 1) v1 = (r2, v2)" by fastforce
          have k2: "kept disk v v2" using kept_trans [OF k 1(2) [OF g s [symmetric] c refl True "1.prems"]] by (simp only: l snd_conv)
          show ?thesis
          proof (cases r2)
            case (Inr n)
            show ?thesis using kept_trans [OF k2 1(3) [OF g s [symmetric] c refl True l [symmetric] Inr "1.prems"]] g True l Inr
              by (simp add: e s c)
          qed (use k2 g True l in \<open>simp add: e s c\<close>)
        next
          case False
          then show ?thesis using kept_trans [OF k 1(4) [OF g s [symmetric] c refl False "1.prems"]] g by (simp add: e s c)
        qed
      next
        case False
        then show ?thesis using k g ns by (auto simp: e s split: sum.splits audit_verdict.splits)
      qed
    qed
  qed (auto simp: audit_loop.simps [of ops d])
qed

lemma writable_kept: "inert ops disk \<Longrightarrow> kept disk v (snd (fat16_writable ops v))"
  unfolding fat16_writable_def audit_directory_def
  by (auto intro!: kept_on_value kept_trans [OF _ audit_loop_kept])

lemma fat_copy_kept: "kept disk v (snd (fat_copy kmalloc v))"
  by (simp add: fat_copy_def Let_def)

lemma find_step_kept:
  "inert ops disk \<Longrightarrow> kept disk v (snd (find_step ops name count cursor reusable long_name t v))"
proof -
  have "kept disk v1 v2" if "fat16_decode entry ident v1 = (r, v2)" for entry ident v1 r and v2 :: "'a fat16_volume"
    using decode_kept [of disk v1 entry ident] that by simp
  then show "inert ops disk \<Longrightarrow> ?thesis"
    unfolding find_step_def Let_def by (auto intro!: kept_on_value slot_read_kept split: prod.splits sum.splits)
qed

lemma find_loop_kept:
  "inert ops disk \<Longrightarrow> kept disk v (snd (find_loop ops name count n cursor reusable long_name t v))"
  by (induction n arbitrary: cursor reusable long_name t v)
     (auto intro!: kept_on_value find_step_kept split: find_verdict.splits)

lemma find_target_kept: "inert ops disk \<Longrightarrow> kept disk v (snd (find_target ops parent name v))"
  unfolding find_target_def Let_def
  by (auto intro!: kept_on_value describe_kept find_loop_kept split: prod.splits)

lemma by_id_kept: "inert ops disk \<Longrightarrow> kept disk v (snd (by_id ops ident v))"
  unfolding by_id_def by (auto intro!: kept_on_value describe_kept entry_read_kept)

lemma empty_loop_kept: "inert ops disk \<Longrightarrow> kept disk v (snd (empty_loop ops d n i v))"
  by (induction n arbitrary: i v) (auto intro!: kept_on_value slot_read_kept split: prod.splits)

section \<open>Writing is recorded\<close>

text \<open>A step of a mutation: either it has started to write, or the observation is unchanged.\<close>

definition tame :: "('d block_device \<Rightarrow> 'x) \<Rightarrow> 'd fat16_volume \<Rightarrow> 'd fat16_volume \<Rightarrow> bool" where
  "tame disk v v' \<longleftrightarrow>
     (vol_started v \<longrightarrow> vol_started v') \<and>
     (\<not> vol_started v' \<longrightarrow> disk (device (vol_layer v')) = disk (device (vol_layer v))) \<and>
     vol_info v' = vol_info v \<and> vol_pins v' = vol_pins v \<and> vol_ready v' = vol_ready v"

lemma tame_refl [simp]: "tame disk v v" by (simp add: tame_def)

lemma tame_trans: "tame disk v v1 \<Longrightarrow> tame disk v1 v2 \<Longrightarrow> tame disk v v2" by (auto simp: tame_def)

lemma kept_tame: "kept disk v v' \<Longrightarrow> tame disk v v'" by (simp add: kept_def tame_def)

lemma tame_fat [simp]: "tame disk v (v'\<lparr>vol_fat := f\<rparr>) = tame disk v v'" by (simp add: tame_def)

lemma tame_on_value:
  "tame disk v (snd m) \<Longrightarrow> (\<And>x. tame disk (snd m) (snd (k x (snd m)))) \<Longrightarrow> tame disk v (snd (on_value m k))"
  by (cases m; cases "fst m") (auto intro: tame_trans)

lemma write_sector_tame: "tame disk v (snd (write_sector ops sec data v))"
  by (auto simp: write_sector_def Let_def device_result_def tame_def split: prod.splits)

lemma flush_device_tame: "inert ops disk \<Longrightarrow> tame disk v (snd (flush_device ops v))"
  using block_flush_inert [of ops disk "vol_layer v"]
  by (auto simp: flush_device_def Let_def device_result_def tame_def split: prod.splits)

lemmas sector_tame = kept_tame [OF sector_kept]

lemma entry_write_tame: "inert ops disk \<Longrightarrow> tame disk v (snd (entry_write ops ident entry v))"
  unfolding entry_write_def by (auto intro!: tame_on_value sector_tame write_sector_tame split: option.splits)

lemma persist_loop_tame: "tame disk v (snd (persist_loop ops start fat n i changed v))"
  by (induction n arbitrary: i changed v) (auto intro!: tame_on_value write_sector_tame)

lemma persist_copy_tame: "inert ops disk \<Longrightarrow> tame disk v (snd (persist_copy ops copy fat v))"
  unfolding persist_copy_def Let_def by (auto intro!: tame_on_value persist_loop_tame flush_device_tame)

lemma persist_fat_tame: "inert ops disk \<Longrightarrow> tame disk v (snd (persist_fat ops fat v))"
  unfolding persist_fat_def by (auto intro!: tame_on_value persist_copy_tame)

lemma zero_loop_tame: "tame disk v (snd (zero_loop ops cluster n i data v))"
  by (induction n arbitrary: i data v) (auto intro!: tame_on_value write_sector_tame)

lemma zero_cluster_tame: "tame disk v (snd (zero_cluster ops cluster self parent v))"
  unfolding zero_cluster_def by (rule zero_loop_tame)

lemma grow_directory_tame: "tame disk v (snd (grow_directory ops t fat v))"
  unfolding grow_directory_def Let_def by (auto intro!: tame_on_value zero_cluster_tame split: prod.splits sum.splits)

lemma publish_tame: "inert ops disk \<Longrightarrow> tame disk v (snd (publish ops t entry v))"
  unfolding publish_def publish_end_def
  by (auto intro!: tame_on_value kept_tame [OF slot_read_kept] entry_write_tame flush_device_tame split: prod.splits)

lemma copy_sectors_tame:
  "inert ops disk \<Longrightarrow> tame disk v (snd (copy_sectors ops old sz offset patch bytes keep cluster old_cluster n i base v))"
proof (induction n arbitrary: i base v)
  case (Suc n)
  have "tame disk v1 (snd (old_sector ops old old_cluster i base sz keep v1))" for v1
    unfolding old_sector_def using Suc.prems by (auto intro!: tame_on_value sector_tame)
  with Suc show ?case by (auto intro!: tame_on_value write_sector_tame)
qed simp

lemma copy_loop_tame:
  "inert ops disk \<Longrightarrow>
     tame disk v (snd (copy_loop ops old fat sz offset patch bytes keep sectors cluster old_cluster index base v))"
proof (induction ops old fat sz offset patch bytes keep sectors cluster old_cluster index base v rule: copy_loop.induct)
  case (1 ops old fat sz offset patch bytes keep sectors cluster old_cluster index base v)
  obtain r v1 where c: "copy_sectors ops old sz offset patch bytes keep cluster old_cluster sectors 0 base v = (r, v1)" by fastforce
  have t: "tame disk v v1"
    using copy_sectors_tame [OF "1.prems", of v old sz offset patch bytes keep cluster old_cluster sectors 0 base] by (simp add: c)
  note e = copy_loop.simps [of ops old fat sz offset patch bytes keep sectors cluster old_cluster index base v]
  show ?case
  proof (cases "base < sz \<and> sectors \<noteq> 0")
    case True
    then show ?thesis
      using t "1.IH" [OF True c [symmetric] _ "1.prems"] by (cases r) (auto simp: e c intro: tame_trans)
  next
    case False
    then show ?thesis unfolding e by (simp only: if_False tame_refl snd_conv)
  qed
qed

lemma copy_contents_tame:
  "inert ops disk \<Longrightarrow> tame disk v (snd (copy_contents ops old fat first sz offset patch bytes keep v))"
  unfolding copy_contents_def by (rule copy_loop_tame)

lemma rewrite_prepare_tame:
  "inert ops disk \<Longrightarrow> tame disk v (snd (rewrite_prepare ops t sz offset data bytes keep needed fat v))"
  unfolding rewrite_prepare_def Let_def
  by (auto intro!: tame_on_value copy_contents_tame grow_directory_tame flush_device_tame persist_fat_tame publish_tame
      split: prod.splits sum.splits)

lemma mkdir_commit_tame: "inert ops disk \<Longrightarrow> tame disk v (snd (mkdir_commit ops t parent name cluster fat v))"
  unfolding mkdir_commit_def Let_def
  by (auto intro!: tame_on_value zero_cluster_tame flush_device_tame persist_fat_tame publish_tame split: prod.splits)

section \<open>Mutations\<close>

text \<open>A failed operation: nothing was written, or the volume is faulted.\<close>

definition confined :: "('d block_device \<Rightarrow> 'x) \<Rightarrow> 'd fat16_volume \<Rightarrow> fs_error + 'a \<Rightarrow> 'd fat16_volume \<Rightarrow> bool" where
  "confined disk v r v' \<longleftrightarrow>
     (\<forall>e. r = Inl e \<longrightarrow> disk (device (vol_layer v')) = disk (device (vol_layer v)) \<or> fi_faulted (vol_info v'))"

lemma kept_confined: "kept disk v v' \<Longrightarrow> confined disk v r v'" by (simp add: kept_def confined_def)

lemma confined_Inl_kept: "kept disk v v1 \<Longrightarrow> confined disk v1 r v2 \<Longrightarrow> confined disk v r v2"
  by (auto simp: kept_def confined_def)

lemma confined_on_value:
  assumes "kept disk v (snd m)" and "\<And>x. confined disk (snd m) (fst (k x (snd m))) (snd (k x (snd m)))"
  shows "confined disk v (fst (on_value m k)) (snd (on_value m k))"
  using assms by (cases m; cases "fst m") (auto intro: kept_confined confined_Inl_kept)

lemma finish_confined:
  assumes "tame disk (v\<lparr>vol_started := False\<rparr>) (snd r)"
  shows "confined disk v (fst (finish r (vol_started (snd r)))) (snd (finish r (vol_started (snd r))))"
  using assms by (auto simp: finish_def tame_def confined_def Let_def)

lemma rewrite_settle_confined:
  assumes q: "inert ops disk" and "tame disk (v\<lparr>vol_started := False\<rparr>) (snd p)"
  shows "confined disk v (fst (fst (rewrite_settle ops t p))) (snd (rewrite_settle ops t p))"
proof (cases p)
  case (Pair r v2)
  show ?thesis
  proof (cases r)
    case (Inl e)
    then show ?thesis using finish_confined [of disk v "(Inl e, v2)"] assms(2) Pair
      by (auto simp: rewrite_settle_def split: prod.splits)
  next
    case (Inr fat)
    obtain r3 v3 where l: "persist_fat ops (free_chain fat (t_old t) v2) v2 = (r3, v3)" by fastforce
    have "tame disk (v\<lparr>vol_started := False\<rparr>) v3"
      using tame_trans [OF assms(2) persist_fat_tame [OF q, of "snd p" "free_chain fat (t_old t) v2"]] by (simp add: Pair l)
    then show ?thesis using finish_confined [of disk v "(r3, v3)"] Pair Inr
      by (auto simp: rewrite_settle_def l split: prod.splits)
  qed
qed

lemma rewrite_confined:
  assumes q: "inert ops disk"
  shows "confined disk v (fst (fst (rewrite ops kmalloc t sz offset data bytes keep v)))
           (snd (rewrite ops kmalloc t sz offset data bytes keep v))"
proof -
  obtain fat v1 where f: "fat_copy kmalloc v = (fat, v1)" by fastforce
  have k: "kept disk v v1" using fat_copy_kept [of disk v kmalloc] by (simp add: f)
  show ?thesis
    unfolding rewrite_def Let_def f
    by (auto intro: kept_confined k confined_Inl_kept [OF k] rewrite_settle_confined q rewrite_prepare_tame split: option.splits)
qed

text \<open>The mutations as one function.\<close>

datatype fat16_request =
    Write_File nat nat "u8 list" nat | Replace_File nat string "u8 list" nat | Truncate_File nat nat
  | Make_Directory nat string | Remove_Node nat string

fun fat16_mutate ::
  "'d block_operations option \<Rightarrow> (nat \<Rightarrow> nat \<Rightarrow> u8 list option) \<Rightarrow> fat16_request \<Rightarrow> 'd fat16_volume \<Rightarrow> fs_error \<times> 'd fat16_volume" where
  "fat16_mutate ops kmalloc (Write_File ident offset data bytes) v =
     (let (r, v') = fat16_write_file ops kmalloc ident offset data bytes v in (io_error r, v'))"
| "fat16_mutate ops kmalloc (Replace_File parent name data bytes) v = out_status (fat16_replace_file ops kmalloc parent name data bytes v)"
| "fat16_mutate ops kmalloc (Truncate_File ident sz) v = out_status (fat16_truncate_file ops kmalloc ident sz v)"
| "fat16_mutate ops kmalloc (Make_Directory parent name) v = out_status (fat16_mkdir_node ops kmalloc parent name v)"
| "fat16_mutate ops kmalloc (Remove_Node parent name) v = out_status (fat16_remove_node ops kmalloc parent name v)"

lemma replace_confined:
  "inert ops disk \<Longrightarrow> confined disk v (fst (fat16_replace_file ops kmalloc parent name data bytes v))
     (snd (fat16_replace_file ops kmalloc parent name data bytes v))"
  unfolding fat16_replace_file_def Let_def
  by (intro confined_on_value writable_kept find_target_kept) (auto simp: case_prod_beta intro: kept_confined rewrite_confined)

lemma truncate_confined:
  "inert ops disk \<Longrightarrow> confined disk v (fst (fat16_truncate_file ops kmalloc ident sz v)) (snd (fat16_truncate_file ops kmalloc ident sz v))"
  unfolding fat16_truncate_file_def Let_def
  by (intro confined_on_value kept_on_value writable_kept by_id_kept) (auto simp: case_prod_beta intro: kept_confined rewrite_confined)

lemma on_fat_copy_confined:
  assumes "\<And>fat v1. tame disk v1 (snd (act fat v1))"
  shows "confined disk v (fst (on_fat_copy kmalloc act v)) (snd (on_fat_copy kmalloc act v))"
proof -
  obtain fat v1 where f: "fat_copy kmalloc v = (fat, v1)" by fastforce
  have k: "kept disk v v1" using fat_copy_kept [of disk v kmalloc] by (simp add: f)
  show ?thesis using finish_confined [OF assms] unfolding on_fat_copy_def Let_def
    by (cases fat) (auto simp: f intro: kept_confined k confined_Inl_kept [OF k])
qed

lemma mkdir_confined:
  assumes "inert ops disk"
  shows "confined disk v (fst (fat16_mkdir_node ops kmalloc parent name v)) (snd (fat16_mkdir_node ops kmalloc parent name v))"
proof -
  have "tame disk v1 (snd (mkdir_apply ops t parent name fat v1))" for t fat v1
    unfolding mkdir_apply_def using mkdir_commit_tame [OF assms] by (auto split: prod.splits sum.splits)
  then show ?thesis unfolding fat16_mkdir_node_def
    by (intro confined_on_value writable_kept find_target_kept assms) (auto intro: kept_confined on_fat_copy_confined)
qed

lemma remove_confined:
  assumes "inert ops disk"
  shows "confined disk v (fst (fat16_remove_node ops kmalloc parent name v)) (snd (fat16_remove_node ops kmalloc parent name v))"
proof -
  have t: "tame disk v1 (snd (remove_apply ops t fat v1))" for t fat v1
    unfolding remove_apply_def by (intro tame_on_value entry_write_tame flush_device_tame persist_fat_tame assms)
  have "kept disk v2 (snd (if node_kind (desc_node (t_old t)) = FS_DIRECTORY
      then empty_loop ops (t_old t) (fat16_directory_slots (vol_info v2) (t_old t) - 2) 2 v2 else (Inr (), v2)))" for t v2
    using empty_loop_kept [OF assms] by simp
  then have "confined disk v2 (fst x) (snd x)" if "x = on_value (if node_kind (desc_node (t_old t)) = FS_DIRECTORY
      then empty_loop ops (t_old t) (fat16_directory_slots (vol_info v2) (t_old t) - 2) 2 v2 else (Inr (), v2))
      (\<lambda>_. on_fat_copy kmalloc (remove_apply ops t))" for x t v2
    unfolding that by (intro confined_on_value on_fat_copy_confined t)
  then show ?thesis unfolding fat16_remove_node_def
    by (intro confined_on_value writable_kept find_target_kept assms) (auto intro: kept_confined)
qed

lemma write_confined:
  assumes q: "inert ops disk" and w: "fat16_write_file ops kmalloc ident offset data bytes v = (r, v')" and "io_error r \<noteq> FS_OK"
  shows "disk (device (vol_layer v')) = disk (device (vol_layer v)) \<or> fi_faulted (vol_info v')"
proof -
  define v0 where "v0 = v\<lparr>vol_last_io := io_result_of FS_OK\<rparr>"
  obtain r1 v1 where m: "on_value (fat16_writable ops v0) (\<lambda>_. by_id ops ident) = (r1, v1)" by fastforce
  have "kept disk v0 (snd (on_value (fat16_writable ops v0) (\<lambda>_. by_id ops ident)))"
    by (intro kept_on_value writable_kept by_id_kept q)
  then have "kept disk v0 v1" by (simp add: m)
  then have k: "kept disk v v1" by (simp add: v0_def kept_def)
  show ?thesis
  proof (cases "\<exists>t. r1 = Inr t \<and> \<not> (offset > node_size (desc_node (t_old t)) \<or> bytes > UINT32_MAX \<or> offset > UINT32_MAX - bytes)")
    case False
    then have "v' = v1" using w m unfolding fat16_write_file_def v0_def [symmetric] by (cases r1) auto
    then show ?thesis using k by (simp add: kept_def)
  next
    case True
    then obtain t where t: "r1 = Inr t" "\<not> (offset > node_size (desc_node (t_old t)) \<or> bytes > UINT32_MAX \<or> offset > UINT32_MAX - bytes)"
      by blast
    let ?sz = "max (offset + bytes) (node_size (desc_node (t_old t)))"
    obtain r2 c v2 where rw: "rewrite ops kmalloc t ?sz offset data bytes True v1 = ((r2, c), v2)" by (metis prod.exhaust)
    have "v' = v2" "io_error r = fs_error_of r2"
      using w m t rw unfolding fat16_write_file_def v0_def [symmetric] by auto
    moreover have "r2 \<noteq> Inr () \<Longrightarrow> \<exists>e. r2 = Inl e" by (cases r2) auto
    ultimately show ?thesis using rewrite_confined [OF q, of v1 kmalloc t ?sz offset data bytes True] rw assms(3) k
      by (cases r2) (auto simp: confined_def kept_def fs_error_of_def)
  qed
qed

lemma confined_status:
  assumes "confined disk v (fst x) (snd x)" and "out_status x = (e, v')" and "e \<noteq> FS_OK"
  shows "disk (device (vol_layer v')) = disk (device (vol_layer v)) \<or> fi_faulted (vol_info v')"
  using assms by (cases x; cases "fst x") (auto simp: confined_def out_status_def fs_error_of_def)

lemma fat16_mutate_confined:
  assumes "inert ops disk" and "fat16_mutate ops kmalloc request v = (e, v')" and "e \<noteq> FS_OK"
  shows "disk (device (vol_layer v')) = disk (device (vol_layer v)) \<or> fi_faulted (vol_info v')"
proof (cases request)
  case (Write_File ident offset data bytes)
  obtain r v2 where w: "fat16_write_file ops kmalloc ident offset data bytes v = (r, v2)" by fastforce
  with assms(2) Write_File have "v2 = v'" "io_error r = e" by auto
  with write_confined [OF assms(1) w] assms(3) show ?thesis by simp
next
  case (Replace_File parent name data bytes)
  then show ?thesis using confined_status [OF replace_confined [OF assms(1)]] assms(2,3) by simp
next
  case (Truncate_File ident sz)
  then show ?thesis using confined_status [OF truncate_confined [OF assms(1)]] assms(2,3) by simp
next
  case (Make_Directory parent name)
  then show ?thesis using confined_status [OF mkdir_confined [OF assms(1)]] assms(2,3) by simp
next
  case (Remove_Node parent name)
  then show ?thesis using confined_status [OF remove_confined [OF assms(1)]] assms(2,3) by simp
qed

lemma fat16_mutate_faulted:
  assumes "vol_ready v" and "fi_faulted (vol_info v)"
  shows "\<exists>io. fat16_mutate ops kmalloc request v = (FS_IO_ERROR, v\<lparr>vol_last_io := io\<rparr>)"
proof -
  have w: "fat16_writable ops v0 = (Inl FS_IO_ERROR, v0)" if "vol_ready v0" "fi_faulted (vol_info v0)" for v0
    using that by (simp add: fat16_writable_def)
  have same: "v\<lparr>vol_last_io := vol_last_io v\<rparr> = v" by simp
  show ?thesis
    using w [of v] w [of "v\<lparr>vol_last_io := io_result_of FS_OK\<rparr>"] assms
    by (cases request; intro exI [of _ "case request of Write_File _ _ _ _ \<Rightarrow> io_result_of FS_OK | _ \<Rightarrow> vol_last_io v"])
       (simp_all add: fat16_write_file_def fat16_replace_file_def fat16_truncate_file_def fat16_mkdir_node_def
         fat16_remove_node_def out_status_def fs_error_of_def)
qed

end
