(* ===== verification/Rum_Fat16_Props.thy ===== *)
theory Rum_Fat16_Props
  imports Rum_Fat16_Safe
begin

text \<open>
  The properties of the FAT16 backend, and a small volume on which they are evaluated: one reserved
  sector, two FAT copies of one sector, a root directory of one slot and one cluster of one sector,
  on a driver whose reads return zeroed sectors and whose writes all fail.
\<close>

section \<open>A small volume\<close>

definition demo_info :: fat16_information where
  "demo_info =
     \<lparr>fi_sectors = 8, fi_clusters = 1, fi_cluster_bytes = 512, fi_fat_start = 1, fi_fat_sectors = 1, fi_root_start = 3,
      fi_root_entries = 1, fi_data_start = 4, fi_mounted = True, fi_writable = True, fi_faulted = False\<rparr>"

definition demo_driver :: "nat block_operations" where
  "demo_driver =
     \<lparr>bop_read = Some (\<lambda>lba n b d. ((block_result_of BLOCK_OK)\<lparr>br_completed := n\<rparr>, replicate (n * 512) 0, d)),
      bop_write = Some (\<lambda>lba n b d. (block_result_of BLOCK_DEVICE_FAULT, d\<lparr>driver := driver d + 1\<rparr>)),
      bop_flush = Some (\<lambda>d. (block_result_of BLOCK_OK, d))\<rparr>"

definition demo_volume :: "nat fat16_volume" where
  "demo_volume =
     \<lparr>vol_layer = \<lparr>device = \<lparr>sector_count = 8, sector_size = 512, online = True, dev_read_only = False, dev_busy = False, driver = 0\<rparr>,
                   active_requests = 0\<rparr>,
      vol_info = demo_info, vol_fat = replicate 512 0, vol_sector = replicate 512 0, vol_visited = replicate BITMAP_BYTES 0,
      vol_owners = replicate BITMAP_BYTES 0, vol_pins = [], vol_last_io = io_result_of FS_OK, vol_cached_sector = 0,
      vol_ready = True, vol_busy = False, vol_cache_valid = False, vol_audited = True, vol_started = False, vol_heap_calls = 0\<rparr>"

definition demo_kmalloc :: "nat \<Rightarrow> nat \<Rightarrow> u8 list option" where
  "demo_kmalloc k n = Some (replicate n 0)"

lemma demo_inert: "inert (Some demo_driver) driver"
  by (simp add: inert_def demo_driver_def)

lemmas demo_eval = demo_volume_def demo_info_def demo_driver_def demo_kmalloc_def root_description_def zero_description_def
  zero_node_def zero_target_def fat16_directory_slots_def fat16_limits find_step_def slot_read_def fat16_directory_slot_def
  entry_read_def fat16_slot_offset_def fat16_sector_def fat16_read_sectors_def block_read_def block_write_def block_acquire_def
  block_validate_def block_release_def device_result_def block_result_of_def fs_status_def sector_entry_def find_target_def fat16_describe_def

lemma demo_mkdir:
  "fst (fat16_mutate (Some demo_driver) demo_kmalloc (Make_Directory ROOT_ID ''A'') demo_volume) = FS_DEVICE_FAULT \<and>
   driver (device (vol_layer (snd (fat16_mutate (Some demo_driver) demo_kmalloc (Make_Directory ROOT_ID ''A'') demo_volume)))) = 1"
  by (simp add: demo_eval fat16_mkdir_node_def fat16_writable_def on_fat_copy_def fat_copy_def mkdir_apply_def fat16_allocate_def
      fat16_valid_cluster_def u16_at_def blit_def set_cluster_def put16_def mkdir_commit_def zero_cluster_def write_sector_def
      fat16_cluster_sector_def finish_def out_status_def fs_error_of_def)

section \<open>Properties\<close>

text \<open>C37: Chain validation is exact. Walking the cached FAT from a first cluster returns the length of the
  chain that starts there when there is one (valid clusters, each the successor of the one before, ending
  in an end marker), and fails with an I/O error when there is none, cycles included; it changes nothing
  but the bitmap of visited clusters. No assumption is made about the FAT.\<close>

theorem fat16_chain_correct:
  "(case fst (fat16_chain first v) of
      Inr n \<Rightarrow> \<exists>xs. linked (vol_info v) (vol_fat v) first xs \<and> length xs = n \<and> distinct xs
    | Inl e \<Rightarrow> e = FS_IO_ERROR \<and> (\<nexists>xs. linked (vol_info v) (vol_fat v) first xs)) \<and>
   (\<exists>bm. snd (fat16_chain first v) = v\<lparr>vol_visited := bm\<rparr>)"
proof -
  obtain r v' where c: "fat16_chain first v = (r, v')" by fastforce
  from fat16_chain_sound [OF c] have "\<exists>bm. v' = v\<lparr>vol_visited := bm\<rparr>" unfolding visited_only_def by blast
  with fat16_chain_sound [OF c] linked_distinct show ?thesis by (auto simp: c split: sum.splits)
qed

text \<open>C10: Allocation of clusters is exact. It succeeds exactly when enough clusters are free; it then
  returns the start of a chain of the requested length made of clusters that were free, leaves every other
  entry of the FAT alone, and so keeps every chain that existed before.\<close>

theorem fat16_allocate_correct:
  assumes "fat_fits info fat" and "0 < count"
  shows "if count \<le> free_clusters info fat
    then \<exists>first fat' cs. fat16_allocate info fat count = (Inr first, fat') \<and>
      linked info fat' first cs \<and> length cs = count \<and> set cs \<subseteq> free_cluster_set info fat \<and>
      (\<forall>c xs. linked info fat c xs \<longrightarrow> linked info fat' c xs \<and> set xs \<inter> set cs = {})
    else fst (fat16_allocate info fat count) = Inl FS_NO_SPACE"
proof (cases "count \<le> free_clusters info fat")
  case True
  then obtain first fat' where a: "fat16_allocate info fat count = (Inr first, fat')"
    using fat16_allocate_result [OF assms(1), of count] by auto
  obtain cs where cs: "allocated info fat first fat' cs" "length cs = count" using fat16_allocate_chain [OF assms(1) a assms(2)] by blast
  have "linked info fat' c xs \<and> set xs \<inter> set cs = {}" if l: "linked info fat c xs" for c xs
    using allocated_keeps [OF cs(1) l] .
  then show ?thesis using True a cs by (auto simp: allocated_def)
qed (use fat16_allocate_result [OF assms(1), of count] in simp)

theorem fat16_allocate_correct_witness:
  "fst (fat16_allocate demo_info (replicate 512 0) 1) = Inr 2"
proof -
  have f: "free_clusters demo_info (replicate 512 0) = 1"
    by (simp add: free_clusters_def demo_info_def fat16_valid_cluster_def u16_at_def fat16_limits upt_rec)
  have "fat_fits demo_info (replicate 512 0)" by (simp add: fat_fits_def demo_info_def fat16_limits)
  from fat16_allocate_correct [OF this, of 1] f obtain first fat' cs where
    a: "fat16_allocate demo_info (replicate 512 0) 1 = (Inr first, fat')" and "linked demo_info fat' first cs" by fastforce
  then have "first = 2" by (auto dest!: linked_start simp: fat16_valid_cluster_def demo_info_def)
  then show ?thesis by (simp only: a fst_conv)
qed

text \<open>C38: A directory entry reads back as it was built. For every 8.3 name, kind, first cluster and size
  that fit their fields, decoding the entry that was made from them yields the name in upper case and a
  description with exactly that kind, size and first cluster, subject only to the check of the cluster
  chain.\<close>

theorem fat16_entry_roundtrip:
  assumes "name83 name" and "first < 65536" and "sz < 4294967296"
  shows "fat16_decode (make_entry name is_directory first sz) ident v =
    on_value (decode_clusters
        \<lparr>desc_node = \<lparr>node_id = ident, node_size = sz, node_kind = if is_directory then FS_DIRECTORY else FS_FILE\<rparr>,
         desc_first = first, desc_length = 0\<rparr> v)
      (\<lambda>d v1. (Inr (d, map upcase name), v1))"
  by (rule fat16_decode_make_entry [OF assms])

theorem fat16_entry_roundtrip_witness:
  "fst (fat16_decode (make_entry ''read.me'' False 0 0) 50 demo_volume) =
     Inr (\<lparr>desc_node = \<lparr>node_id = 50, node_size = 0, node_kind = FS_FILE\<rparr>, desc_first = 0, desc_length = 0\<rparr>, ''READ.ME'')"
proof -
  have "name83 ''read.me''" "map upcase ''read.me'' = ''READ.ME''" by code_simp+
  with fat16_entry_roundtrip [of "''read.me''" 0 0 False 50 demo_volume] show ?thesis by (simp add: decode_clusters_def)
qed

text \<open>C2: Failed mutations are contained. Take any observation of the device that reads and flushes do not
  change, for instance its contents. When a write, replacement, truncation, directory creation or removal
  returns an error, the observation is what it was before, or the volume is marked faulted; and a faulted
  volume refuses every later mutation without touching the device.\<close>

theorem fat16_mutation_contained:
  assumes "inert ops disk" and "fat16_mutate ops kmalloc request v = (e, v')" and "e \<noteq> FS_OK"
  shows "(disk (device (vol_layer v')) = disk (device (vol_layer v)) \<or> fi_faulted (vol_info v')) \<and>
    (\<forall>w request'. vol_ready w \<and> fi_faulted (vol_info w) \<longrightarrow>
       fst (fat16_mutate ops kmalloc request' w) = FS_IO_ERROR \<and>
       vol_layer (snd (fat16_mutate ops kmalloc request' w)) = vol_layer w \<and>
       vol_info (snd (fat16_mutate ops kmalloc request' w)) = vol_info w)"
proof -
  have "fst (fat16_mutate ops kmalloc q w) = FS_IO_ERROR \<and> vol_layer (snd (fat16_mutate ops kmalloc q w)) = vol_layer w \<and>
      vol_info (snd (fat16_mutate ops kmalloc q w)) = vol_info w" if "vol_ready w" "fi_faulted (vol_info w)" for q w
    using fat16_mutate_faulted [OF that, of ops kmalloc q] by auto
  with fat16_mutate_confined [OF assms] show ?thesis by blast
qed

theorem fat16_mutation_contained_witness:
  "fi_faulted (vol_info (snd (fat16_mutate (Some demo_driver) demo_kmalloc (Make_Directory ROOT_ID ''A'') demo_volume)))"
proof -
  obtain e v' where m: "fat16_mutate (Some demo_driver) demo_kmalloc (Make_Directory ROOT_ID ''A'') demo_volume = (e, v')" by fastforce
  then have "e = FS_DEVICE_FAULT" "driver (device (vol_layer v')) = 1" using demo_mkdir by auto
  moreover have "driver (device (vol_layer demo_volume)) = 0" by (simp add: demo_volume_def)
  ultimately have "fi_faulted (vol_info v')" using fat16_mutation_contained [OF demo_inert m] by auto
  then show ?thesis by (simp only: m snd_conv)
qed

end
