(* ===== verification/Rum_Args.thy ===== *)
theory Rum_Args
  imports Rum_Prelude
begin

text \<open>
  The launch packet of a process, \<open>struct rum_arguments\<close>: its check, \<open>elf_arguments_valid\<close> of
  \<open>kernel/process/elf.c\<close>, and its construction from a command line, \<open>add_argument\<close> and
  \<open>build_arguments\<close> of \<open>kernel/process/process.c\<close>. The numbers are \<open>uint32_t\<close> values; the one
  subtraction that could wrap is written with its wrap-around.
\<close>

section \<open>The packet and its check\<close>

definition RUM_PROCESS_ARGUMENT_LIMIT :: nat where "RUM_PROCESS_ARGUMENT_LIMIT = 32"
definition RUM_PROCESS_ARGUMENT_BYTES :: nat where "RUM_PROCESS_ARGUMENT_BYTES = 4096"

record rum_arguments =
  argc :: nat
  string_bytes :: nat
  offsets :: "nat list"
  strings :: string

text \<open>The scan \<open>while (cursor < string_bytes && strings[cursor]) ++cursor\<close>.\<close>

function skip_string :: "string \<Rightarrow> nat \<Rightarrow> nat \<Rightarrow> nat" where
  "skip_string s n cursor = (if cursor < n \<and> s ! cursor \<noteq> NUL then skip_string s n (cursor + 1) else cursor)"
  by pat_completeness auto
termination by (relation "measure (\<lambda>(s, n, cursor). n - cursor)") auto

declare skip_string.simps [simp del]

text \<open>The loop over the offsets: the cursor after the arguments in the list, \<open>None\<close> for a rejection.\<close>

fun check_offsets :: "rum_arguments \<Rightarrow> nat list \<Rightarrow> nat \<Rightarrow> nat option" where
  "check_offsets a [] cursor = Some cursor"
| "check_offsets a (i # is) cursor =
     (if offsets a ! i \<noteq> cursor then None
      else let c = skip_string (strings a) (string_bytes a) cursor in
        if c = string_bytes a then None else check_offsets a is (c + 1))"

definition elf_arguments_valid :: "rum_arguments option \<Rightarrow> bool" where
  "elf_arguments_valid arguments =
     (case arguments of
        None \<Rightarrow> False
      | Some a \<Rightarrow>
          if argc a = 0 \<or> argc a > RUM_PROCESS_ARGUMENT_LIMIT \<or> string_bytes a = 0 \<or>
             string_bytes a > RUM_PROCESS_ARGUMENT_BYTES then False
          else check_offsets a [0..<argc a] 0 = Some (string_bytes a))"

section \<open>Building a packet\<close>

definition empty_arguments :: rum_arguments where
  "empty_arguments = \<lparr>argc = 0, string_bytes = 0, offsets = replicate RUM_PROCESS_ARGUMENT_LIMIT 0,
     strings = replicate RUM_PROCESS_ARGUMENT_BYTES NUL\<rparr>"

definition add_argument :: "rum_arguments \<Rightarrow> string \<Rightarrow> bool \<times> rum_arguments" where
  "add_argument packet word =
     (let bytes = length word in
      if bytes = 0 \<or> argc packet \<ge> RUM_PROCESS_ARGUMENT_LIMIT \<or>
         bytes \<ge> (RUM_PROCESS_ARGUMENT_BYTES + 2 ^ 32 - string_bytes packet) mod 2 ^ 32 then (False, packet)
      else
        (let offset = string_bytes packet in
         (True, packet\<lparr>offsets := (offsets packet)[argc packet := offset], argc := argc packet + 1,
            strings := blit (blit (strings packet) offset word) (offset + bytes) [NUL],
            string_bytes := string_bytes packet + bytes + 1\<rparr>)))"

definition blank :: "char \<Rightarrow> bool" where "blank c \<longleftrightarrow> c = CHR '' '' \<or> c = CHR 0x09"

lemma dropWhile_shorter:
  assumes "dropWhile blank t = c # rest"
  shows "length (dropWhile (\<lambda>c. \<not> blank c) (c # rest)) < length t"
proof -
  have "\<not> blank c" using assms by (simp add: dropWhile_eq_Cons_conv)
  then have "length (dropWhile (\<lambda>c. \<not> blank c) (c # rest)) \<le> length rest"
    by (simp add: length_dropWhile_le)
  also have "length rest < length t"
    using length_dropWhile_le [of blank t] assms by simp
  finally show ?thesis .
qed

text \<open>The loop over the text: skip blanks, take a word, add it. The text ends where its NUL stands.\<close>

function build_words :: "string \<Rightarrow> rum_arguments \<Rightarrow> bool \<times> rum_arguments" where
  "build_words txt0 packet =
     (case dropWhile blank txt0 of
        [] \<Rightarrow> (True, packet)
      | rest \<Rightarrow>
          (case add_argument packet (takeWhile (\<lambda>c. \<not> blank c) rest) of
             (False, packet1) \<Rightarrow> (False, packet1)
           | (True, packet1) \<Rightarrow> build_words (dropWhile (\<lambda>c. \<not> blank c) rest) packet1))"
  by pat_completeness auto
termination by (relation "measure (\<lambda>(t, p). length t)") (auto dest: dropWhile_shorter)

declare build_words.simps [simp del]

definition build_arguments :: "string option \<Rightarrow> string option \<Rightarrow> bool \<times> rum_arguments" where
  "build_arguments program txt0 =
     (case (program, txt0) of
        (Some p, Some t) \<Rightarrow>
          if cstr p = [] then (False, empty_arguments)
          else (case add_argument empty_arguments (cstr p) of
                  (False, packet) \<Rightarrow> (False, packet)
                | (True, packet) \<Rightarrow> build_words (cstr t) packet)
      | _ \<Rightarrow> (False, empty_arguments))"

end
