(* ===== verification/Rum_Args_Props.thy ===== *)
theory Rum_Args_Props
  imports Rum_Args
begin

text \<open>
  The packets \<open>build_arguments\<close> makes are the packets \<open>elf_arguments_valid\<close> accepts, and they hold
  the words of the command line: the words are specified by splitting at every blank and dropping
  the empty fields.
\<close>

section \<open>The words of a line\<close>

primrec line_fields :: "string \<Rightarrow> string list" where
  "line_fields [] = [[]]"
| "line_fields (c # t) = (if blank c then [] # line_fields t else (c # hd (line_fields t)) # tl (line_fields t))"

definition line_words :: "string \<Rightarrow> string list" where
  "line_words t = filter (\<lambda>w. w \<noteq> []) (line_fields t)"

lemma line_fields_ne [simp]: "line_fields t \<noteq> []"
  by (cases t) auto

lemma line_words_dropWhile: "line_words (dropWhile blank t) = line_words t"
  by (induction t) (auto simp: line_words_def)

lemma line_fields_word:
  "\<forall>c\<in>set u. \<not> blank c \<Longrightarrow> line_fields (u @ r) = (u @ hd (line_fields r)) # tl (line_fields r)"
  by (induction u) auto

lemma line_words_word:
  assumes "u \<noteq> []" and "\<forall>c\<in>set u. \<not> blank c" and "r = [] \<or> blank (hd r)"
  shows "line_words (u @ r) = u # line_words r"
  using assms line_fields_word [of u r] by (cases r) (auto simp: line_words_def)

lemma line_words_step:
  "line_words t = (case dropWhile blank t of [] \<Rightarrow> []
     | c # r \<Rightarrow> takeWhile (\<lambda>c. \<not> blank c) (c # r) # line_words (dropWhile (\<lambda>c. \<not> blank c) (c # r)))"
proof (cases "dropWhile blank t")
  case Nil
  then show ?thesis using line_words_dropWhile [of t] by (simp add: Nil line_words_def del: dropWhile_eq_Nil_conv)
next
  case (Cons c r)
  let ?u = "takeWhile (\<lambda>c. \<not> blank c) (c # r)" and ?d = "dropWhile (\<lambda>c. \<not> blank c) (c # r)"
  have "\<not> blank c" using Cons by (simp add: dropWhile_eq_Cons_conv)
  moreover have "?d = [] \<or> blank (hd ?d)" using hd_dropWhile [of "\<lambda>c. \<not> blank c" "c # r"] by blast
  ultimately have "line_words (?u @ ?d) = ?u # line_words ?d"
    by (intro line_words_word) (auto dest: set_takeWhileD)
  then have "line_words (c # r) = ?u # line_words ?d" by (simp only: takeWhile_dropWhile_id)
  then show ?thesis using line_words_dropWhile [of t] Cons by simp
qed

section \<open>Packed strings\<close>

definition pack :: "string list \<Rightarrow> string" where "pack ws = concat (map (\<lambda>w. w @ [NUL]) ws)"

lemma pack_simps [simp]: "pack [] = []" "pack (w # ws) = w @ NUL # pack ws" "pack (xs @ ys) = pack xs @ pack ys"
  by (simp_all add: pack_def)

definition packed :: "string list \<Rightarrow> rum_arguments \<Rightarrow> bool" where
  "packed ws a \<longleftrightarrow>
     argc a = length ws \<and> string_bytes a = length (pack ws) \<and> length ws \<le> RUM_PROCESS_ARGUMENT_LIMIT \<and>
     length (pack ws) \<le> RUM_PROCESS_ARGUMENT_BYTES \<and>
     length (offsets a) = RUM_PROCESS_ARGUMENT_LIMIT \<and> length (strings a) = RUM_PROCESS_ARGUMENT_BYTES \<and>
     take (length (pack ws)) (strings a) = pack ws \<and>
     (\<forall>i < length ws. offsets a ! i = length (pack (take i ws))) \<and> (\<forall>w\<in>set ws. NUL \<notin> set w)"

lemma packed_empty: "packed [] empty_arguments"
  by (simp add: packed_def empty_arguments_def)

text \<open>The room left, as the unsigned subtraction computes it.\<close>

lemma argument_room:
  "n \<le> RUM_PROCESS_ARGUMENT_BYTES \<Longrightarrow>
     (RUM_PROCESS_ARGUMENT_BYTES + 2 ^ 32 - n) mod 2 ^ 32 = RUM_PROCESS_ARGUMENT_BYTES - n"
proof -
  assume n: "n \<le> RUM_PROCESS_ARGUMENT_BYTES"
  then have "RUM_PROCESS_ARGUMENT_BYTES + 2 ^ 32 - n = (RUM_PROCESS_ARGUMENT_BYTES - n) + 2 ^ 32" by simp
  moreover have "RUM_PROCESS_ARGUMENT_BYTES - n < 2 ^ 32"
    by (rule le_less_trans [OF diff_le_self]) (simp add: RUM_PROCESS_ARGUMENT_BYTES_def)
  ultimately show ?thesis by (simp only: mod_add_self2 mod_less)
qed

lemma add_argument_fits:
  assumes "packed ws a"
  shows "fst (add_argument a w) \<longleftrightarrow> w \<noteq> [] \<and> length (ws @ [w]) \<le> RUM_PROCESS_ARGUMENT_LIMIT \<and>
    length (pack (ws @ [w])) \<le> RUM_PROCESS_ARGUMENT_BYTES"
proof -
  have room: "(RUM_PROCESS_ARGUMENT_BYTES + 2 ^ 32 - string_bytes a) mod 2 ^ 32 = RUM_PROCESS_ARGUMENT_BYTES - string_bytes a"
    using assms by (intro argument_room) (simp add: packed_def)
  show ?thesis using assms unfolding add_argument_def Let_def room by (auto simp: packed_def)
qed

lemma add_argument_packed:
  assumes p: "packed ws a" and ok: "fst (add_argument a w)" and w: "NUL \<notin> set w"
  shows "packed (ws @ [w]) (snd (add_argument a w))"
proof -
  have fits: "length (ws @ [w]) \<le> RUM_PROCESS_ARGUMENT_LIMIT" "length (pack (ws @ [w])) \<le> RUM_PROCESS_ARGUMENT_BYTES"
    using add_argument_fits [OF p] ok by blast+
  have s: "snd (add_argument a w) = a\<lparr>offsets := (offsets a)[length ws := length (pack ws)], argc := length ws + 1,
      strings := blit (blit (strings a) (length (pack ws)) w) (length (pack ws) + length w) [NUL],
      string_bytes := length (pack ws) + length w + 1\<rparr>"
    using p ok unfolding add_argument_def Let_def by (cases a) (simp add: packed_def split: if_splits)
  show ?thesis using p w fits unfolding s
    by (auto simp: packed_def blit_def nth_list_update nth_append less_Suc_eq min_def)
qed

lemma build_words_packed:
  assumes "packed ws a" and "NUL \<notin> set t"
  shows "(fst (build_words t a) \<longleftrightarrow> length (ws @ line_words t) \<le> RUM_PROCESS_ARGUMENT_LIMIT \<and>
      length (pack (ws @ line_words t)) \<le> RUM_PROCESS_ARGUMENT_BYTES) \<and>
    (fst (build_words t a) \<longrightarrow> packed (ws @ line_words t) (snd (build_words t a)))"
  using assms
proof (induction t arbitrary: ws a rule: measure_induct_rule [of length])
  case (less t)
  show ?case
  proof (cases "dropWhile blank t")
    case Nil
    then show ?thesis using less.prems(1) line_words_step [of t]
      by (simp add: Nil build_words.simps [of t] packed_def del: dropWhile_eq_Nil_conv)
  next
    case (Cons c r)
    define u where "u = takeWhile (\<lambda>c. \<not> blank c) (c # r)"
    define d where "d = dropWhile (\<lambda>c. \<not> blank c) (c # r)"
    have words: "line_words t = u # line_words d" using line_words_step [of t] Cons by (simp add: u_def d_def)
    have "NUL \<notin> set (c # r)" using less.prems(2) Cons set_dropWhileD [of NUL blank t] by auto
    then have nul: "NUL \<notin> set u" "NUL \<notin> set d"
      unfolding u_def d_def by (metis set_takeWhileD, metis set_dropWhileD)
    have "\<not> blank c" using Cons by (simp add: dropWhile_eq_Cons_conv)
    then have u: "u \<noteq> []" by (simp add: u_def)
    have step: "build_words t a = (if fst (add_argument a u) then build_words d (snd (add_argument a u))
        else (False, snd (add_argument a u)))"
      using Cons by (simp add: build_words.simps [of t] u_def d_def split: prod.splits bool.splits)
    have shorter: "length d < length t" using dropWhile_shorter [OF Cons] by (simp add: d_def)
    show ?thesis
    proof (cases "fst (add_argument a u)")
      case True
      from less.IH [OF shorter add_argument_packed [OF less.prems(1) True nul(1)] nul(2)] show ?thesis
        by (simp add: step True words)
    next
      case False
      then show ?thesis using add_argument_fits [OF less.prems(1), of u] u by (auto simp: step words)
    qed
  qed
qed

section \<open>Packed packets are valid\<close>

lemma skip_string_end:
  assumes "take n s = xs @ w @ NUL # ys" and "NUL \<notin> set w" and "cursor = length xs + k" and "k \<le> length w"
    and "n \<le> length s" and "n = length (xs @ w @ NUL # ys)"
  shows "skip_string s n cursor = length xs + length w"
  using assms(3,4)
proof (induction "length w - k" arbitrary: k cursor)
  case 0
  have "s ! (length xs + length w) = NUL"
    using assms(1,5,6) nth_take [of "length xs + length w" n s] by (simp add: nth_append)
  then show ?case using 0 by (simp add: skip_string.simps)
next
  case (Suc m)
  then have k: "k < length w" by simp
  have "s ! cursor = w ! k"
    using assms(1,5,6) k Suc.prems nth_take [of cursor n s] by (simp add: nth_append)
  then have "s ! cursor \<noteq> NUL" using assms(2) k nth_mem by metis
  moreover have "skip_string s n (cursor + 1) = length xs + length w"
    by (rule Suc.hyps(1) [of "k + 1"]) (use Suc.hyps(2) Suc.prems k in auto)
  moreover have "cursor < n" using Suc.prems(1) k assms(6) by simp
  ultimately show ?case by (simp add: skip_string.simps [of s n cursor])
qed

lemma check_offsets_packed:
  assumes "packed ws a" and "i \<le> length ws"
  shows "check_offsets a [i..<length ws] (length (pack (take i ws))) = Some (string_bytes a)"
  using assms(2)
proof (induction rule: inc_induct)
  case base
  then show ?case using assms(1) by (simp add: packed_def)
next
  case (step i)
  have ws: "ws = take i ws @ ws ! i # drop (Suc i) ws" using step by (simp add: id_take_nth_drop)
  have split: "pack ws = pack (take i ws) @ (ws ! i) @ NUL # pack (drop (Suc i) ws)"
    by (subst ws) simp
  have "skip_string (strings a) (string_bytes a) (length (pack (take i ws))) =
      length (pack (take i ws)) + length (ws ! i)"
    by (rule skip_string_end [where k = 0 and ys = "pack (drop (Suc i) ws)"])
      (use assms(1) step split in \<open>auto simp: packed_def\<close>)
  then show ?case using step assms(1) split
    by (simp add: packed_def upt_conv_Cons take_Suc_conv_app_nth)
qed

lemma packed_valid:
  assumes "packed ws a" and "ws \<noteq> []"
  shows "elf_arguments_valid (Some a)"
proof -
  have "pack ws \<noteq> []" using assms(2) by (cases ws) auto
  then show ?thesis using check_offsets_packed [OF assms(1), of 0] assms
    by (auto simp: elf_arguments_valid_def packed_def)
qed

text \<open>The vector a program sees: the string at every offset.\<close>

definition argument_vector :: "rum_arguments \<Rightarrow> string list" where
  "argument_vector a = map (\<lambda>i. cstr (drop (offsets a ! i) (strings a))) [0..<argc a]"

lemma packed_vector:
  assumes "packed ws a"
  shows "argument_vector a = ws"
proof (rule nth_equalityI)
  show "length (argument_vector a) = length ws" using assms by (simp add: argument_vector_def packed_def)
next
  fix i assume "i < length (argument_vector a)"
  then have i: "i < length ws" using assms by (simp add: argument_vector_def packed_def)
  have "pack ws = pack (take i ws) @ (ws ! i) @ NUL # pack (drop (Suc i) ws)"
    by (subst id_take_nth_drop [OF i]) simp
  moreover define rest where "rest = drop (length (pack ws)) (strings a)"
  moreover have "strings a = pack ws @ rest"
    using assms append_take_drop_id [of "length (pack ws)" "strings a"] by (simp add: packed_def rest_def)
  ultimately have "drop (length (pack (take i ws))) (strings a) = (ws ! i) @ NUL # pack (drop (Suc i) ws) @ rest"
    by simp
  then show "argument_vector a ! i = ws ! i"
    using assms i by (simp add: argument_vector_def packed_def cstr_append_NUL)
qed

section \<open>The claim\<close>

lemma build_arguments_result:
  "build_arguments (Some p) (Some t) = (ok, a) \<Longrightarrow>
     (ok \<longleftrightarrow> cstr p \<noteq> [] \<and> length (cstr p # line_words (cstr t)) \<le> RUM_PROCESS_ARGUMENT_LIMIT \<and>
       length (pack (cstr p # line_words (cstr t))) \<le> RUM_PROCESS_ARGUMENT_BYTES) \<and>
     (ok \<longrightarrow> elf_arguments_valid (Some a) \<and> argument_vector a = cstr p # line_words (cstr t))"
proof -
  assume eq: "build_arguments (Some p) (Some t) = (ok, a)"
  have nul: "NUL \<notin> set (cstr s)" for s by (auto simp: cstr_def dest: set_takeWhileD)
  define b where "b = add_argument empty_arguments (cstr p)"
  have fits: "fst b \<longleftrightarrow> cstr p \<noteq> [] \<and> length [cstr p] \<le> RUM_PROCESS_ARGUMENT_LIMIT \<and>
      length (pack [cstr p]) \<le> RUM_PROCESS_ARGUMENT_BYTES"
    using add_argument_fits [OF packed_empty, of "cstr p"] by (simp add: b_def)
  show ?thesis
  proof (cases "fst b")
    case True
    then have "packed [cstr p] (snd b)" using add_argument_packed [OF packed_empty, of "cstr p"] nul by (simp add: b_def)
    note words = build_words_packed [OF this nul [of t]]
    have "build_words (cstr t) (snd b) = (ok, a)" "cstr p \<noteq> []"
      using eq True fits by (auto simp: build_arguments_def b_def split: prod.splits if_splits)
    then show ?thesis using words packed_valid packed_vector by auto
  next
    case False
    then have "\<not> ok" using eq by (auto simp: build_arguments_def b_def split: prod.splits if_splits)
    then show ?thesis using False fits by auto
  qed
qed

text \<open>C39: A command line becomes a packet exactly when its program name is not empty and the name and
  the words of the text fit the limits of 32 strings and 4096 bytes; the packet then passes the check
  of the loader, so every packet the launcher hands on is well formed, and its vector is the program
  name followed by the words of the text in order.\<close>

theorem build_arguments_well_formed:
  "build_arguments (Some p) (Some t) = (ok, a) \<Longrightarrow>
     (ok \<longleftrightarrow> cstr p \<noteq> [] \<and> length (cstr p # line_words (cstr t)) \<le> RUM_PROCESS_ARGUMENT_LIMIT \<and>
       length (pack (cstr p # line_words (cstr t))) \<le> RUM_PROCESS_ARGUMENT_BYTES) \<and>
     (ok \<longrightarrow> elf_arguments_valid (Some a) \<and> argument_vector a = cstr p # line_words (cstr t))"
  by (rule build_arguments_result)

theorem build_arguments_well_formed_witness:
  "fst (build_arguments (Some ''ls'') (Some '' -l  /rum'')) \<and>
   elf_arguments_valid (Some (snd (build_arguments (Some ''ls'') (Some '' -l  /rum'')))) \<and>
   argument_vector (snd (build_arguments (Some ''ls'') (Some '' -l  /rum''))) = [''ls'', ''-l'', ''/rum'']"
  using build_arguments_well_formed [of "''ls''" "'' -l  /rum''", OF surjective_pairing]
  by (simp add: cstr_def line_words_def blank_def RUM_PROCESS_ARGUMENT_LIMIT_def RUM_PROCESS_ARGUMENT_BYTES_def)

end
