(* ===== verification/Rum_Space.thy ===== *)
theory Rum_Space
  imports Rum_Heap_Props
begin

text \<open>
  Private address spaces, \<open>paging_space_create\<close> and \<open>paging_space_destroy\<close> of \<open>arch/i386/paging.c\<close>. The
  space object comes from the kernel heap, so the state is the heap with the machine inside it; the
  heap's list walks make the operations partial (\<open>None\<close> would be a walk that does not end).
\<close>

section \<open>Creation\<close>

abbreviation (input) SIZEOF_PAGING_SPACE :: nat where "SIZEOF_PAGING_SPACE \<equiv> 16 + 4 * PRIVATE_TABLE_WORDS"

text \<open>The directory is zeroed, the kernel half copied, and the space linked after the kernel space.\<close>

definition register_space :: "nat \<Rightarrow> nat \<Rightarrow> machine \<Rightarrow> machine" where
  "register_space p physical s =
     (let s1 = zero_page physical s;
          kernel = map (phys s1) [directory_physical (kernel_space s1)..<directory_physical (kernel_space s1) + KERNEL_ENTRIES * 4];
          space = \<lparr>directory_physical = physical, user_pages = 0, user_tables = 0, private_tables = replicate PRIVATE_TABLE_WORDS 0\<rparr>
      in s1\<lparr>phys := wr (phys s1) physical kernel, spaces := (p, space) # spaces s1, private_spaces := private_spaces s1 + 1\<rparr>)"

definition paging_space_create :: "heap \<Rightarrow> (space_ref \<times> heap) option" where
  "paging_space_create h =
     (if enabled (km h) \<and> private_spaces (km h) < RUM_PROCESS_LIMIT then
        (case kmalloc SIZEOF_PAGING_SPACE h of
           None \<Rightarrow> None
         | Some (p, h1) \<Rightarrow>
             if p = 0 then Some (Space_Null, h1)
             else
               (let (physical, m) = allocate_frame (km h1); h2 = h1\<lparr>km := m\<rparr> in
                if physical = 0 then map_option (\<lambda>(_, h3). (Space_Null, h3)) (kfree p h2)
                else Some (Space_At p, h2\<lparr>km := register_space p physical m\<rparr>)))
      else Some (Space_Null, h))"

section \<open>Destruction\<close>

definition space_page_valid :: "machine \<Rightarrow> u32 \<Rightarrow> bool" where
  "space_page_valid s entry \<longleftrightarrow>
     entry AND (FRAME_MASK OR 0x67) = entry \<and> entry AND USER \<noteq> 0 \<and> pmm_is_allocated (pm s) (frame_of entry)"

text \<open>The check of one table: whether every entry is sound, and how many pages it maps.\<close>

definition table_scan :: "machine \<Rightarrow> u32 \<Rightarrow> bool \<times> nat" where
  "table_scan s dentry =
     fold (\<lambda>j (valid, pages0).
         let entry = table_entry s dentry j in
         if \<not> present entry then (valid \<and> entry = 0, pages0)
         else (valid \<and> space_page_valid s entry, pages0 + 1)) [0..<ENTRIES] (True, 0)"

text \<open>One directory slot: the verdict, the pages and the tables so far.\<close>

definition space_scan_slot :: "machine \<Rightarrow> paging_space \<Rightarrow> nat \<Rightarrow> bool \<times> nat \<times> nat \<Rightarrow> bool \<times> nat \<times> nat" where
  "space_scan_slot s space i st =
     (let (valid, pages0, tables0) = st; dentry = directory_entry s space i; owned = private_table_owned space i in
      if i \<ge> USER_ENTRIES then (valid \<and> dentry = 0 \<and> \<not> owned, pages0, tables0)
      else if (\<not> present dentry \<and> dentry \<noteq> 0) \<or> present dentry \<noteq> owned \<or> (present dentry \<and> \<not> private_table_valid s space i)
      then (False, pages0, tables0)
      else if \<not> owned then (valid, pages0, tables0)
      else (let (ok, n) = table_scan s dentry in (valid \<and> ok, pages0 + n, tables0 + 1)))"

definition space_scan :: "machine \<Rightarrow> paging_space \<Rightarrow> bool \<times> nat \<times> nat" where
  "space_scan s space = fold (space_scan_slot s space) [KERNEL_ENTRIES..<ENTRIES] (True, 0, 0)"

text \<open>The release of the pages and tables of one slot; a page that cannot be freed stops the kernel.\<close>

definition release_slot :: "paging_space \<Rightarrow> nat \<Rightarrow> machine \<Rightarrow> machine" where
  "release_slot space i s =
     (if \<not> private_table_owned space i then s
      else
        (let dentry = directory_entry s space i;
             s1 = fold (\<lambda>j. running (\<lambda>s. let entry = table_entry s dentry j in if present entry then free_or_halt (frame_of entry) s else s))
                    [0..<ENTRIES] s
         in running (\<lambda>s. free_or_halt (frame_of (directory_entry s space i)) s) s1))"

definition unlink_space :: "nat \<Rightarrow> machine \<Rightarrow> machine" where
  "unlink_space p s = s\<lparr>spaces := filter (\<lambda>x. fst x \<noteq> p) (spaces s), private_spaces := private_spaces s - 1\<rparr>"

definition paging_space_destroy :: "space_ref \<Rightarrow> heap \<Rightarrow> (bool \<times> heap) option" where
  "paging_space_destroy r h =
     (let s = km h in
      case r of
        Space_At p \<Rightarrow>
          if enabled s \<and> r \<noteq> active_space s \<and> p \<in> set (map fst (spaces s)) then
            (let space = space_of s r; (valid, pages0, tables0) = space_scan s space in
             if valid \<and> pages0 = user_pages space \<and> tables0 = user_tables space then
               (let s1 = fold (\<lambda>i. running (release_slot space i)) [KERNEL_ENTRIES..<USER_ENTRIES] (unlink_space p s);
                    s2 = running (free_or_halt (directory_physical space)) s1;
                    h1 = h\<lparr>km := s2\<rparr>
                in if halted s2 then Some (True, h1)
                   else map_option (\<lambda>(ok, h2). (True, if ok then h2 else h2\<lparr>km := cpu_halt (km h2)\<rparr>)) (kfree p h1))
             else Some (False, h))
          else Some (False, h)
      | _ \<Rightarrow> Some (False, h))"

section \<open>A new space\<close>

text \<open>A fresh directory shares the kernel half and maps nothing else.\<close>

lemma rd32_wr_copy:
  assumes "a + 4 \<le> n" and "\<And>k. k < n \<Longrightarrow> bs ! k = mem (b + k)" and "length bs = n"
  shows "rd32 (wr mem0 p bs) (p + a) = rd32 mem (b + a)"
proof -
  have "map (wr mem0 p bs) [p + a..<p + a + 4] = map mem [b + a..<b + a + 4]"
    by (rule nth_equalityI) (use assms in \<open>auto simp: wr_def add.assoc\<close>)
  then show ?thesis by (simp add: rd32_def rd_def)
qed

lemma register_space_entries:
  assumes "physical + PAGE_SIZE \<le> directory_physical (kernel_space s) \<or>
      directory_physical (kernel_space s) + PAGE_SIZE \<le> physical" and "i < ENTRIES"
  shows "rd32 (phys (register_space p physical s)) (entry_at physical i) =
    (if i < KERNEL_ENTRIES then rd32 (phys s) (entry_at (directory_physical (kernel_space s)) i) else 0)"
proof (cases "i < KERNEL_ENTRIES")
  case True
  then have "rd32 (phys (register_space p physical s)) (physical + 4 * i) =
      rd32 (phys (zero_page physical s)) (directory_physical (kernel_space s) + 4 * i)"
    unfolding register_space_def Let_def
    by (simp, intro rd32_wr_copy [where n = "KERNEL_ENTRIES * 4"]) (auto simp: zero_page_def)
  also have "\<dots> = rd32 (phys s) (directory_physical (kernel_space s) + 4 * i)"
    unfolding zero_page_def using assms True
    by (auto intro!: rd32_wr_other simp: paging_consts)
  finally show ?thesis using True by (simp add: entry_at_def)
next
  case False
  then have "rd32 (phys (register_space p physical s)) (physical + 4 * i) =
      rd32 (phys (zero_page physical s)) (physical + 4 * i)"
    unfolding register_space_def Let_def by (auto intro!: rd32_wr_other)
  also have "\<dots> = 0" using assms(2)
    by (auto simp: zero_page_def paging_consts intro!: rd32_wr_zero)
  finally show ?thesis using False by (simp add: entry_at_def)
qed

end
