(* ===== verification/Rum_Elf.thy ===== *)
theory Rum_Elf
  imports Rum_Space Rum_Args
begin

text \<open>
  The loader of executables, \<open>kernel/process/elf.c\<close>: the check of an image that yields a load plan,
  the initial stack, and the construction of an address space from the plan. The fields of the file
  are read as numbers below \<open>2 ^ 32\<close>; the one sum that could wrap is reduced modulo \<open>2 ^ 32\<close>. An image
  is the list of its bytes.
\<close>

section \<open>Image format\<close>

abbreviation (input) RUM_ELF_PROGRAM_LIMIT :: nat where "RUM_ELF_PROGRAM_LIMIT \<equiv> 16"
abbreviation (input) RUM_ELF_IMAGE_LIMIT :: nat where "RUM_ELF_IMAGE_LIMIT \<equiv> 65536"
abbreviation (input) RUM_ELF_PT_GNU_STACK :: nat where "RUM_ELF_PT_GNU_STACK \<equiv> 0x6474E551"
definition RUM_ELF_PF_X :: u32 where "RUM_ELF_PF_X = 1"
definition RUM_ELF_PF_W :: u32 where "RUM_ELF_PF_W = 2"
abbreviation (input) RUM_ELF_PF_R :: u32 where "RUM_ELF_PF_R \<equiv> 4"
abbreviation (input) SIZEOF_ELF_HEADER :: nat where "SIZEOF_ELF_HEADER \<equiv> 52"
abbreviation (input) SIZEOF_ELF_PROGRAM :: nat where "SIZEOF_ELF_PROGRAM \<equiv> 32"
definition USER_STACK_PAGES :: nat where "USER_STACK_PAGES = RUM_USER_STACK_SIZE div PAGE_SIZE"

lemmas elf_consts =
  RUM_ELF_PF_X_def RUM_ELF_PF_W_def
  USER_STACK_PAGES_def

record rum_elf_header =
  eh_ident :: "u8 list"
  eh_type :: nat
  eh_machine :: nat
  eh_version :: nat
  eh_entry :: nat
  eh_phoff :: nat
  eh_shoff :: nat
  eh_flags :: nat
  eh_ehsize :: nat
  eh_phentsize :: nat
  eh_phnum :: nat
  eh_shentsize :: nat
  eh_shnum :: nat
  eh_shstrndx :: nat

record rum_elf_program =
  ph_type :: nat
  ph_offset :: nat
  ph_address :: nat
  ph_physical :: nat
  ph_file_bytes :: nat
  ph_memory_bytes :: nat
  ph_flags :: u32
  ph_alignment :: nat

definition image_field :: "u8 list \<Rightarrow> nat \<Rightarrow> nat \<Rightarrow> nat" where
  "image_field img off n = le_bytes (take n (drop off img))"

definition read_header :: "u8 list \<Rightarrow> rum_elf_header" where
  "read_header img =
     \<lparr>eh_ident = take 16 img, eh_type = image_field img 16 2, eh_machine = image_field img 18 2,
      eh_version = image_field img 20 4, eh_entry = image_field img 24 4, eh_phoff = image_field img 28 4,
      eh_shoff = image_field img 32 4, eh_flags = image_field img 36 4, eh_ehsize = image_field img 40 2,
      eh_phentsize = image_field img 42 2, eh_phnum = image_field img 44 2,
      eh_shentsize = image_field img 46 2, eh_shnum = image_field img 48 2, eh_shstrndx = image_field img 50 2\<rparr>"

definition read_program :: "u8 list \<Rightarrow> nat \<Rightarrow> rum_elf_program" where
  "read_program img off =
     \<lparr>ph_type = image_field img off 4, ph_offset = image_field img (off + 4) 4,
      ph_address = image_field img (off + 8) 4, ph_physical = image_field img (off + 12) 4,
      ph_file_bytes = image_field img (off + 16) 4, ph_memory_bytes = image_field img (off + 20) 4,
      ph_flags = word_of_nat (image_field img (off + 24) 4), ph_alignment = image_field img (off + 28) 4\<rparr>"

section \<open>The load plan\<close>

record load_segment =
  seg_program :: rum_elf_program
  seg_start :: nat
  seg_pages :: nat

record load_plan =
  plan_entry :: nat
  plan_segments :: "load_segment list"

text \<open>The locals of the loop beside the plan.\<close>

record plan_state =
  ps_plan :: load_plan
  ps_entry :: bool
  ps_stack :: bool
  ps_previous_end :: nat
  ps_pages :: nat

definition elf_ident :: "u8 list" where "elf_ident = [0x7F, 0x45, 0x4C, 0x46, 1, 1, 1, 0, 0]"

definition header_valid :: "nat \<Rightarrow> rum_elf_header \<Rightarrow> bool" where
  "header_valid bytes h \<longleftrightarrow>
     take 9 (eh_ident h) = elf_ident \<and> eh_type h = 2 \<and> eh_machine h = 3 \<and> eh_version h = 1 \<and> eh_flags h = 0 \<and>
     eh_ehsize h = SIZEOF_ELF_HEADER \<and> eh_phentsize h = SIZEOF_ELF_PROGRAM \<and>
     eh_phnum h \<noteq> 0 \<and> eh_phnum h \<le> RUM_ELF_PROGRAM_LIMIT \<and>
     SIZEOF_ELF_HEADER \<le> eh_phoff h \<and> eh_phoff h \<le> bytes \<and>
     eh_phnum h * SIZEOF_ELF_PROGRAM \<le> bytes - eh_phoff h"

definition program_loadable :: "nat \<Rightarrow> rum_elf_program \<Rightarrow> bool" where
  "program_loadable bytes p \<longleftrightarrow>
     ph_type p = 1 \<and> ph_file_bytes p \<le> ph_memory_bytes p \<and> ph_offset p \<le> bytes \<and>
     ph_file_bytes p \<le> bytes - ph_offset p \<and> ph_flags p AND RUM_ELF_PF_R \<noteq> 0 \<and> ph_flags p AND NOT 7 = 0 \<and>
     ph_flags p AND (RUM_ELF_PF_W OR RUM_ELF_PF_X) \<noteq> (RUM_ELF_PF_W OR RUM_ELF_PF_X)"

definition program_placed :: "rum_elf_program \<Rightarrow> bool" where
  "program_placed p \<longleftrightarrow>
     \<not> (ph_alignment p > 1 \<and> (ph_alignment p AND (ph_alignment p - 1) \<noteq> 0 \<or>
          ph_address p mod ph_alignment p \<noteq> ph_offset p mod ph_alignment p)) \<and>
     ph_address p mod PAGE_SIZE = ph_offset p mod PAGE_SIZE \<and>
     RUM_USER_BASE \<le> ph_address p \<and> ph_address p < RUM_USER_PROGRAM_END \<and>
     ph_memory_bytes p \<le> RUM_USER_PROGRAM_END - ph_address p"

definition plan_load :: "nat \<Rightarrow> rum_elf_program \<Rightarrow> plan_state \<Rightarrow> plan_state option" where
  "plan_load entry p st =
     (let start = page_base (ph_address p);
          end1 = page_base ((ph_address p + ph_memory_bytes p + PAGE_SIZE - 1) mod 2 ^ 32);
          count = (end1 - start) div PAGE_SIZE
      in if start < ps_previous_end st \<or> count > RUM_PROCESS_USER_BYTES div PAGE_SIZE - ps_pages st then None
         else Some (st\<lparr>ps_previous_end := end1, ps_pages := ps_pages st + count,
                ps_plan := (ps_plan st)\<lparr>plan_segments := plan_segments (ps_plan st) @
                  [\<lparr>seg_program = p, seg_start = start, seg_pages = count\<rparr>]\<rparr>,
                ps_entry := ps_entry st \<or> (ph_flags p AND RUM_ELF_PF_X \<noteq> 0 \<and> entry \<ge> ph_address p \<and>
                  entry - ph_address p < ph_file_bytes p)\<rparr>))"

text \<open>One turn of the loop; \<open>None\<close> is \<open>return false\<close>.\<close>

definition plan_program :: "nat \<Rightarrow> nat \<Rightarrow> rum_elf_program \<Rightarrow> plan_state \<Rightarrow> plan_state option" where
  "plan_program bytes entry p st =
     (if ph_type p = 0 then Some st
      else if ph_type p = RUM_ELF_PT_GNU_STACK then
        (if ps_stack st \<or> ph_flags p \<noteq> (RUM_ELF_PF_R OR RUM_ELF_PF_W) \<or> ph_file_bytes p \<noteq> 0 \<or> ph_memory_bytes p \<noteq> 0
         then None else Some (st\<lparr>ps_stack := True\<rparr>))
      else if \<not> program_loadable bytes p then None
      else if ph_memory_bytes p = 0 then Some st
      else if \<not> program_placed p then None
      else plan_load entry p st)"

fun plan_loop :: "nat \<Rightarrow> nat \<Rightarrow> rum_elf_program list \<Rightarrow> plan_state \<Rightarrow> plan_state option" where
  "plan_loop bytes entry [] st = Some st"
| "plan_loop bytes entry (p # ps) st =
     (case plan_program bytes entry p st of None \<Rightarrow> None | Some st1 \<Rightarrow> plan_loop bytes entry ps st1)"

definition plan_start :: "nat \<Rightarrow> plan_state" where
  "plan_start entry = \<lparr>ps_plan = \<lparr>plan_entry = entry, plan_segments = []\<rparr>, ps_entry = False, ps_stack = False,
     ps_previous_end = RUM_USER_BASE, ps_pages = USER_STACK_PAGES\<rparr>"

definition image_programs :: "u8 list \<Rightarrow> rum_elf_program list" where
  "image_programs img =
     map (\<lambda>i. read_program img (eh_phoff (read_header img) + i * SIZEOF_ELF_PROGRAM)) [0..<eh_phnum (read_header img)]"

definition plan_image :: "u8 list option \<Rightarrow> load_plan option" where
  "plan_image img =
     (case img of
        None \<Rightarrow> None
      | Some im \<Rightarrow>
          let bytes = length im; header = read_header im in
          if bytes < SIZEOF_ELF_HEADER \<or> bytes > RUM_ELF_IMAGE_LIMIT \<or> \<not> header_valid bytes header then None
          else (case plan_loop bytes (eh_entry header) (image_programs im) (plan_start (eh_entry header)) of
                  None \<Rightarrow> None
                | Some st \<Rightarrow> if ps_entry st \<and> ps_stack st then Some (ps_plan st) else None))"

section \<open>The initial stack\<close>

abbreviation (input) RUM_ABI_STACK_FIXED_WORDS :: nat where "RUM_ABI_STACK_FIXED_WORDS \<equiv> 3"
abbreviation (input) RUM_STACK_ALIGNMENT :: nat where "RUM_STACK_ALIGNMENT \<equiv> 16"

text \<open>The machine stops at a halt: nothing after it runs.\<close>

definition unless_halted :: "bool \<times> machine \<Rightarrow> (machine \<Rightarrow> bool \<times> machine) \<Rightarrow> bool \<times> machine" where
  "unless_halted r f = (if fst r \<and> \<not> halted (snd r) then f (snd r) else r)"

definition stack_strings :: "rum_arguments \<Rightarrow> nat" where
  "stack_strings a = RUM_USER_STACK_TOP - string_bytes a"

definition stack_words :: "rum_arguments \<Rightarrow> nat list" where
  "stack_words a = [argc a] @ map (\<lambda>i. stack_strings a + offsets a ! i) [0..<argc a] @ [0, 0]"

definition stack_pointer :: "rum_arguments \<Rightarrow> nat" where
  "stack_pointer a =
     (let esp = stack_strings a - (argc a + RUM_ABI_STACK_FIXED_WORDS) * 4 in esp - esp mod RUM_STACK_ALIGNMENT)"

definition build_stack :: "space_ref \<Rightarrow> rum_arguments \<Rightarrow> machine \<Rightarrow> (bool \<times> machine) \<times> nat" where
  "build_stack space a s =
     (let words_bytes = (argc a + RUM_ABI_STACK_FIXED_WORDS) * 4 in
      if stack_strings a < RUM_USER_STACK_BASE + words_bytes \<or> stack_pointer a < RUM_USER_STACK_BASE then ((False, s), 0)
      else
        (unless_halted (paging_copy_to_user space (stack_strings a) (map of_char (take (string_bytes a) (strings a))) s)
           (paging_copy_to_user space (stack_pointer a) (concat (map (bytes_le 4) (stack_words a)))),
         stack_pointer a))"

section \<open>Loading\<close>

record exception_user_frame =
  fr_data_selectors :: "u32 list"
  fr_registers :: "u32 list"
  fr_eip :: nat
  fr_cs :: u32
  fr_eflags :: u32
  fr_esp :: nat
  fr_ss :: u32

text \<open>\<open>gs\<close>, \<open>fs\<close>, \<open>es\<close>, \<open>ds\<close>; then \<open>edi\<close> to \<open>eax\<close>, \<open>vector\<close> and \<open>error\<close>, all zero.\<close>

definition cpu_user_frame_initialize :: "nat \<Rightarrow> nat \<Rightarrow> exception_user_frame" where
  "cpu_user_frame_initialize entry stack =
     \<lparr>fr_data_selectors = replicate 4 0x23, fr_registers = replicate 10 0, fr_eip = entry, fr_cs = 0x1B,
      fr_eflags = 0x202, fr_esp = stack, fr_ss = 0x23\<rparr>"

record task_process =
  tp_space :: space_ref
  tp_user_frame :: exception_user_frame
  tp_name :: string

definition load_one :: "space_ref \<Rightarrow> u8 list \<Rightarrow> load_segment \<Rightarrow> machine \<Rightarrow> bool \<times> machine" where
  "load_one space img seg s =
     (let p = seg_program seg;
          r = unless_halted (paging_user_allocate space (seg_start seg) (seg_pages seg) PAGING_WRITABLE s)
                (paging_copy_to_user space (ph_address p) (take (ph_file_bytes p) (drop (ph_offset p) img)))
      in if ph_flags p AND RUM_ELF_PF_W = 0
         then unless_halted r (paging_user_protect space (seg_start seg) (seg_pages seg) 0) else r)"

fun load_segments :: "space_ref \<Rightarrow> u8 list \<Rightarrow> load_segment list \<Rightarrow> machine \<Rightarrow> bool \<times> machine" where
  "load_segments space img [] s = (True, s)"
| "load_segments space img (seg # segs) s = unless_halted (load_one space img seg s) (load_segments space img segs)"

definition load_image :: "space_ref \<Rightarrow> u8 list \<Rightarrow> load_plan \<Rightarrow> rum_arguments \<Rightarrow> machine \<Rightarrow> bool \<times> machine" where
  "load_image space img plan a s =
     unless_halted
       (unless_halted (load_segments space img (plan_segments plan) s)
          (paging_user_allocate space RUM_USER_STACK_BASE USER_STACK_PAGES PAGING_WRITABLE))
       (\<lambda>s. fst (build_stack space a s))"

definition elf_load_process :: "u8 list option \<Rightarrow> rum_arguments option \<Rightarrow> heap \<Rightarrow> (task_process option \<times> heap) option" where
  "elf_load_process img arguments h =
     (case (arguments, img, plan_image img) of
        (Some a, Some im, Some plan) \<Rightarrow>
          if \<not> elf_arguments_valid arguments then Some (None, h)
          else
            (case paging_space_create h of
               None \<Rightarrow> None
             | Some (Space_Null, h1) \<Rightarrow> Some (None, h1)
             | Some (space, h1) \<Rightarrow>
                 let (success, m) = load_image space im plan a (km h1); h2 = h1\<lparr>km := m\<rparr> in
                 if halted m then Some (None, h2)
                 else if success then
                   Some (Some \<lparr>tp_space = space, tp_user_frame = cpu_user_frame_initialize (plan_entry plan) (stack_pointer a),
                     tp_name = replicate 64 NUL\<rparr>, h2)
                 else map_option (\<lambda>(_, h3). (None, h3)) (paging_space_destroy space h2))
      | _ \<Rightarrow> Some (None, h))"

end
