(* ===== verification/Rum_Elf_Props.thy ===== *)
theory Rum_Elf_Props
  imports Rum_Elf
begin

text \<open>
  What an accepted image promises: a plan whose segments lie in the program half of the user range,
  take their bytes from inside the file, are never writable and executable at once, occupy disjoint
  pages in ascending order, and fit the page budget of a process together with its stack.
\<close>

section \<open>Safe plans\<close>

definition seg_end :: "load_segment \<Rightarrow> nat" where
  "seg_end seg = seg_start seg + seg_pages seg * PAGE_SIZE"

definition segment_safe :: "nat \<Rightarrow> load_segment \<Rightarrow> bool" where
  "segment_safe bytes seg \<longleftrightarrow>
     (let p = seg_program seg in
      user_page_range (seg_start seg) (seg_pages seg) \<and> seg_end seg \<le> RUM_USER_PROGRAM_END \<and>
      seg_start seg \<le> ph_address p \<and> ph_address p + ph_memory_bytes p \<le> seg_end seg \<and>
      ph_file_bytes p \<le> ph_memory_bytes p \<and> ph_offset p + ph_file_bytes p \<le> bytes \<and>
      \<not> (ph_flags p AND RUM_ELF_PF_W \<noteq> 0 \<and> ph_flags p AND RUM_ELF_PF_X \<noteq> 0))"

definition entry_covered :: "load_plan \<Rightarrow> bool" where
  "entry_covered plan \<longleftrightarrow>
     (\<exists>seg\<in>set (plan_segments plan). ph_flags (seg_program seg) AND RUM_ELF_PF_X \<noteq> 0 \<and>
        ph_address (seg_program seg) \<le> plan_entry plan \<and>
        plan_entry plan < ph_address (seg_program seg) + ph_file_bytes (seg_program seg))"

definition plan_inv :: "nat \<Rightarrow> plan_state \<Rightarrow> bool" where
  "plan_inv bytes st \<longleftrightarrow>
     (let segs = plan_segments (ps_plan st) in
      (\<forall>seg\<in>set segs. segment_safe bytes seg \<and> seg_end seg \<le> ps_previous_end st) \<and>
      sorted_wrt (\<lambda>a b. seg_end a \<le> seg_start b) segs \<and> RUM_USER_BASE \<le> ps_previous_end st \<and>
      ps_pages st = USER_STACK_PAGES + sum_list (map seg_pages segs) \<and> ps_pages st \<le> USER_PAGE_LIMIT \<and>
      (ps_entry st \<longrightarrow> entry_covered (ps_plan st)))"

lemma plan_inv_start: "plan_inv bytes (plan_start entry)"
  by (simp add: plan_inv_def plan_start_def elf_consts paging_consts)

text \<open>The page rounding of a placed segment does not wrap.\<close>

lemma page_base_le: "page_base a \<le> a" "page_base a mod PAGE_SIZE = 0"
  by (simp_all add: page_base_def minus_mod_eq_mult_div)

lemma page_base_bounds:
  assumes "e mod PAGE_SIZE = 0"
  shows "a < e + PAGE_SIZE \<Longrightarrow> page_base a \<le> e" and "e \<le> a \<Longrightarrow> e \<le> page_base a"
proof -
  obtain k where k: "e = k * PAGE_SIZE" using assms by (metis mod_0_imp_dvd dvd_def mult.commute)
  have base: "page_base a = a div PAGE_SIZE * PAGE_SIZE" by (simp add: page_base_def minus_mod_eq_div_mult)
  show "page_base a \<le> e" if "a < e + PAGE_SIZE"
    using less_mult_imp_div_less [of a "Suc k" PAGE_SIZE] that by (simp add: base k add.commute)
  show "e \<le> page_base a" if "e \<le> a"
    using div_le_mono [OF that, of PAGE_SIZE] by (simp add: base k)
qed

lemma page_base_round_up:
  assumes "a + n \<le> RUM_USER_PROGRAM_END"
  shows "(a + n + PAGE_SIZE - 1) mod 2 ^ 32 = a + n + PAGE_SIZE - 1"
    and "a + n \<le> page_base (a + n + PAGE_SIZE - 1)" and "page_base (a + n + PAGE_SIZE - 1) \<le> RUM_USER_PROGRAM_END"
proof -
  show "(a + n + PAGE_SIZE - 1) mod 2 ^ 32 = a + n + PAGE_SIZE - 1"
    by (rule mod_less) (use assms in \<open>simp add: layout_defs\<close>)
  show "a + n \<le> page_base (a + n + PAGE_SIZE - 1)"
    by (simp add: page_base_def layout_defs)
  show "page_base (a + n + PAGE_SIZE - 1) \<le> RUM_USER_PROGRAM_END"
    by (rule page_base_bounds(1)) (use assms in \<open>auto simp: layout_defs\<close>)
qed

lemma and_single_bit:
  fixes f :: u32
  assumes "f AND 2 ^ n \<noteq> 0"
  shows "f AND 2 ^ n = 2 ^ n"
proof -
  have "bit f n" using assms by (simp add: and_exp_eq_0_iff_not_bit)
  then show ?thesis by (intro bit_word_eqI) (auto simp: bit_simps)
qed

lemma no_write_execute:
  fixes f :: u32
  assumes "f AND (RUM_ELF_PF_W OR RUM_ELF_PF_X) \<noteq> (RUM_ELF_PF_W OR RUM_ELF_PF_X)"
  shows "\<not> (f AND RUM_ELF_PF_W \<noteq> 0 \<and> f AND RUM_ELF_PF_X \<noteq> 0)"
proof
  assume "f AND RUM_ELF_PF_W \<noteq> 0 \<and> f AND RUM_ELF_PF_X \<noteq> 0"
  then have "f AND RUM_ELF_PF_W = RUM_ELF_PF_W" "f AND RUM_ELF_PF_X = RUM_ELF_PF_X"
    using and_single_bit [of f 1] and_single_bit [of f 0] by (auto simp: elf_consts)
  then have "f AND (RUM_ELF_PF_W OR RUM_ELF_PF_X) = (RUM_ELF_PF_W OR RUM_ELF_PF_X)"
    by (simp add: bit.conj_disj_distrib)
  then show False using assms by simp
qed

lemma plan_load_segment:
  assumes load: "program_loadable bytes p" and place: "program_placed p" and ne: "ph_memory_bytes p \<noteq> 0"
    and start: "start = page_base (ph_address p)"
    and end1: "end1 = page_base ((ph_address p + ph_memory_bytes p + PAGE_SIZE - 1) mod 2 ^ 32)"
    and count: "count = (end1 - start) div PAGE_SIZE"
  shows "segment_safe bytes \<lparr>seg_program = p, seg_start = start, seg_pages = count\<rparr>"
    and "start + count * PAGE_SIZE = end1" and "RUM_USER_BASE \<le> end1"
proof -
  have fits: "ph_address p + ph_memory_bytes p \<le> RUM_USER_PROGRAM_END"
    using place by (auto simp: program_placed_def)
  note up = page_base_round_up [OF fits]
  have e: "end1 = page_base (ph_address p + ph_memory_bytes p + PAGE_SIZE - 1)" by (simp only: end1 up(1))
  have base: "RUM_USER_BASE \<le> start"
    unfolding start by (rule page_base_bounds(2)) (use place in \<open>auto simp: layout_defs program_placed_def\<close>)
  have less: "start \<le> ph_address p" "ph_address p + ph_memory_bytes p \<le> end1" "start < end1" "end1 \<le> RUM_USER_PROGRAM_END"
    using page_base_le(1) [of "ph_address p"] up(2,3) ne by (simp_all add: start e)
  have "PAGE_SIZE dvd end1 - start"
    using page_base_le(2) by (intro dvd_diff_nat) (auto simp: start e mod_0_imp_dvd)
  then have pages0: "count * PAGE_SIZE = end1 - start" by (simp add: count)
  then show len: "start + count * PAGE_SIZE = end1" using less by simp
  show "RUM_USER_BASE \<le> end1" using base less by simp
  have "count \<noteq> 0" using pages0 less(3) by (cases count) auto
  then have "user_page_range start count"
    using base less(4) len page_base_le(2) by (simp add: user_page_range_def start)
  then show "segment_safe bytes \<lparr>seg_program = p, seg_start = start, seg_pages = count\<rparr>"
    using load less len no_write_execute [of "ph_flags p"] by (auto simp: segment_safe_def seg_end_def program_loadable_def)
qed

lemma plan_load_inv:
  assumes inv: "plan_inv bytes st" and "program_loadable bytes p" and "program_placed p" and "ph_memory_bytes p \<noteq> 0"
    and r: "plan_load entry p st = Some st1" and entry: "plan_entry (ps_plan st) = entry"
  shows "plan_inv bytes st1 \<and> plan_entry (ps_plan st1) = entry"
proof -
  define start where "start = page_base (ph_address p)"
  define end1 where "end1 = page_base ((ph_address p + ph_memory_bytes p + PAGE_SIZE - 1) mod 2 ^ 32)"
  define count where "count = (end1 - start) div PAGE_SIZE"
  define seg where "seg = \<lparr>seg_program = p, seg_start = start, seg_pages = count\<rparr>"
  note new = plan_load_segment [OF assms(2-4) start_def end1_def count_def]
  have s: "segment_safe bytes seg" "seg_end seg = end1" "seg_start seg = start" "seg_pages seg = count" "seg_program seg = p"
    using new by (simp_all add: seg_def seg_end_def)
  have guard: "ps_previous_end st \<le> start" "count \<le> USER_PAGE_LIMIT - ps_pages st"
    and st1: "st1 = st\<lparr>ps_previous_end := end1, ps_pages := ps_pages st + count,
      ps_plan := (ps_plan st)\<lparr>plan_segments := plan_segments (ps_plan st) @ [seg]\<rparr>,
      ps_entry := ps_entry st \<or> (ph_flags p AND RUM_ELF_PF_X \<noteq> 0 \<and> entry \<ge> ph_address p \<and>
        entry - ph_address p < ph_file_bytes p)\<rparr>"
    using r unfolding plan_load_def Let_def start_def [symmetric] end1_def [symmetric] count_def [symmetric]
      seg_def [symmetric] USER_PAGE_LIMIT_def
    by (auto split: if_splits)
  have "start \<le> end1" using new(2) by simp
  then have old: "\<forall>x\<in>set (plan_segments (ps_plan st)). segment_safe bytes x \<and> seg_end x \<le> start \<and> seg_end x \<le> end1"
    using inv guard(1) by (fastforce simp: plan_inv_def Let_def)
  have cov: "ps_entry st1 \<longrightarrow> entry_covered (ps_plan st1)"
    using inv entry s(5) by (auto simp: st1 plan_inv_def entry_covered_def Let_def)
  show ?thesis
    using inv old s(1-4) guard new(3) entry cov
    by (auto simp: plan_inv_def st1 Let_def sorted_wrt_append)
qed

lemma plan_loop_inv:
  "plan_loop bytes entry ps st = Some st1 \<Longrightarrow> plan_inv bytes st \<Longrightarrow> plan_entry (ps_plan st) = entry \<Longrightarrow>
     plan_inv bytes st1 \<and> plan_entry (ps_plan st1) = entry"
proof (induction ps arbitrary: st)
  case (Cons p ps)
  then obtain st2 where step: "plan_program bytes entry p st = Some st2" and rest: "plan_loop bytes entry ps st2 = Some st1"
    by (auto split: option.splits)
  have "plan_inv bytes st2 \<and> plan_entry (ps_plan st2) = entry"
    using step Cons.prems plan_load_inv [OF Cons.prems(2), of p entry st2]
    by (auto simp: plan_program_def plan_inv_def split: if_splits)
  then show ?case using Cons.IH [OF rest] by blast
qed simp

lemma plan_image_result:
  assumes "plan_image (Some img) = Some plan"
  shows "(\<forall>seg\<in>set (plan_segments plan). segment_safe (length img) seg) \<and>
    sorted_wrt (\<lambda>a b. seg_end a \<le> seg_start b) (plan_segments plan) \<and>
    USER_STACK_PAGES + sum_list (map seg_pages (plan_segments plan)) \<le> USER_PAGE_LIMIT \<and> entry_covered plan"
proof -
  obtain st where "plan_loop (length img) (eh_entry (read_header img)) (image_programs img)
      (plan_start (eh_entry (read_header img))) = Some st" and st: "ps_entry st" "ps_plan st = plan"
    using assms by (auto simp: plan_image_def Let_def split: if_splits option.splits)
  then have "plan_inv (length img) st"
    using plan_loop_inv [OF _ plan_inv_start] by (auto simp: plan_start_def)
  then show ?thesis using st by (auto simp: plan_inv_def Let_def)
qed

section \<open>The claim\<close>

text \<open>A smallest image: a header, a stack marker and one executable segment holding the file itself.\<close>

definition elf_sample :: "u8 list" where
  "elf_sample =
     [0x7F, 0x45, 0x4C, 0x46, 1, 1, 1, 0, 0, 0, 0, 0, 0, 0, 0, 0,
      2, 0, 3, 0, 1, 0, 0, 0, 0, 0, 0, 0x80, 52, 0, 0, 0, 0, 0, 0, 0, 0, 0, 0, 0, 52, 0, 32, 0, 2, 0, 0, 0, 0, 0, 0, 0,
      1, 0, 0, 0, 0, 0, 0, 0, 0, 0, 0, 0x80, 0, 0, 0, 0, 116, 0, 0, 0, 0, 0x20, 0, 0, 5, 0, 0, 0, 1, 0, 0, 0,
      0x51, 0xE5, 0x74, 0x64, 0, 0, 0, 0, 0, 0, 0, 0, 0, 0, 0, 0, 0, 0, 0, 0, 0, 0, 0, 0, 6, 0, 0, 0, 0, 0, 0, 0]"

lemma elf_sample_header:
  "read_header elf_sample = \<lparr>eh_ident = elf_ident @ [0, 0, 0, 0, 0, 0, 0], eh_type = 2, eh_machine = 3, eh_version = 1,
     eh_entry = 0x80000000, eh_phoff = 52, eh_shoff = 0, eh_flags = 0, eh_ehsize = 52, eh_phentsize = 32, eh_phnum = 2,
     eh_shentsize = 0, eh_shnum = 0, eh_shstrndx = 0\<rparr>"
  by (simp add: read_header_def image_field_def elf_sample_def elf_ident_def)

lemma elf_sample_programs:
  "image_programs elf_sample =
     [\<lparr>ph_type = 1, ph_offset = 0, ph_address = 0x80000000, ph_physical = 0, ph_file_bytes = 116, ph_memory_bytes = 0x2000,
        ph_flags = 5, ph_alignment = 1\<rparr>,
      \<lparr>ph_type = RUM_ELF_PT_GNU_STACK, ph_offset = 0, ph_address = 0, ph_physical = 0, ph_file_bytes = 0, ph_memory_bytes = 0,
        ph_flags = 6, ph_alignment = 0\<rparr>]"
  unfolding image_programs_def elf_sample_header
  by (simp add: read_program_def image_field_def elf_sample_def elf_consts upt_rec)

lemma elf_sample_plan:
  "plan_image (Some elf_sample) = Some \<lparr>plan_entry = 0x80000000, plan_segments =
     [\<lparr>seg_program = hd (image_programs elf_sample), seg_start = 0x80000000, seg_pages = 2\<rparr>]\<rparr>"
proof -
  have "length elf_sample = 116" by (simp add: elf_sample_def)
  then show ?thesis
    by (simp add: plan_image_def elf_sample_header elf_sample_programs header_valid_def elf_ident_def plan_start_def
      plan_program_def program_loadable_def program_placed_def plan_load_def page_base_def elf_consts paging_consts)
qed

text \<open>C5: An image the loader accepts gives a safe plan: every segment is a page range of the program
  half of the user space that covers its memory, takes its bytes from inside the file and is never both
  writable and executable; the segments occupy disjoint pages in ascending order; with the stack they
  fit the page budget of a process; and the entry point is a file byte of an executable segment.\<close>

theorem plan_image_safe:
  assumes "plan_image (Some img) = Some plan"
  shows "(\<forall>seg\<in>set (plan_segments plan). segment_safe (length img) seg) \<and>
    sorted_wrt (\<lambda>a b. seg_end a \<le> seg_start b) (plan_segments plan) \<and>
    USER_STACK_PAGES + sum_list (map seg_pages (plan_segments plan)) \<le> USER_PAGE_LIMIT \<and> entry_covered plan"
  using assms by (rule plan_image_result)

theorem plan_image_safe_witness:
  "plan_image (Some elf_sample) \<noteq> None \<and> entry_covered (the (plan_image (Some elf_sample))) \<and>
   segment_safe (length elf_sample) (hd (plan_segments (the (plan_image (Some elf_sample)))))"
  using plan_image_safe [OF elf_sample_plan] by (simp add: elf_sample_plan)

end
