(* ===== verification/Rum_Task.thy ===== *)
theory Rum_Task
  imports Rum_Paging
begin

text \<open>
  The scheduling core of \<open>kernel/process/task.c\<close> and the timer of \<open>hal/pc/pit.c\<close>: the round-robin
  search, switch holds, yielding, time slices, events, timed waits and sleeping. A task record holds
  the fields these functions use, those of its process included. Events are addressed by number, the
  static \<open>work_event\<close> is number 0.

  A context switch ends in the machine state in which the chosen task resumes: \<open>schedule\<close> is modelled
  up to \<open>kernel_context_switch\<close>, and what a waiting task does after it resumes is an operation of its
  own. The flag a resumed task restores is set, because every caller that saves it requires that. The
  copies of stack addresses kept for debuggers are left out.
\<close>

section \<open>Tasks and the scheduler\<close>

definition TASK_SLOTS :: nat where "TASK_SLOTS = RUM_PROCESS_LIMIT + 2"
definition TASK_TIME_SLICE_TICKS :: u32 where "TASK_TIME_SLICE_TICKS = 5"
definition IDLE :: nat where "IDLE = 1"
definition TIMER_HALF_RANGE :: u32 where "TIMER_HALF_RANGE = 0x80000000"
definition TIMER_HZ :: nat where "TIMER_HZ = 100"
abbreviation (input) SIZEOF_USER_FRAME :: nat where "SIZEOF_USER_FRAME \<equiv> 76"
abbreviation (input) RUM_SLEEP_MAX_MS :: nat where "RUM_SLEEP_MAX_MS \<equiv> 86400000"

datatype task_state = TASK_UNUSED | TASK_RUNNABLE | TASK_RUNNING | TASK_BLOCKED | TASK_EXITED
datatype task_kind = TASK_KERNEL | TASK_PROCESS
datatype task_wait_result = TASK_WAIT_EVENT | TASK_WAIT_TIMEOUT | TASK_WAIT_CANCELLED | TASK_WAIT_INVALID

record task =
  tk_state :: task_state
  tk_stack_top :: nat
  tk_switch_holds :: u32
  tk_slice_ticks :: u32
  tk_reschedule :: bool
  tk_waiting :: "nat option"
  tk_deadline :: u32
  tk_deadline_active :: bool
  tk_wake_reason :: task_wait_result
  tk_kind :: task_kind
  tk_space :: space_ref
  tk_cancellation_requested :: bool

record sched =
  sc_tasks :: "task list"
  sc_current :: nat
  sc_ready :: bool
  sc_if :: bool
  sc_in_handler :: bool
  sc_fs_active :: bool
  sc_block_active :: bool
  sc_sequence :: "nat \<Rightarrow> u32"
  sc_ticks :: u32
  sc_switches :: u32
  sc_gdt_ready :: bool
  sc_esp0 :: nat
  sc_tss_cr3 :: nat
  sc_machine :: machine

definition sched_halt :: "sched \<Rightarrow> sched" where "sched_halt s = s\<lparr>sc_machine := cpu_halt (sc_machine s)\<rparr>"

abbreviation stopped :: "sched \<Rightarrow> bool" where "stopped s \<equiv> halted (sc_machine s)"

definition on_task :: "nat \<Rightarrow> (task \<Rightarrow> task) \<Rightarrow> sched \<Rightarrow> sched" where
  "on_task i f s = s\<lparr>sc_tasks := (sc_tasks s)[i := f (sc_tasks s ! i)]\<rparr>"

abbreviation current_task :: "sched \<Rightarrow> task" where "current_task s \<equiv> sc_tasks s ! sc_current s"

definition clear_wait :: "task \<Rightarrow> task" where
  "clear_wait t = t\<lparr>tk_waiting := None, tk_deadline_active := False, tk_deadline := 0\<rparr>"

definition wake_task :: "task_wait_result \<Rightarrow> task \<Rightarrow> task" where
  "wake_task reason t = (clear_wait t)\<lparr>tk_wake_reason := reason, tk_state := TASK_RUNNABLE\<rparr>"

definition switch_protected :: "sched \<Rightarrow> bool" where
  "switch_protected s \<longleftrightarrow> tk_switch_holds (current_task s) \<noteq> 0 \<or> sc_fs_active s \<or> sc_block_active s"

definition task_current_cancelled :: "sched \<Rightarrow> bool" where
  "task_current_cancelled s \<longleftrightarrow>
     sc_ready s \<and> tk_kind (current_task s) = TASK_PROCESS \<and> tk_cancellation_requested (current_task s)"

definition gdt_set_kernel_context :: "nat \<Rightarrow> nat \<Rightarrow> sched \<Rightarrow> bool \<times> sched" where
  "gdt_set_kernel_context stack0 directory s =
     (if \<not> sc_gdt_ready s \<or> stack0 = 0 \<or> stack0 mod 16 \<noteq> 0 \<or> directory = 0 \<or> directory mod PAGE_SIZE \<noteq> 0 then (False, s)
      else (True, s\<lparr>sc_esp0 := stack0, sc_tss_cr3 := directory\<rparr>))"

section \<open>Choosing and switching\<close>

definition candidate :: "sched \<Rightarrow> nat \<Rightarrow> bool" where
  "candidate s i \<longleftrightarrow> i \<noteq> IDLE \<and> tk_state (sc_tasks s ! i) = TASK_RUNNABLE"

definition pick_next :: "sched \<Rightarrow> nat" where
  "pick_next s =
     (case find (candidate s) (map (\<lambda>offset. (sc_current s + offset) mod TASK_SLOTS) [1..<TASK_SLOTS + 1]) of
        Some i \<Rightarrow> i | None \<Rightarrow> IDLE)"

definition dispatch :: "nat \<Rightarrow> sched \<Rightarrow> sched" where
  "dispatch nx s =
     on_task nx (\<lambda>t. t\<lparr>tk_reschedule := False, tk_slice_ticks := TASK_TIME_SLICE_TICKS\<rparr>)
       (on_task (sc_current s) (\<lambda>t. t\<lparr>tk_reschedule := False\<rparr>) (on_task nx (\<lambda>t. t\<lparr>tk_state := TASK_RUNNING\<rparr>) s))"

definition switch_to :: "nat \<Rightarrow> sched \<Rightarrow> sched" where
  "switch_to nx s =
     (let t = sc_tasks s ! nx;
          (ok, m) = paging_switch_space (tk_space t) (sc_machine s); s1 = s\<lparr>sc_machine := m\<rparr>;
          (set_ok, s2) = gdt_set_kernel_context (tk_stack_top t) (paging_directory_address m (tk_space t)) s1
      in if \<not> ok then sched_halt s1
         else if \<not> set_ok then sched_halt s2
         else s2\<lparr>sc_current := nx, sc_switches := sc_switches s2 + 1\<rparr>)"

definition schedule :: "sched \<Rightarrow> sched" where
  "schedule s =
     (if sc_if s \<or> \<not> sc_ready s \<or> sc_in_handler s \<or> switch_protected s \<or>
         tk_space (current_task s) \<noteq> active_space (sc_machine s) \<or> sc_esp0 s \<noteq> tk_stack_top (current_task s)
      then sched_halt s
      else
        (let s1 = (if tk_state (current_task s) = TASK_RUNNING
                   then on_task (sc_current s) (\<lambda>t. t\<lparr>tk_state := TASK_RUNNABLE\<rparr>) s else s);
             nx = pick_next s1;
             s2 = dispatch nx s1
         in if nx = sc_current s then s2 else switch_to nx s2))"

section \<open>Operations\<close>

definition task_switch_hold :: "sched \<Rightarrow> bool \<times> sched" where
  "task_switch_hold s =
     (if \<not> sc_ready s \<or> sc_in_handler s then (False, s)
      else if sc_current s \<noteq> IDLE \<and> tk_switch_holds (current_task s) \<noteq> - 1
      then (True, on_task (sc_current s) (\<lambda>t. t\<lparr>tk_switch_holds := tk_switch_holds t + 1\<rparr>) s)
      else (False, s))"

definition task_switch_release :: "sched \<Rightarrow> bool \<times> sched" where
  "task_switch_release s =
     (if \<not> sc_ready s \<or> sc_in_handler s then (False, s)
      else if sc_current s \<noteq> IDLE \<and> tk_switch_holds (current_task s) \<noteq> 0
      then (True, on_task (sc_current s) (\<lambda>t. t\<lparr>tk_switch_holds := tk_switch_holds t - 1\<rparr>) s)
      else (False, s))"

text \<open>The switch runs with interrupts off; the resumed task enables them again.\<close>

definition schedule_restore :: "sched \<Rightarrow> sched" where
  "schedule_restore s = (schedule (s\<lparr>sc_if := False\<rparr>))\<lparr>sc_if := True\<rparr>"

definition task_yield :: "sched \<Rightarrow> bool \<times> sched" where
  "task_yield s =
     (if \<not> sc_ready s \<or> sc_in_handler s then (False, s)
      else if \<not> sc_if s \<or> sc_current s = IDLE \<or> switch_protected s then (False, s)
      else (True, schedule_restore (on_task (sc_current s) (\<lambda>t. t\<lparr>tk_state := TASK_RUNNABLE\<rparr>) s)))"

definition timer_deadline_reached :: "u32 \<Rightarrow> u32 \<Rightarrow> bool" where
  "timer_deadline_reached now deadline \<longleftrightarrow> now - deadline < TIMER_HALF_RANGE"

definition expire :: "u32 \<Rightarrow> task \<Rightarrow> task" where
  "expire now t =
     (if tk_state t = TASK_BLOCKED \<and> tk_deadline_active t \<and> timer_deadline_reached now (tk_deadline t)
      then wake_task TASK_WAIT_TIMEOUT t else t)"

definition consume_slice :: "task \<Rightarrow> task" where
  "consume_slice t =
     (if tk_slice_ticks t = 0 then t
      else let t1 = t\<lparr>tk_slice_ticks := tk_slice_ticks t - 1\<rparr> in
        if tk_slice_ticks t1 = 0 then t1\<lparr>tk_reschedule := True\<rparr> else t1)"

definition task_timer_tick :: "u32 \<Rightarrow> sched \<Rightarrow> sched" where
  "task_timer_tick now s =
     (if \<not> sc_ready s then s
      else on_task (sc_current s) consume_slice (s\<lparr>sc_tasks := map (expire now) (sc_tasks s)\<rparr>))"

definition task_event_signal :: "nat \<Rightarrow> sched \<Rightarrow> sched" where
  "task_event_signal event s =
     (let s1 = s\<lparr>sc_sequence := (sc_sequence s)(event := sc_sequence s event + 1)\<rparr> in
      if sc_ready s
      then s1\<lparr>sc_tasks := map (\<lambda>t. if tk_state t = TASK_BLOCKED \<and> tk_waiting t = Some event
                                   then wake_task TASK_WAIT_EVENT t else t) (sc_tasks s)\<rparr>
      else s1)"

definition task_work_event :: nat where "task_work_event = 0"

definition timer_interrupt :: "sched \<Rightarrow> sched" where
  "timer_interrupt s =
     (let s1 = s\<lparr>sc_ticks := sc_ticks s + 1\<rparr> in task_event_signal task_work_event (task_timer_tick (sc_ticks s1) s1))"

definition timer_duration_ticks :: "nat \<Rightarrow> u32 option" where
  "timer_duration_ticks milliseconds =
     (if milliseconds > RUM_SLEEP_MAX_MS then None
      else
        (let duration = (if milliseconds \<noteq> 0 then (milliseconds * TIMER_HZ + 999) div 1000 + 1 else 0) in
         if duration \<ge> unat TIMER_HALF_RANGE then None else Some (word_of_nat duration)))"

text \<open>A wait up to the switch: the reason when it returns at once, \<open>None\<close> when the task blocked.\<close>

definition wait_common :: "nat option \<Rightarrow> u32 \<Rightarrow> bool \<Rightarrow> u32 \<Rightarrow> sched \<Rightarrow> task_wait_result option \<times> sched" where
  "wait_common event observed timed duration s =
     (if \<not> sc_ready s \<or> (event = None \<and> \<not> timed) \<or> sc_in_handler s then (Some TASK_WAIT_INVALID, s)
      else if \<not> sc_if s \<or> sc_current s = IDLE \<or> switch_protected s \<or> (timed \<and> duration \<ge> TIMER_HALF_RANGE)
      then (Some TASK_WAIT_INVALID, s)
      else if task_current_cancelled s then (Some TASK_WAIT_CANCELLED, s)
      else if (case event of Some e \<Rightarrow> sc_sequence s e \<noteq> observed | None \<Rightarrow> False) then (Some TASK_WAIT_EVENT, s)
      else if timed \<and> duration = 0 then (Some TASK_WAIT_TIMEOUT, s)
      else (None, schedule_restore (on_task (sc_current s) (\<lambda>t. t\<lparr>tk_waiting := event, tk_deadline_active := timed,
              tk_deadline := (if timed then sc_ticks s + duration else 0), tk_state := TASK_BLOCKED\<rparr>) s)))"

text \<open>What the waiting task does when it runs again.\<close>

definition wait_resume :: "sched \<Rightarrow> task_wait_result \<times> sched" where
  "wait_resume s =
     (let t = current_task s in
      if tk_waiting t \<noteq> None \<or> tk_deadline_active t \<or> tk_deadline t \<noteq> 0 then (TASK_WAIT_INVALID, sched_halt s)
      else (if task_current_cancelled s then TASK_WAIT_CANCELLED else tk_wake_reason t, s))"

text \<open>The way back to user code, entered with interrupts off. A cancelled process leaves through
  \<open>terminate_current\<close> instead: the result is then \<open>None\<close>. The argument is the address of the frame when
  the entry came from user code; the copy of the frame, which only queries read, is left out.\<close>

definition task_on_user_return :: "nat option \<Rightarrow> sched \<Rightarrow> sched option" where
  "task_on_user_return frame s =
     (if \<not> sc_ready s \<or> frame = None then Some s
      else if sc_if s \<or> sc_in_handler s \<or> tk_kind (current_task s) \<noteq> TASK_PROCESS \<or> switch_protected s \<or>
              frame \<noteq> Some (tk_stack_top (current_task s) - SIZEOF_USER_FRAME) then Some (sched_halt s)
      else if task_current_cancelled s then None
      else if tk_reschedule (current_task s) then Some (schedule s) else Some s)"

end
