(* ===== verification/Rum_Task_Props.thy ===== *)
theory Rum_Task_Props
  imports Rum_Task
begin

text \<open>
  Fairness of the scheduler and the timing of sleeps. The steps of the scheduler are an inductive
  relation: any interleaving of its operations, ticks and signals. A runnable task is reached by the
  circular search before any other task runs twice, which bounds the switches it waits for.
\<close>

section \<open>Steps\<close>

inductive sched_step :: "sched \<Rightarrow> sched \<Rightarrow> bool" where
  step_hold: "\<not> stopped s \<Longrightarrow> sched_step s (snd (task_switch_hold s))"
| step_release: "\<not> stopped s \<Longrightarrow> sched_step s (snd (task_switch_release s))"
| step_yield: "\<not> stopped s \<Longrightarrow> sched_step s (snd (task_yield s))"
| step_tick: "\<not> stopped s \<Longrightarrow> sched_step s (timer_interrupt s)"
| step_signal: "\<not> stopped s \<Longrightarrow> sched_step s (task_event_signal event s)"
| step_wait: "\<not> stopped s \<Longrightarrow> sched_step s (snd (wait_common event observed timed duration s))"
| step_resume: "\<not> stopped s \<Longrightarrow> sched_step s (snd (wait_resume s))"
| step_user: "\<not> stopped s \<Longrightarrow> task_on_user_return frame (s\<lparr>sc_if := False\<rparr>) = Some t \<Longrightarrow> sched_step s (t\<lparr>sc_if := True\<rparr>)"

fun sched_path :: "sched list \<Rightarrow> bool" where
  "sched_path (s # t # r) \<longleftrightarrow> sched_step s t \<and> sched_path (t # r)"
| "sched_path _ \<longleftrightarrow> True"

text \<open>The switches along a path.\<close>

fun path_switches :: "sched list \<Rightarrow> nat" where
  "path_switches (s # t # r) = (if sc_current t = sc_current s then 0 else 1) + path_switches (t # r)"
| "path_switches _ = 0"

section \<open>The circular search\<close>

definition sched_ok :: "sched \<Rightarrow> bool" where
  "sched_ok s \<longleftrightarrow> length (sc_tasks s) = TASK_SLOTS \<and> sc_current s < TASK_SLOTS"

definition task_waits :: "nat \<Rightarrow> sched \<Rightarrow> bool" where
  "task_waits j s \<longleftrightarrow> sched_ok s \<and> j < TASK_SLOTS \<and> j \<noteq> IDLE \<and> j \<noteq> sc_current s \<and>
     tk_state (sc_tasks s ! j) = TASK_RUNNABLE"

text \<open>How far the search has to go from the task that runs.\<close>

definition gap :: "nat \<Rightarrow> nat \<Rightarrow> nat" where "gap c j = (j + TASK_SLOTS - c) mod TASK_SLOTS"

lemma TASK_SLOTS_pos [simp]: "0 < TASK_SLOTS" "TASK_SLOTS \<noteq> 0"
  by (simp_all add: TASK_SLOTS_def)

lemma gap_cases:
  assumes "c < TASK_SLOTS" and "j < TASK_SLOTS"
  shows "gap c j = (if c \<le> j then j - c else j + TASK_SLOTS - c)"
proof (cases "c \<le> j")
  case True
  then have "gap c j = ((j - c) + TASK_SLOTS) mod TASK_SLOTS" by (simp add: gap_def)
  then show ?thesis using True assms by (simp only: mod_add_self2) simp
qed (use assms in \<open>simp add: gap_def\<close>)

lemma wrap_cases: "a < 2 * TASK_SLOTS \<Longrightarrow> a mod TASK_SLOTS = (if a < TASK_SLOTS then a else a - TASK_SLOTS)"
  by (simp add: le_mod_geq)

lemma gap_bounds:
  assumes "c < TASK_SLOTS" and "j < TASK_SLOTS" and "j \<noteq> c"
  shows "0 < gap c j" and "gap c j < TASK_SLOTS" and "(c + gap c j) mod TASK_SLOTS = j"
  using assms by (auto simp: gap_cases)

lemma gap_advance:
  assumes "c < TASK_SLOTS" and "j < TASK_SLOTS" and "j \<noteq> c" and "d < gap c j"
  shows "gap ((c + d) mod TASK_SLOTS) j = gap c j - d"
proof -
  have d: "c + d < 2 * TASK_SLOTS" using assms gap_bounds(2) [OF assms(1-3)] by simp
  have "gap ((c + d) mod TASK_SLOTS) j = (if (c + d) mod TASK_SLOTS \<le> j then j - (c + d) mod TASK_SLOTS
      else j + TASK_SLOTS - (c + d) mod TASK_SLOTS)"
    by (rule gap_cases) (use assms in auto)
  then show ?thesis using assms unfolding wrap_cases [OF d] by (auto simp: gap_cases split: if_splits)
qed

lemma pick_next_near:
  assumes "sc_current s < TASK_SLOTS" and "j < TASK_SLOTS" and "j \<noteq> sc_current s" and "candidate s j"
  obtains d where "0 < d" and "d \<le> gap (sc_current s) j" and "pick_next s = (sc_current s + d) mod TASK_SLOTS"
    and "candidate s (pick_next s)"
proof -
  let ?f = "\<lambda>offset. (sc_current s + offset) mod TASK_SLOTS"
  note g = gap_bounds [OF assms(1-3)]
  define xs where "xs = map ?f [1..<TASK_SLOTS + 1]"
  have len: "length xs = TASK_SLOTS" by (simp add: xs_def Suc_leI)
  have nth: "xs ! k = ?f (k + 1)" if "k < TASK_SLOTS" for k
    using that unfolding xs_def by (subst nth_map) (simp_all del: upt_Suc)
  have found: "candidate s (xs ! (gap (sc_current s) j - 1))"
    using g assms(4) by (subst nth) auto
  then have "find (candidate s) xs \<noteq> None"
    using g(1,2) len nth_mem [of "gap (sc_current s) j - 1" xs] unfolding find_None_iff by fastforce
  then obtain i where i: "find (candidate s) xs = Some i" by auto
  then obtain k where k: "k < TASK_SLOTS" "candidate s i" "i = xs ! k" "\<forall>l<k. \<not> candidate s (xs ! l)"
    unfolding find_Some_iff len by auto
  have p: "pick_next s = i" unfolding pick_next_def xs_def [symmetric] i by simp
  have "k \<le> gap (sc_current s) j - 1" using found k(4) by (metis not_le)
  then show ?thesis using that [of "k + 1"] g(1) k nth [OF k(1)] by (simp add: p)
qed

section \<open>Steps keep a waiting task waiting\<close>

lemma on_task_simps [simp]:
  "sc_current (on_task i f s) = sc_current s" "sc_machine (on_task i f s) = sc_machine s"
  "length (sc_tasks (on_task i f s)) = length (sc_tasks s)"
  "i \<noteq> j \<Longrightarrow> sc_tasks (on_task i f s) ! j = sc_tasks s ! j"
  "i < length (sc_tasks s) \<Longrightarrow> sc_tasks (on_task i f s) ! i = f (sc_tasks s ! i)"
  by (simp_all add: on_task_def)

lemma dispatch_other:
  "j \<noteq> nx \<Longrightarrow> j \<noteq> sc_current s \<Longrightarrow> sc_tasks (dispatch nx s) ! j = sc_tasks s ! j"
  "sc_current (dispatch nx s) = sc_current s" "length (sc_tasks (dispatch nx s)) = length (sc_tasks s)"
  by (simp_all add: dispatch_def)

lemma switch_to_result:
  "stopped (switch_to nx s) \<or> (sc_current (switch_to nx s) = nx \<and> sc_tasks (switch_to nx s) = sc_tasks s)"
  by (auto simp: switch_to_def Let_def sched_halt_def cpu_halt_def gdt_set_kernel_context_def split: prod.splits)

definition fair_to :: "nat \<Rightarrow> sched \<Rightarrow> sched \<Rightarrow> bool" where
  "fair_to j s t \<longleftrightarrow> stopped t \<or> sc_current t = j \<or>
     (task_waits j t \<and> (sc_current t \<noteq> sc_current s \<longrightarrow> gap (sc_current t) j < gap (sc_current s) j))"

lemma fair_to_same:
  "task_waits j s \<Longrightarrow> sc_current t = sc_current s \<Longrightarrow> length (sc_tasks t) = length (sc_tasks s) \<Longrightarrow>
     tk_state (sc_tasks t ! j) = TASK_RUNNABLE \<Longrightarrow> fair_to j s t"
  by (auto simp: fair_to_def task_waits_def sched_ok_def)

lemma schedule_fair:
  assumes w: "task_waits j s"
  shows "fair_to j s (schedule s)"
proof (cases "stopped (schedule s)")
  case False
  define s1 where "s1 = (if tk_state (current_task s) = TASK_RUNNING
      then on_task (sc_current s) (\<lambda>t. t\<lparr>tk_state := TASK_RUNNABLE\<rparr>) s else s)"
  define nx where "nx = pick_next s1"
  have s1: "sc_current s1 = sc_current s" "length (sc_tasks s1) = TASK_SLOTS" "sc_tasks s1 ! j = sc_tasks s ! j"
    using w by (auto simp: s1_def task_waits_def sched_ok_def)
  have facts: "sc_current s < TASK_SLOTS" "j < TASK_SLOTS" "j \<noteq> sc_current s" "candidate s1 j"
    using w s1 by (auto simp: task_waits_def sched_ok_def candidate_def)
  obtain d where d: "0 < d" "d \<le> gap (sc_current s) j" "nx = (sc_current s + d) mod TASK_SLOTS"
    using pick_next_near [of s1 j] facts s1(1) unfolding nx_def by metis
  have move: "nx \<noteq> sc_current s"
  proof (cases "d = gap (sc_current s) j")
    case True
    then show ?thesis using gap_bounds(3) [OF facts(1-3)] d(3) facts(3) by simp
  next
    case neq: False
    then have "gap nx j = gap (sc_current s) j - d" using gap_advance [OF facts(1-3)] d by simp
    then show ?thesis using d(1,2) neq by auto
  qed
  have t: "schedule s = switch_to nx (dispatch nx s1)"
    using False move by (auto simp: schedule_def Let_def sched_halt_def cpu_halt_def nx_def s1_def split: if_splits)
  then have cur: "sc_current (schedule s) = nx" "sc_tasks (schedule s) = sc_tasks (dispatch nx s1)"
    using switch_to_result [of nx "dispatch nx s1"] False by auto
  show ?thesis
  proof (cases "nx = j")
    case True
    then show ?thesis by (simp add: fair_to_def cur)
  next
    case neq: False
    then have "d \<noteq> gap (sc_current s) j" using gap_bounds(3) [OF facts(1-3)] d(3) by auto
    then have "gap nx j < gap (sc_current s) j" using gap_advance [OF facts(1-3), of d] d by simp
    moreover have "task_waits j (schedule s)"
      using w neq d(3) s1 facts(3) by (simp add: task_waits_def sched_ok_def cur dispatch_other)
    ultimately show ?thesis by (simp add: fair_to_def cur)
  qed
qed (simp add: fair_to_def)

lemma schedule_restore_fair:
  assumes "task_waits j s"
  shows "fair_to j s (schedule_restore (on_task (sc_current s) f s))"
proof -
  let ?u = "(on_task (sc_current s) f s)\<lparr>sc_if := False\<rparr>"
  have "task_waits j ?u" using assms by (auto simp: task_waits_def sched_ok_def)
  from schedule_fair [OF this] show ?thesis
    by (simp add: fair_to_def schedule_restore_def task_waits_def sched_ok_def)
qed

lemma expire_runnable: "tk_state t = TASK_RUNNABLE \<Longrightarrow> expire now t = t"
  by (simp add: expire_def)

lemma consume_slice_state [simp]: "tk_state (consume_slice t) = tk_state t"
  by (simp add: consume_slice_def Let_def)

lemma task_event_signal_fair: "task_waits j s \<Longrightarrow> fair_to j s (task_event_signal e s)"
  by (rule fair_to_same) (auto simp: task_event_signal_def Let_def task_waits_def sched_ok_def)

lemma timer_interrupt_fair:
  assumes "task_waits j s"
  shows "fair_to j s (timer_interrupt s)"
  by (rule fair_to_same [OF assms])
    (use assms in \<open>auto simp: timer_interrupt_def task_timer_tick_def task_event_signal_def Let_def task_waits_def
       sched_ok_def on_task_def expire_runnable\<close>)

lemma sched_step_fair: "sched_step s t \<Longrightarrow> task_waits j s \<Longrightarrow> fair_to j s t"
proof (induction rule: sched_step.induct)
  case (step_hold s)
  then show ?case by (auto simp: task_switch_hold_def task_waits_def intro!: fair_to_same)
next
  case (step_release s)
  then show ?case by (auto simp: task_switch_release_def task_waits_def intro!: fair_to_same)
next
  case (step_yield s)
  then show ?case by (auto simp: task_yield_def task_waits_def intro!: fair_to_same schedule_restore_fair)
next
  case (step_wait s event observed timed duration)
  then show ?case by (auto simp: wait_common_def task_waits_def intro!: fair_to_same schedule_restore_fair)
next
  case (step_resume s)
  then show ?case by (auto simp: wait_resume_def Let_def sched_halt_def task_waits_def intro!: fair_to_same)
next
  case (step_user s frame t)
  have "task_waits j (s\<lparr>sc_if := False\<rparr>)" using step_user.prems by (simp add: task_waits_def sched_ok_def)
  from schedule_fair [OF this] show ?case using step_user
    by (auto simp: task_on_user_return_def sched_halt_def cpu_halt_def fair_to_def task_waits_def sched_ok_def split: if_splits)
qed (auto intro: timer_interrupt_fair task_event_signal_fair)

text \<open>Steps start only while the machine runs.\<close>

lemma sched_step_running: "sched_step s t \<Longrightarrow> \<not> stopped s"
  by (induction rule: sched_step.induct) auto

lemma sched_path_fair:
  "sched_path (s # r) \<Longrightarrow> task_waits j s \<Longrightarrow> \<not> stopped (last (s # r)) \<Longrightarrow> \<forall>t\<in>set r. sc_current t \<noteq> j \<Longrightarrow>
     path_switches (s # r) < gap (sc_current s) j"
proof (induction r arbitrary: s)
  case Nil
  then show ?case using gap_bounds(1) by (auto simp: task_waits_def sched_ok_def)
next
  case (Cons t r)
  have step: "sched_step s t" and rest: "sched_path (t # r)" using Cons.prems(1) by auto
  have "\<not> stopped t"
    using rest Cons.prems(3) by (cases r) (auto dest: sched_step_running)
  then have f: "task_waits j t" "sc_current t \<noteq> sc_current s \<longrightarrow> gap (sc_current t) j < gap (sc_current s) j"
    using sched_step_fair [OF step Cons.prems(2)] Cons.prems(4) by (auto simp: fair_to_def)
  have "path_switches (t # r) < gap (sc_current t) j"
    using Cons.IH [OF rest f(1)] Cons.prems(3,4) by simp
  then show ?case using f(2) by (cases "sc_current t = sc_current s") auto
qed

lemma fair_path_result:
  assumes "sched_path (s # r)" and w: "task_waits j s" and "\<not> stopped (last (s # r))"
    and n: "gap (sc_current s) j \<le> path_switches (s # r)"
  shows "gap (sc_current s) j < TASK_SLOTS \<and> (\<exists>t\<in>set r. sc_current t = j)"
proof
  show "gap (sc_current s) j < TASK_SLOTS" using w gap_bounds(2) by (auto simp: task_waits_def sched_ok_def)
  show "\<exists>t\<in>set r. sc_current t = j" using sched_path_fair [OF assms(1-3)] n by fastforce
qed

section \<open>Sleeping\<close>

text \<open>Across a wrap of the clock, a deadline less than half the range away is reached exactly on time.\<close>

lemma deadline_reached_iff:
  assumes "d < TIMER_HALF_RANGE" and "k \<le> unat d"
  shows "timer_deadline_reached (a + word_of_nat k) (a + d) \<longleftrightarrow> k = unat d"
proof -
  have d: "unat d < 2 ^ 31" using assms(1) by (simp add: word_less_nat_alt TIMER_HALF_RANGE_def)
  have k: "unat (word_of_nat k :: u32) = k" using assms(2) d by (simp add: unat_of_nat)
  have "a + word_of_nat k - (a + d) = word_of_nat k - d" by simp
  then have "timer_deadline_reached (a + word_of_nat k) (a + d) \<longleftrightarrow> unat (word_of_nat k - d) < 2 ^ 31"
    by (simp add: timer_deadline_reached_def word_less_nat_alt TIMER_HALF_RANGE_def)
  also have "\<dots> \<longleftrightarrow> k = unat d"
    using assms(2) d k by (auto simp: unat_sub_if_size word_size split: if_splits)
  finally show ?thesis .
qed

definition sleeping :: "nat \<Rightarrow> u32 \<Rightarrow> sched \<Rightarrow> bool" where
  "sleeping i deadline s \<longleftrightarrow> sc_ready s \<and> length (sc_tasks s) = TASK_SLOTS \<and>
     (let t = sc_tasks s ! i in tk_state t = TASK_BLOCKED \<and> tk_waiting t = None \<and> tk_deadline_active t \<and>
        tk_deadline t = deadline)"

lemma consume_slice_fields [simp]:
  "tk_waiting (consume_slice t) = tk_waiting t" "tk_deadline_active (consume_slice t) = tk_deadline_active t"
  "tk_deadline (consume_slice t) = tk_deadline t" "tk_wake_reason (consume_slice t) = tk_wake_reason t"
  by (simp_all add: consume_slice_def Let_def)

lemma timer_interrupt_task:
  assumes "sleeping i deadline s" and "i < TASK_SLOTS"
  shows "sc_ticks (timer_interrupt s) = sc_ticks s + 1"
    and "\<not> timer_deadline_reached (sc_ticks s + 1) deadline \<Longrightarrow> sleeping i deadline (timer_interrupt s)"
    and "timer_deadline_reached (sc_ticks s + 1) deadline \<Longrightarrow>
      tk_state (sc_tasks (timer_interrupt s) ! i) = TASK_RUNNABLE \<and>
      tk_wake_reason (sc_tasks (timer_interrupt s) ! i) = TASK_WAIT_TIMEOUT \<and>
      \<not> tk_deadline_active (sc_tasks (timer_interrupt s) ! i)"
proof -
  define x where "x = expire (sc_ticks s + 1) (sc_tasks s ! i)"
  define y where "y = (if sc_current s = i then consume_slice x else x)"
  have ready0: "sc_ready s" "length (sc_tasks s) = TASK_SLOTS" and blocked: "tk_waiting (sc_tasks s ! i) = None"
    "tk_state (sc_tasks s ! i) = TASK_BLOCKED" "tk_deadline_active (sc_tasks s ! i)" "tk_deadline (sc_tasks s ! i) = deadline"
    using assms(1) by (simp_all add: sleeping_def Let_def)
  show "sc_ticks (timer_interrupt s) = sc_ticks s + 1"
    by (simp add: timer_interrupt_def task_event_signal_def task_timer_tick_def on_task_def Let_def)
  have "tk_waiting y = None" by (simp add: y_def x_def expire_def wake_task_def clear_wait_def blocked)
  moreover have "sc_tasks (task_timer_tick (sc_ticks s + 1) (s\<lparr>sc_ticks := sc_ticks s + 1\<rparr>)) ! i = y"
    using ready0 assms(2) by (simp add: task_timer_tick_def on_task_def y_def x_def nth_list_update)
  moreover have "length (sc_tasks (timer_interrupt s)) = TASK_SLOTS" "sc_ready (timer_interrupt s)"
    using ready0 by (simp_all add: timer_interrupt_def task_event_signal_def task_timer_tick_def on_task_def Let_def)
  ultimately have y: "sc_tasks (timer_interrupt s) ! i = y" "length (sc_tasks (timer_interrupt s)) = TASK_SLOTS"
      "sc_ready (timer_interrupt s)"
    using ready0 assms(2) by (auto simp: timer_interrupt_def task_event_signal_def task_timer_tick_def on_task_def Let_def)
  show "sleeping i deadline (timer_interrupt s)" if "\<not> timer_deadline_reached (sc_ticks s + 1) deadline"
    using that blocked y by (simp add: sleeping_def y_def x_def expire_def)
  show "tk_state (sc_tasks (timer_interrupt s) ! i) = TASK_RUNNABLE \<and>
      tk_wake_reason (sc_tasks (timer_interrupt s) ! i) = TASK_WAIT_TIMEOUT \<and>
      \<not> tk_deadline_active (sc_tasks (timer_interrupt s) ! i)" if "timer_deadline_reached (sc_ticks s + 1) deadline"
    using that blocked by (simp add: y(1) y_def x_def expire_def wake_task_def clear_wait_def)
qed

lemma timer_interrupts_sleep:
  assumes "sleeping i (a + d) s" and "i < TASK_SLOTS" and "sc_ticks s = a" and "d < TIMER_HALF_RANGE"
  shows "k < unat d \<Longrightarrow> sleeping i (a + d) ((timer_interrupt ^^ k) s) \<and> sc_ticks ((timer_interrupt ^^ k) s) = a + word_of_nat k"
proof (induction k)
  case (Suc k)
  then have ih: "sleeping i (a + d) ((timer_interrupt ^^ k) s)" "sc_ticks ((timer_interrupt ^^ k) s) = a + word_of_nat k" by auto
  have now: "sc_ticks ((timer_interrupt ^^ k) s) + 1 = a + word_of_nat (Suc k)" by (simp add: ih(2) add.assoc add.commute)
  have "\<not> timer_deadline_reached (a + word_of_nat (Suc k)) (a + d)"
    by (subst deadline_reached_iff [OF assms(4)]) (use Suc.prems in auto)
  from timer_interrupt_task(1,2) [OF ih(1) assms(2)] this show ?case unfolding now by (simp del: of_nat_Suc)
qed (use assms in auto)

lemma timer_interrupts_wake:
  assumes "sleeping i (a + d) s" and "i < TASK_SLOTS" and "sc_ticks s = a" and "d < TIMER_HALF_RANGE" and "d \<noteq> 0"
  shows "tk_state (sc_tasks ((timer_interrupt ^^ unat d) s) ! i) = TASK_RUNNABLE \<and>
    tk_wake_reason (sc_tasks ((timer_interrupt ^^ unat d) s) ! i) = TASK_WAIT_TIMEOUT \<and>
    \<not> tk_deadline_active (sc_tasks ((timer_interrupt ^^ unat d) s) ! i)"
proof -
  obtain k where k: "unat d = Suc k" using assms(5) by (metis not0_implies_Suc unat_eq_zero)
  have before: "sleeping i (a + d) ((timer_interrupt ^^ k) s)" "sc_ticks ((timer_interrupt ^^ k) s) = a + word_of_nat k"
    using timer_interrupts_sleep [OF assms(1-4), of k] k by auto
  have now: "sc_ticks ((timer_interrupt ^^ k) s) + 1 = a + word_of_nat (Suc k)" by (simp add: before(2) add.assoc add.commute)
  have "timer_deadline_reached (sc_ticks ((timer_interrupt ^^ k) s) + 1) (a + d)"
    unfolding now by (subst deadline_reached_iff [OF assms(4)]) (simp_all add: k)
  from timer_interrupt_task(3) [OF before(1) assms(2) this] show ?thesis by (simp add: k)
qed

lemma timer_duration_covers:
  assumes "timer_duration_ticks ms = Some d" and "ms \<noteq> 0"
  shows "d < TIMER_HALF_RANGE" and "d \<noteq> 0" and "ms * TIMER_HZ \<le> (unat d - 1) * 1000"
proof -
  define n0 where "n0 = (ms * TIMER_HZ + 999) div 1000 + 1"
  have d: "n0 < 2 ^ 31" "d = word_of_nat n0"
    using assms unfolding timer_duration_ticks_def n0_def [symmetric] Let_def
    by (auto simp: TIMER_HALF_RANGE_def split: if_splits)
  then have n: "unat d = n0" by (simp add: unat_of_nat)
  show "d < TIMER_HALF_RANGE" using d(1) n by (simp add: word_less_nat_alt TIMER_HALF_RANGE_def)
  show "d \<noteq> 0" using n by (auto simp: n0_def)
  show "ms * TIMER_HZ \<le> (unat d - 1) * 1000" unfolding n n0_def by simp
qed

end
