(* ===== verification/Rum_Task_Claims.thy ===== *)
theory Rum_Task_Claims
  imports Rum_Task_Props
begin

text \<open>
  The properties of the scheduler: bounded waiting of runnable tasks, and sleeps that end on time.
\<close>

section \<open>A blocked task after the switch\<close>

lemma pick_next_candidate: "pick_next s = IDLE \<or> candidate s (pick_next s)"
  by (auto simp: pick_next_def find_Some_iff split: option.splits)

lemma switch_to_keeps:
  "\<not> stopped (switch_to nx s) \<Longrightarrow> sc_tasks (switch_to nx s) = sc_tasks s \<and> sc_ticks (switch_to nx s) = sc_ticks s \<and>
     sc_ready (switch_to nx s) = sc_ready s"
  by (auto simp: switch_to_def Let_def sched_halt_def cpu_halt_def gdt_set_kernel_context_def split: prod.splits if_splits)

lemma dispatch_keeps [simp]: "sc_ticks (dispatch nx s) = sc_ticks s" "sc_ready (dispatch nx s) = sc_ready s"
  by (simp_all add: dispatch_def on_task_def)

lemma schedule_blocked:
  assumes ok: "sched_ok s" and b: "tk_state (current_task s) = TASK_BLOCKED" and i: "sc_current s \<noteq> IDLE"
    and run: "\<not> stopped (schedule s)"
  shows "sc_tasks (schedule s) ! sc_current s = (current_task s)\<lparr>tk_reschedule := False\<rparr> \<and>
    length (sc_tasks (schedule s)) = TASK_SLOTS \<and> sc_ticks (schedule s) = sc_ticks s \<and> sc_ready (schedule s)"
proof -
  have nx: "pick_next s \<noteq> sc_current s" using pick_next_candidate [of s] b i by (auto simp: candidate_def)
  have t: "schedule s = switch_to (pick_next s) (dispatch (pick_next s) s)" and "sc_ready s"
    using run b nx by (auto simp: schedule_def Let_def sched_halt_def cpu_halt_def split: if_splits)
  moreover have "sc_tasks (dispatch (pick_next s) s) ! sc_current s = (current_task s)\<lparr>tk_reschedule := False\<rparr>"
    using nx ok by (simp add: dispatch_def sched_ok_def)
  ultimately show ?thesis using switch_to_keeps run ok by (simp add: dispatch_other sched_ok_def)
qed

lemma wait_common_sleeping:
  assumes ok: "sched_ok s" and w: "wait_common None 0 True d s = (None, t)" and run: "\<not> stopped t"
  shows "sleeping (sc_current s) (sc_ticks s + d) t \<and> sc_ticks t = sc_ticks s"
proof -
  define u where "u = (on_task (sc_current s) (\<lambda>t. t\<lparr>tk_waiting := None, tk_deadline_active := True,
      tk_deadline := sc_ticks s + d, tk_state := TASK_BLOCKED\<rparr>) s)\<lparr>sc_if := False\<rparr>"
  have t: "t = (schedule u)\<lparr>sc_if := True\<rparr>" and i: "sc_current s \<noteq> IDLE"
    using w by (auto simp: wait_common_def schedule_restore_def u_def split: if_splits)
  have u: "sched_ok u" "sc_current u = sc_current s" "sc_ticks u = sc_ticks s"
      "current_task u = (current_task s)\<lparr>tk_waiting := None, tk_deadline_active := True, tk_deadline := sc_ticks s + d, tk_state := TASK_BLOCKED\<rparr>"
    using ok by (simp_all add: u_def sched_ok_def) (simp add: on_task_def)
  have "\<not> stopped (schedule u)" using run by (simp add: t)
  from schedule_blocked [OF u(1) _ _ this] show ?thesis using u i by (simp add: t sleeping_def Let_def)
qed

lemma sleep_result:
  assumes ok: "sched_ok s" and ms: "timer_duration_ticks ms = Some d" "ms \<noteq> 0"
    and w: "wait_common None 0 True d s = (None, t)" and run: "\<not> stopped t"
  shows "ms * TIMER_HZ \<le> (unat d - 1) * 1000 \<and>
    (\<forall>k < unat d. tk_state (sc_tasks ((timer_interrupt ^^ k) t) ! sc_current s) = TASK_BLOCKED) \<and>
    tk_state (sc_tasks ((timer_interrupt ^^ unat d) t) ! sc_current s) = TASK_RUNNABLE \<and>
    tk_wake_reason (sc_tasks ((timer_interrupt ^^ unat d) t) ! sc_current s) = TASK_WAIT_TIMEOUT"
proof -
  note d = timer_duration_covers [OF ms]
  have sl: "sleeping (sc_current s) (sc_ticks s + d) t" "sc_ticks t = sc_ticks s"
    using wait_common_sleeping [OF ok w run] by auto
  have i: "sc_current s < TASK_SLOTS" using ok by (simp add: sched_ok_def)
  note args = sl(1) i sl(2) d(1)
  show ?thesis using d(3) timer_interrupts_sleep [OF args] timer_interrupts_wake [OF args d(2)]
    by (auto simp: sleeping_def Let_def)
qed

section \<open>A machine with three tasks\<close>

definition sample_machine :: machine where
  "sample_machine = \<lparr>phys = (\<lambda>_. 0), pm = \<lparr>managed = [], allocated = [], statistics = zero_statistics, next_page = 0, ready = False\<rparr>,
     kernel_space = \<lparr>directory_physical = PAGE_SIZE, user_pages = 0, user_tables = 0, private_tables = []\<rparr>,
     spaces = [], active_space = Space_Kernel, enabled = True, private_spaces = 0, cr0 = 0, cr3 = PAGE_SIZE, cr4 = 0,
     halted = False\<rparr>"

definition sample_task :: "task_state \<Rightarrow> task" where
  "sample_task st = \<lparr>tk_state = st, tk_stack_top = 16, tk_switch_holds = 0, tk_slice_ticks = 5, tk_reschedule = False,
     tk_waiting = None, tk_deadline = 0, tk_deadline_active = False, tk_wake_reason = TASK_WAIT_EVENT, tk_kind = TASK_KERNEL,
     tk_space = Space_Kernel, tk_cancellation_requested = False\<rparr>"

definition sample_sched :: sched where
  "sample_sched = \<lparr>sc_tasks = sample_task TASK_RUNNING # sample_task TASK_RUNNABLE # sample_task TASK_RUNNABLE #
       sample_task TASK_RUNNABLE # replicate 14 (sample_task TASK_UNUSED),
     sc_current = 0, sc_ready = True, sc_if = True, sc_in_handler = False, sc_fs_active = False, sc_block_active = False,
     sc_sequence = (\<lambda>_. 0), sc_ticks = 0, sc_switches = 0, sc_gdt_ready = True, sc_esp0 = 16, sc_tss_cr3 = PAGE_SIZE,
     sc_machine = sample_machine\<rparr>"

definition sample_next :: sched where "sample_next = snd (task_yield sample_sched)"
definition sample_again :: sched where "sample_again = snd (task_yield sample_next)"
definition sample_asleep :: sched where "sample_asleep = snd (wait_common None 0 True 2 sample_sched)"

lemma update_near [simp]:
  "(a # b # c # r)[2 := x] = a # b # x # r" "(a # b # c # d # r)[3 := x] = a # b # c # x # r"
  by (simp_all add: numeral_2_eq_2 numeral_3_eq_3)

lemma pick_next_from_0:
  "sc_current s = 0 \<Longrightarrow> candidate s 2 \<Longrightarrow> pick_next s = 2"
  unfolding pick_next_def TASK_SLOTS_def RUM_PROCESS_LIMIT_def
  by (simp add: candidate_def IDLE_def upt_conv_Cons numeral_2_eq_2)

lemma pick_next_from_2:
  "sc_current s = 2 \<Longrightarrow> candidate s 3 \<Longrightarrow> pick_next s = 3"
  unfolding pick_next_def TASK_SLOTS_def RUM_PROCESS_LIMIT_def
  by (simp add: upt_conv_Cons)

lemma switch_to_sample:
  assumes "sc_machine s = sample_machine" and "sc_gdt_ready s" and "tk_space (sc_tasks s ! nx) = Space_Kernel"
    and "tk_stack_top (sc_tasks s ! nx) = 16"
  shows "switch_to nx s = s\<lparr>sc_current := nx, sc_switches := sc_switches s + 1, sc_esp0 := 16, sc_tss_cr3 := PAGE_SIZE\<rparr>"
  using assms
  by (cases s) (simp add: switch_to_def gdt_set_kernel_context_def paging_switch_space_def paging_directory_address_def known_space_def
    space_of_def reload_directory_def sample_machine_def PAGE_SIZE_def)

lemmas sample_eval =
  sample_sched_def sample_task_def task_yield_def wait_common_def schedule_restore_def schedule_def switch_protected_def Let_def
  pick_next_from_0 pick_next_from_2 switch_to_sample candidate_def dispatch_def on_task_def IDLE_def task_current_cancelled_def

lemma sample_next_eq:
  "sample_next = sample_sched\<lparr>sc_tasks := sample_task TASK_RUNNABLE # sample_task TASK_RUNNABLE # sample_task TASK_RUNNING #
      sample_task TASK_RUNNABLE # replicate 14 (sample_task TASK_UNUSED), sc_current := 2, sc_switches := 1\<rparr>"
  unfolding sample_next_def
  by (simp add: sample_eval)
    (simp add: sample_machine_def TASK_TIME_SLICE_TICKS_def)

lemma sample_again_eq: "sc_current sample_again = 3 \<and> \<not> stopped sample_again"
  unfolding sample_again_def sample_next_eq
  by (simp add: sample_eval) (simp add: sample_machine_def)

lemma sample_asleep_eq: "wait_common None 0 True 2 sample_sched = (None, sample_asleep)" "\<not> stopped sample_asleep"
  unfolding sample_asleep_def
  by (simp_all add: sample_eval TIMER_HALF_RANGE_def) (simp add: sample_machine_def)

section \<open>The claims\<close>

text \<open>C6: Scheduling is fair under every interleaving of yields, waits, wake-ups, ticks, switch holds and
  preemptions: a runnable task other than idle runs after at most as many context switches as its slot
  is ahead of the running one in the circle, which is less than the number of slots. So no run of the
  scheduler passes a runnable task over for ever.\<close>

theorem schedule_reaches_runnable:
  assumes "sched_path (s # r)" and "task_waits j s" and "\<not> stopped (last (s # r))"
    and "gap (sc_current s) j \<le> path_switches (s # r)"
  shows "gap (sc_current s) j < TASK_SLOTS \<and> (\<exists>t\<in>set r. sc_current t = j)"
  using assms by (rule fair_path_result)

theorem schedule_reaches_runnable_witness:
  "\<exists>t\<in>set [sample_next, sample_again]. sc_current t = 2"
proof -
  have run: "\<not> stopped sample_sched" "\<not> stopped sample_next"
    by (simp add: sample_sched_def sample_machine_def) (simp add: sample_next_eq sample_sched_def sample_machine_def)
  have path: "sched_path [sample_sched, sample_next, sample_again]"
    using step_yield [OF run(1)] step_yield [OF run(2)] by (simp add: sample_next_def sample_again_def)
  have waits: "task_waits 2 sample_sched"
    by (simp add: task_waits_def sched_ok_def sample_sched_def sample_task_def TASK_SLOTS_def RUM_PROCESS_LIMIT_def IDLE_def)
  have cur: "sc_current sample_sched = 0" "sc_current sample_next = 2"
    by (simp_all add: sample_next_eq) (simp add: sample_sched_def)
  have switches: "gap (sc_current sample_sched) 2 \<le> path_switches [sample_sched, sample_next, sample_again]"
    using cur sample_again_eq by (simp add: gap_def TASK_SLOTS_def RUM_PROCESS_LIMIT_def)
  from schedule_reaches_runnable [OF path waits _ switches] sample_again_eq show ?thesis by simp
qed

text \<open>C40: A sleep ends on time. A task that sleeps for a positive number of milliseconds stays blocked
  through every earlier timer interrupt and becomes runnable, with the time-out as its reason, at exactly
  the tick its duration names, also when the 32-bit clock wraps meanwhile; and one tick less than that
  duration already covers the requested time.\<close>

theorem task_sleep_on_time:
  assumes "sched_ok s" and "timer_duration_ticks ms = Some d" and "ms \<noteq> 0"
    and "wait_common None 0 True d s = (None, t)" and "\<not> stopped t"
  shows "ms * TIMER_HZ \<le> (unat d - 1) * 1000 \<and>
    (\<forall>k < unat d. tk_state (sc_tasks ((timer_interrupt ^^ k) t) ! sc_current s) = TASK_BLOCKED) \<and>
    tk_state (sc_tasks ((timer_interrupt ^^ unat d) t) ! sc_current s) = TASK_RUNNABLE \<and>
    tk_wake_reason (sc_tasks ((timer_interrupt ^^ unat d) t) ! sc_current s) = TASK_WAIT_TIMEOUT"
  using assms by (rule sleep_result)

theorem task_sleep_on_time_witness:
  "tk_state (sc_tasks ((timer_interrupt ^^ 1) sample_asleep) ! 0) = TASK_BLOCKED \<and>
   tk_state (sc_tasks ((timer_interrupt ^^ 2) sample_asleep) ! 0) = TASK_RUNNABLE"
proof -
  have ok: "sched_ok sample_sched" by (simp add: sched_ok_def sample_sched_def TASK_SLOTS_def RUM_PROCESS_LIMIT_def)
  have ms: "timer_duration_ticks 10 = Some 2"
    by (simp add: timer_duration_ticks_def TIMER_HZ_def TIMER_HALF_RANGE_def)
  have cur: "sc_current sample_sched = 0" by (simp add: sample_sched_def)
  have two: "unat (2 :: u32) = 2" by simp
  have nat: "(10 :: nat) \<noteq> 0" "(1 :: nat) < 2" by simp_all
  from task_sleep_on_time [OF ok ms nat(1) sample_asleep_eq, unfolded cur two] nat(2) show ?thesis by blast
qed

end
