(* ===== verification/Rum_Handles.thy ===== *)
theory Rum_Handles
  imports Rum_Fs
begin

text \<open>
  The handle tables of processes, \<open>kernel/process/handles.c\<close>, over the filesystem layer. A table is
  the list of its 32 slots, a null table or handle is \<open>None\<close>. Results are the signed numbers of the
  system-call interface: a count or slot, or the negated error. The processor state that
  \<open>process_filesystem_context\<close> reads is an argument; the output pointers of a seek are never null.
\<close>

section \<open>Results and tables\<close>


definition RUM_ABI_HANDLE_LIMIT :: nat where "RUM_ABI_HANDLE_LIMIT = 32"
definition RUM_OPEN_DIRECTORY :: u32 where "RUM_OPEN_DIRECTORY = 1"

datatype process_handle_kind = HANDLE_UNUSED | HANDLE_INPUT | HANDLE_OUTPUT | HANDLE_FILE | HANDLE_DIRECTORY

record process_handle =
  hd_reference :: u64
  hd_offset :: nat
  hd_access :: u32
  hd_kind :: process_handle_kind
  hd_pending_error :: int

type_synonym process_handles = "process_handle list"

definition zero_handle :: process_handle where
  "zero_handle = \<lparr>hd_reference = 0, hd_offset = 0, hd_access = 0, hd_kind = HANDLE_UNUSED, hd_pending_error = 0\<rparr>"

record processor =
  cpu_in_handler :: bool
  cpu_if :: bool

definition process_filesystem_context :: "processor \<Rightarrow> bool" where
  "process_filesystem_context cpu \<longleftrightarrow> \<not> cpu_in_handler cpu \<and> cpu_if cpu"

definition process_handles_initialize :: process_handles where
  "process_handles_initialize =
     (let output = zero_handle\<lparr>hd_kind := HANDLE_OUTPUT, hd_access := FS_WRITE\<rparr> in
      zero_handle\<lparr>hd_kind := HANDLE_INPUT, hd_access := FS_READ\<rparr> # output # output #
      replicate (RUM_ABI_HANDLE_LIMIT - 3) zero_handle)"

definition process_handles_count :: "process_handles option \<Rightarrow> nat" where
  "process_handles_count table =
     (case table of None \<Rightarrow> 0 | Some slots \<Rightarrow> length (filter (\<lambda>h. hd_kind h \<noteq> HANDLE_UNUSED) slots))"

definition process_handle_get :: "process_handles option \<Rightarrow> nat \<Rightarrow> process_handle option" where
  "process_handle_get table handle =
     (case table of
        None \<Rightarrow> None
      | Some slots \<Rightarrow>
          if handle < RUM_ABI_HANDLE_LIMIT \<and> hd_kind (slots ! handle) \<noteq> HANDLE_UNUSED then Some (slots ! handle) else None)"

section \<open>Opening and closing\<close>

definition free_handle :: "process_handles \<Rightarrow> nat option" where
  "free_handle slots = find (\<lambda>i. hd_kind (slots ! i) = HANDLE_UNUSED) [3..<RUM_ABI_HANDLE_LIMIT]"

text \<open>The part after the slot is found: open, inspect, and store or give back.\<close>

definition open_into ::
  "nat \<Rightarrow> process_handles \<Rightarrow> fs_context option \<Rightarrow> string option \<Rightarrow> u32 \<Rightarrow> u32 \<Rightarrow> 'b fs \<Rightarrow> (int \<times> process_handles) \<times> 'b fs" where
  "open_into slot slots ctx path acc flags s =
     (let ((error, r), s1) = fs_open ctx path acc (Some 0) s in
      if error \<noteq> FS_OK then ((process_fs_error error, slots), s1)
      else
        (let token0 = the r; ((error2, info), s2) = fs_stat token0 (Some zero_information) s1;
             kind = info_kind (the info);
             error3 = (if error2 = FS_OK \<and> flags AND RUM_OPEN_DIRECTORY \<noteq> 0 \<and> kind \<noteq> FS_DIRECTORY
                       then FS_NOT_DIRECTORY else error2)
         in if error3 \<noteq> FS_OK then (let (_, s3) = fs_close token0 s2 in ((process_fs_error error3, slots), s3))
            else ((int slot, slots[slot := zero_handle\<lparr>hd_reference := token0, hd_access := acc,
                     hd_kind := (if kind = FS_DIRECTORY then HANDLE_DIRECTORY else HANDLE_FILE)\<rparr>]), s2)))"

definition process_handle_open ::
  "processor \<Rightarrow> process_handles option \<Rightarrow> fs_context option \<Rightarrow> string option \<Rightarrow> u32 \<Rightarrow> u32 \<Rightarrow> 'b fs \<Rightarrow>
     (int \<times> process_handles option) \<times> 'b fs" where
  "process_handle_open cpu table ctx path acc flags s =
     (case table of
        None \<Rightarrow> ((- RUM_EINVAL, None), s)
      | Some slots \<Rightarrow>
          if path = None \<or> acc = 0 \<or> acc AND NOT (FS_READ OR FS_WRITE) \<noteq> 0 \<or> flags AND NOT RUM_OPEN_DIRECTORY \<noteq> 0 \<or>
             (flags AND RUM_OPEN_DIRECTORY \<noteq> 0 \<and> acc \<noteq> FS_READ) then ((- RUM_EINVAL, table), s)
          else
            (case free_handle slots of
               None \<Rightarrow> ((- RUM_EMFILE, table), s)
             | Some slot \<Rightarrow>
                 if \<not> process_filesystem_context cpu then ((- RUM_EBUSY, table), s)
                 else (let ((r, slots1), s1) = open_into slot slots ctx path acc flags s in ((r, Some slots1), s1))))"

definition process_handle_close ::
  "processor \<Rightarrow> process_handles option \<Rightarrow> nat \<Rightarrow> 'b fs \<Rightarrow> (int \<times> process_handles option) \<times> 'b fs" where
  "process_handle_close cpu table i s =
     (case (table, process_handle_get table i) of
        (Some slots, Some handle) \<Rightarrow>
          if \<not> process_filesystem_context cpu then ((- RUM_EBUSY, table), s)
          else
            (let (error, s1) = (if hd_reference handle \<noteq> 0 then fs_close (hd_reference handle) s else (FS_OK, s)) in
             if error \<noteq> FS_OK then ((process_fs_error error, table), s1)
             else ((0, Some (slots[i := zero_handle])), s1))
      | _ \<Rightarrow> ((- RUM_EBADF, table), s))"

fun destroy_loop :: "processor \<Rightarrow> nat list \<Rightarrow> process_handles option \<Rightarrow> 'b fs \<Rightarrow> (int \<times> process_handles option) \<times> 'b fs" where
  "destroy_loop cpu [] table s = ((0, table), s)"
| "destroy_loop cpu (i # is) table s =
     (if process_handle_get table i = None then destroy_loop cpu is table s
      else
        (let ((error, table1), s1) = process_handle_close cpu table i s in
         if error \<noteq> 0 then ((error, table1), s1) else destroy_loop cpu is table1 s1))"

definition process_handles_destroy :: "processor \<Rightarrow> process_handles option \<Rightarrow> 'b fs \<Rightarrow> (int \<times> process_handles option) \<times> 'b fs" where
  "process_handles_destroy cpu table s =
     (if table = None then ((- RUM_EINVAL, None), s) else destroy_loop cpu [0..<RUM_ABI_HANDLE_LIMIT] table s)"

section \<open>Position and transfer\<close>

text \<open>\<open>RUM_SEEK_SET\<close>, \<open>RUM_SEEK_CUR\<close> and \<open>RUM_SEEK_END\<close> are 0, 1 and 2. The displacement is 64 bits wide.\<close>

definition seek_target :: "nat \<Rightarrow> u64 \<Rightarrow> nat option" where
  "seek_target base displacement =
     (let negative = (drop_bit 63 displacement \<noteq> 0);
          magnitude = unat (if negative then NOT displacement + 1 else displacement)
      in if (if negative then magnitude > base else magnitude > UINT64_MAX - base) then None
         else Some (if negative then base - magnitude else base + magnitude))"

definition process_handle_seek ::
  "processor \<Rightarrow> process_handle option \<Rightarrow> u64 \<Rightarrow> nat \<Rightarrow> 'b fs \<Rightarrow> (int \<times> process_handle option \<times> nat option) \<times> 'b fs" where
  "process_handle_seek cpu handle displacement whence s =
     (case handle of
        None \<Rightarrow> ((- RUM_EBADF, handle, None), s)
      | Some h \<Rightarrow>
          if whence > 2 then ((- RUM_EINVAL, handle, None), s)
          else if hd_kind h = HANDLE_INPUT \<or> hd_kind h = HANDLE_OUTPUT then ((- RUM_EINVAL, handle, None), s)
          else if hd_kind h = HANDLE_DIRECTORY \<and> (whence \<noteq> 0 \<or> displacement \<noteq> 0) then ((- RUM_EINVAL, handle, None), s)
          else if \<not> process_filesystem_context cpu then ((- RUM_EBUSY, handle, None), s)
          else
            (let ((error, info), s1) =
                   (if whence = 2 then fs_stat (hd_reference h) (Some zero_information) s else ((FS_OK, None), s));
                 base = (if whence = 1 then hd_offset h else if whence = 2 then info_size (the info) else 0)
             in if error \<noteq> FS_OK then ((process_fs_error error, handle, None), s1)
                else (case seek_target base displacement of
                        None \<Rightarrow> ((- RUM_EOVERFLOW, handle, None), s1)
                      | Some p \<Rightarrow> ((0, Some (h\<lparr>hd_offset := p\<rparr>), Some p), s1))))"

text \<open>A committed prefix wins over the error, which is kept for the next transfer.\<close>

definition settle_transfer :: "fs_io_result \<Rightarrow> process_handle \<Rightarrow> int \<times> process_handle" where
  "settle_transfer result h =
     (let h1 = h\<lparr>hd_offset := hd_offset h + transferred result\<rparr>; error = process_fs_error (io_error result);
          h2 = (if transferred result \<noteq> 0 \<and> error \<noteq> 0 then h1\<lparr>hd_pending_error := error\<rparr> else h1)
      in (if transferred result \<noteq> 0 then int (transferred result) else error, h2))"

definition handle_transfer ::
  "processor \<Rightarrow> bool \<Rightarrow> process_handle option \<Rightarrow> u8 list option \<Rightarrow> nat \<Rightarrow> 'b fs \<Rightarrow>
     (int \<times> process_handle option \<times> u8 list option) \<times> 'b fs" where
  "handle_transfer cpu write handle buffer bytes s =
     (case handle of
        None \<Rightarrow> ((- RUM_EBADF, handle, buffer), s)
      | Some h \<Rightarrow>
          if hd_access h AND (if write then FS_WRITE else FS_READ) = 0 then ((- RUM_EBADF, handle, buffer), s)
          else if hd_kind h = HANDLE_DIRECTORY then ((- RUM_EISDIR, handle, buffer), s)
          else if hd_kind h \<noteq> HANDLE_FILE \<or> (bytes \<noteq> 0 \<and> buffer = None) then ((- RUM_EINVAL, handle, buffer), s)
          else if bytes > 2147483647 \<or> bytes > UINT64_MAX - hd_offset h then ((- RUM_EOVERFLOW, handle, buffer), s)
          else if bytes = 0 then ((0, handle, buffer), s)
          else if \<not> process_filesystem_context cpu then ((- RUM_EBUSY, handle, buffer), s)
          else if hd_pending_error h \<noteq> 0 then ((hd_pending_error h, Some (h\<lparr>hd_pending_error := 0\<rparr>), buffer), s)
          else
            (let ((result, buffer1), s1) =
                   (if write then (let (r, s1) = fs_write (hd_reference h) (hd_offset h) buffer bytes s in ((r, buffer), s1))
                    else fs_read (hd_reference h) (hd_offset h) buffer bytes s);
                 (r, h1) = settle_transfer result h
             in ((r, Some h1, buffer1), s1)))"

definition process_handle_read where "process_handle_read cpu handle buffer bytes s = handle_transfer cpu False handle buffer bytes s"
definition process_handle_write where "process_handle_write cpu handle buffer bytes s = handle_transfer cpu True handle buffer bytes s"

definition process_handle_readdir ::
  "processor \<Rightarrow> process_handle option \<Rightarrow> fs_entry option \<Rightarrow> 'b fs \<Rightarrow> (int \<times> process_handle option \<times> fs_entry option) \<times> 'b fs" where
  "process_handle_readdir cpu handle entry s =
     (case handle of
        None \<Rightarrow> ((- RUM_EBADF, handle, entry), s)
      | Some h \<Rightarrow>
          if hd_access h AND FS_READ = 0 then ((- RUM_EBADF, handle, entry), s)
          else if hd_kind h \<noteq> HANDLE_DIRECTORY then ((- RUM_ENOTDIR, handle, entry), s)
          else if \<not> process_filesystem_context cpu then ((- RUM_EBUSY, handle, entry), s)
          else
            (let ((error, cursor, entry1), s1) = fs_readdir (hd_reference h) (Some (hd_offset h)) entry s in
             ((if error = FS_OK then 1 else process_fs_error error, Some (h\<lparr>hd_offset := the cursor\<rparr>), entry1), s1)))"

definition process_handle_flush :: "processor \<Rightarrow> process_handle option \<Rightarrow> 'b fs \<Rightarrow> int \<times> 'b fs" where
  "process_handle_flush cpu handle s =
     (case handle of
        None \<Rightarrow> (- RUM_EBADF, s)
      | Some h \<Rightarrow>
          if hd_reference h = 0 then (- RUM_EBADF, s)
          else if \<not> process_filesystem_context cpu then (- RUM_EBUSY, s)
          else (let (error, s1) = fs_flush (hd_reference h) s in (process_fs_error error, s1)))"

end
