(* ===== verification/Rum_Handles_Props.thy ===== *)
theory Rum_Handles_Props
  imports Rum_Handles Rum_Fs_Props
begin

text \<open>
  Ownership of filesystem references by a handle table: the references in the slots are open, distinct
  and were not open before the process started, and every call keeps the rest of the open references
  as it was. Destroying the table therefore gives back exactly what the process opened.
\<close>

section \<open>The ownership invariant\<close>

definition owns :: "(u64 \<Rightarrow> open_ref option) \<Rightarrow> process_handles \<Rightarrow> 'b fs \<Rightarrow> bool" where
  "owns R slots s \<longleftrightarrow> fs_inv s \<and> ready s \<and> \<not> busy s \<and> length slots = RUM_ABI_HANDLE_LIMIT \<and>
     (\<forall>i < length slots. hd_reference (slots ! i) \<noteq> 0 \<longrightarrow>
        hd_kind (slots ! i) \<noteq> HANDLE_UNUSED \<and> open_refs s (hd_reference (slots ! i)) \<noteq> None \<and> R (hd_reference (slots ! i)) = None) \<and>
     (\<forall>i < length slots. \<forall>j < length slots. i \<noteq> j \<longrightarrow> hd_reference (slots ! i) \<noteq> 0 \<longrightarrow>
        hd_reference (slots ! i) \<noteq> hd_reference (slots ! j)) \<and>
     (\<forall>t. (\<forall>i < length slots. hd_reference (slots ! i) \<noteq> t \<or> t = 0) \<longrightarrow> open_refs s t = R t)"

lemma ownsI:
  assumes "fs_inv s" and "ready s" and "\<not> busy s" and "length slots = RUM_ABI_HANDLE_LIMIT"
    and "\<And>i. i < length slots \<Longrightarrow> hd_reference (slots ! i) \<noteq> 0 \<Longrightarrow>
      hd_kind (slots ! i) \<noteq> HANDLE_UNUSED \<and> open_refs s (hd_reference (slots ! i)) \<noteq> None \<and> R (hd_reference (slots ! i)) = None"
    and "\<And>i j. i < length slots \<Longrightarrow> j < length slots \<Longrightarrow> i \<noteq> j \<Longrightarrow> hd_reference (slots ! i) \<noteq> 0 \<Longrightarrow>
      hd_reference (slots ! i) \<noteq> hd_reference (slots ! j)"
    and "\<And>t. \<forall>i < length slots. hd_reference (slots ! i) \<noteq> t \<or> t = 0 \<Longrightarrow> open_refs s t = R t"
  shows "owns R slots s"
  using assms unfolding owns_def by blast

lemma ownsD:
  assumes "owns R slots s"
  shows "fs_inv s" "ready s" "\<not> busy s" "length slots = RUM_ABI_HANDLE_LIMIT"
    "\<And>i. i < length slots \<Longrightarrow> hd_reference (slots ! i) \<noteq> 0 \<Longrightarrow>
      hd_kind (slots ! i) \<noteq> HANDLE_UNUSED \<and> open_refs s (hd_reference (slots ! i)) \<noteq> None \<and> R (hd_reference (slots ! i)) = None"
    "\<And>i j. i < length slots \<Longrightarrow> j < length slots \<Longrightarrow> i \<noteq> j \<Longrightarrow> hd_reference (slots ! i) \<noteq> 0 \<Longrightarrow>
      hd_reference (slots ! i) \<noteq> hd_reference (slots ! j)"
    "\<And>t. \<forall>i < length slots. hd_reference (slots ! i) \<noteq> t \<or> t = 0 \<Longrightarrow> open_refs s t = R t"
  using assms unfolding owns_def by blast+

lemma owns_initial:
  assumes "fs_inv s" and "ready s" and "\<not> busy s"
  shows "owns (open_refs s) process_handles_initialize s"
proof -
  have "\<forall>h\<in>set process_handles_initialize. hd_reference h = 0"
    by (auto simp: process_handles_initialize_def zero_handle_def Let_def)
  then have "\<forall>i < length process_handles_initialize. hd_reference (process_handles_initialize ! i) = 0" by simp
  moreover have "length process_handles_initialize = RUM_ABI_HANDLE_LIMIT"
    by (simp add: process_handles_initialize_def Let_def RUM_ABI_HANDLE_LIMIT_def)
  ultimately show ?thesis using assms by (simp add: owns_def)
qed

lemma owns_quiet: "owns R slots s \<Longrightarrow> quiet s s' \<Longrightarrow> owns R slots s'"
  using tables_view [of s' s] by (simp add: owns_def quiet_def)

text \<open>A call through a handle changes neither its reference nor its kind.\<close>

lemma owns_store:
  assumes "owns R slots s" and "i < length slots" and "hd_reference h = hd_reference (slots ! i)" and "hd_kind h = hd_kind (slots ! i)"
  shows "owns R (slots[i := h]) s"
proof -
  have "hd_reference (slots[i := h] ! j) = hd_reference (slots ! j)" "hd_kind (slots[i := h] ! j) = hd_kind (slots ! j)"
    if "j < length slots" for j using assms that by (auto simp: nth_list_update)
  then show ?thesis using assms(1) by (simp add: owns_def)
qed

lemma owns_add:
  assumes o: "owns R slots s" and i: "i < length slots" "hd_kind (slots ! i) = HANDLE_UNUSED"
    and a: "reference_added s l acc t s'" and h: "hd_reference h = t" "hd_kind h \<noteq> HANDLE_UNUSED"
  shows "owns R (slots[i := h]) s'"
proof -
  have t: "t \<noteq> 0" "open_refs s t = None" "\<And>u. u \<noteq> t \<Longrightarrow> open_refs s' u = open_refs s u" "open_refs s' t \<noteq> None"
    using a by (auto simp: reference_added_def)
  have free: "hd_reference (slots ! i) = 0" using ownsD(5) [OF o i(1)] i(2) by blast
  have new: "hd_reference (slots ! j) \<noteq> t" if "j < length slots" for j
    using ownsD(5) [OF o that] t(1,2) by blast
  then have R: "R t = None" using ownsD(7) [OF o, of t] t(2) by simp
  have rest: "open_refs s' u = R u" if "\<forall>j < length slots. hd_reference (slots[i := h] ! j) \<noteq> u \<or> u = 0" for u
  proof -
    have "u \<noteq> t" using that i(1) t(1) h(1) by auto
    moreover have "\<forall>j < length slots. hd_reference (slots ! j) \<noteq> u \<or> u = 0"
      using that free by (metis nth_list_update_neq)
    ultimately show ?thesis using ownsD(7) [OF o, of u] t(3) by simp
  qed
  have state: "fs_inv s'" "ready s'" "\<not> busy s'" using ownsD(2,3) [OF o] a by (simp_all add: reference_added_def)
  show ?thesis
  proof (rule ownsI)
    fix j assume "j < length (slots[i := h])" "hd_reference (slots[i := h] ! j) \<noteq> 0"
    then show "hd_kind (slots[i := h] ! j) \<noteq> HANDLE_UNUSED \<and> open_refs s' (hd_reference (slots[i := h] ! j)) \<noteq> None \<and>
        R (hd_reference (slots[i := h] ! j)) = None"
      using ownsD(5) [OF o, of j] h t R new [of j] i(1) by (cases "j = i") simp_all
  next
    fix j k assume "j < length (slots[i := h])" "k < length (slots[i := h])" "j \<noteq> k" "hd_reference (slots[i := h] ! j) \<noteq> 0"
    then show "hd_reference (slots[i := h] ! j) \<noteq> hd_reference (slots[i := h] ! k)"
      using ownsD(6) [OF o, of j k] h(1) new [of j] new [of k] by (cases "j = i"; cases "k = i") simp_all
  qed (use state rest ownsD(4) [OF o] in simp_all)
qed

lemma owns_clear:
  assumes o: "owns R slots s" and i: "i < length slots" "hd_reference (slots ! i) = t" "t \<noteq> 0"
    and s': "fs_inv s'" "ready s'" "\<not> busy s'" "open_refs s' = (open_refs s)(t := None)"
  shows "owns R (slots[i := zero_handle]) s'"
proof -
  have others: "hd_reference (slots ! j) \<noteq> t" if "j < length slots" "j \<noteq> i" for j
    using ownsD(6) [OF o i(1) that(1)] i(2,3) that(2) by metis
  have R: "R t = None" using ownsD(5) [OF o i(1)] i(2,3) by simp
  have rest: "open_refs s' u = R u" if "\<forall>j < length slots. hd_reference (slots[i := zero_handle] ! j) \<noteq> u \<or> u = 0" for u
  proof (cases "u = t")
    case False
    then have "\<forall>j < length slots. hd_reference (slots ! j) \<noteq> u \<or> u = 0"
      using that i(2) by (metis nth_list_update_neq)
    then show ?thesis using ownsD(7) [OF o, of u] False s'(4) by simp
  qed (use R s'(4) in simp)
  have zero: "hd_reference zero_handle = 0" by (simp add: zero_handle_def)
  show ?thesis
  proof (rule ownsI)
    fix j assume "j < length (slots[i := zero_handle])" "hd_reference (slots[i := zero_handle] ! j) \<noteq> 0"
    then show "hd_kind (slots[i := zero_handle] ! j) \<noteq> HANDLE_UNUSED \<and>
        open_refs s' (hd_reference (slots[i := zero_handle] ! j)) \<noteq> None \<and> R (hd_reference (slots[i := zero_handle] ! j)) = None"
      using ownsD(5) [OF o, of j] others [of j] s'(4) zero by (cases "j = i") simp_all
  next
    fix j k assume "j < length (slots[i := zero_handle])" "k < length (slots[i := zero_handle])" "j \<noteq> k"
      "hd_reference (slots[i := zero_handle] ! j) \<noteq> 0"
    then show "hd_reference (slots[i := zero_handle] ! j) \<noteq> hd_reference (slots[i := zero_handle] ! k)"
      using ownsD(6) [OF o, of j k] zero by (cases "j = i"; cases "k = i") simp_all
  qed (use s' rest ownsD(4) [OF o] in simp_all)
qed

lemma owns_clear_stream:
  assumes "owns R slots s" and "i < length slots" and "hd_reference (slots ! i) = 0"
  shows "owns R (slots[i := zero_handle]) s"
proof -
  have "hd_reference (slots[i := zero_handle] ! j) = hd_reference (slots ! j)" if "j < length slots" for j
    using assms(2,3) that by (auto simp: nth_list_update zero_handle_def)
  moreover have "hd_kind (slots[i := zero_handle] ! j) = hd_kind (slots ! j)" if "j < length slots" "hd_reference (slots ! j) \<noteq> 0" for j
    using assms(3) that by (metis nth_list_update_neq)
  ultimately show ?thesis using assms(1) by (simp add: owns_def)
qed

lemma owns_same:
  assumes o: "owns R slots s" and s': "fs_inv s'" "ready s'" "\<not> busy s'" "open_refs s' = open_refs s"
  shows "owns R slots s'"
  by (rule ownsI) (use ownsD [OF o] s' in simp_all)

lemma reference_added_quiet: "reference_added s l acc t s1 \<Longrightarrow> quiet s1 s2 \<Longrightarrow> reference_added s l acc t s2"
  using tables_view [of s2 s1] by (auto simp: reference_added_def quiet_def)

section \<open>Calls\<close>

lemma open_into_owns:
  assumes o: "owns R slots s" and i: "i < length slots" "hd_kind (slots ! i) = HANDLE_UNUSED"
    and r: "open_into i slots ctx path acc flags s = ((n, slots'), s')"
  shows "owns R slots' s'"
proof -
  obtain e ref s1 where op: "fs_open ctx path acc (Some 0) s = ((e, ref), s1)" by (metis prod.exhaust)
  note opened = fs_open_result [OF ownsD(1) [OF o] op]
  show ?thesis
  proof (cases "e = FS_OK")
    case False
    then show ?thesis using opened r op owns_quiet [OF o] by (auto simp: open_into_def opened_def)
  next
    case True
    then obtain l t where t: "ref = Some t" "reference_added s l acc t s1" using opened by (auto simp: opened_def)
    obtain e2 info s2 where st: "fs_stat t (Some zero_information) s1 = ((e2, info), s2)" by (metis prod.exhaust)
    have added: "reference_added s l acc t s2" using reference_added_quiet [OF t(2) fs_stat_quiet [OF st]] .
    obtain e3 s3 where cl: "fs_close t s2 = (e3, s3)" by (metis prod.exhaust)
    have "fs_inv s2" "ready s2" "\<not> busy s2" "open_refs s2 t \<noteq> None"
      using added ownsD(2,3) [OF o] by (simp_all add: reference_added_def)
    then have s3: "fs_inv s3" "ready s3" "\<not> busy s3" "open_refs s3 = (open_refs s2)(t := None)"
      using fs_close_result [OF _ cl] by simp_all
    have "open_refs s3 = open_refs s" unfolding s3(4) using added by (auto simp: reference_added_def)
    then have restored: "owns R slots s3" by (rule owns_same [OF o s3(1-3)])
    have stored: "owns R (slots[i := h]) s2" if "hd_reference h = t" "hd_kind h \<noteq> HANDLE_UNUSED" for h
      by (rule owns_add [OF o i added that])
    show ?thesis using r True op t(1) st cl restored
        stored [of "zero_handle\<lparr>hd_reference := t, hd_access := acc, hd_kind := HANDLE_DIRECTORY\<rparr>"]
        stored [of "zero_handle\<lparr>hd_reference := t, hd_access := acc, hd_kind := HANDLE_FILE\<rparr>"]
      by (auto simp: open_into_def Let_def split: if_splits)
  qed
qed

lemma free_handle_free: "free_handle slots = Some i \<Longrightarrow> i < RUM_ABI_HANDLE_LIMIT \<and> hd_kind (slots ! i) = HANDLE_UNUSED"
  unfolding free_handle_def find_Some_iff by (auto simp del: upt_Suc)

lemma process_handle_open_owns:
  assumes o: "owns R slots s" and r: "process_handle_open cpu (Some slots) ctx path acc flags s = ((n, table), s')"
  shows "\<exists>slots'. table = Some slots' \<and> owns R slots' s'"
proof (cases "free_handle slots")
  case None
  then show ?thesis using o r by (auto simp: process_handle_open_def split: if_splits)
next
  case (Some i)
  note free = free_handle_free [OF Some]
  obtain m slots1 s1 where into: "open_into i slots ctx path acc flags s = ((m, slots1), s1)" by (metis prod.exhaust)
  have "owns R slots1 s1" using open_into_owns [OF o _ _ into] free ownsD(4) [OF o] by simp
  then show ?thesis using o r Some into by (auto simp: process_handle_open_def split: if_splits)
qed

lemma process_handle_close_owns:
  assumes o: "owns R slots s" and r: "process_handle_close cpu (Some slots) i s = ((n, table), s')"
  shows "\<exists>slots'. table = Some slots' \<and> owns R slots' s'"
    and "process_filesystem_context cpu \<Longrightarrow> process_handle_get (Some slots) i \<noteq> None \<Longrightarrow>
      n = 0 \<and> table = Some (slots[i := zero_handle])"
proof -
  have closed: "\<exists>s1. fs_close t s = (FS_OK, s1) \<and> owns R (slots[i := zero_handle]) s1"
    if "i < length slots" "hd_reference (slots ! i) = t" "t \<noteq> 0" for t
  proof -
    obtain e s1 where cl: "fs_close t s = (e, s1)" by (metis prod.exhaust)
    have "open_refs s t \<noteq> None" using ownsD(5) [OF o that(1)] that by simp
    then have "e = FS_OK" "fs_inv s1" "ready s1" "\<not> busy s1" "open_refs s1 = (open_refs s)(t := None)"
      using fs_close_result [OF ownsD(1) [OF o] cl] ownsD(2,3) [OF o] by simp_all
    then show ?thesis using owns_clear [OF o that] cl by simp
  qed
  have idx: "i < length slots" if "process_handle_get (Some slots) i \<noteq> None"
    using that ownsD(4) [OF o] by (auto simp: process_handle_get_def split: if_splits)
  have got: "process_handle_get (Some slots) i = Some h \<Longrightarrow> h = slots ! i" for h
    by (auto simp: process_handle_get_def split: if_splits)
  have main: "(\<exists>slots'. table = Some slots' \<and> owns R slots' s') \<and>
      (process_filesystem_context cpu \<longrightarrow> process_handle_get (Some slots) i \<noteq> None \<longrightarrow> n = 0 \<and> table = Some (slots[i := zero_handle]))"
  proof (cases "process_handle_get (Some slots) i")
    case None
    then show ?thesis using o r by (auto simp: process_handle_close_def)
  next
    case (Some h)
    then have h: "h = slots ! i" "i < length slots" using got idx by auto
    show ?thesis
    proof (cases "hd_reference h = 0")
      case True
      then show ?thesis using o r Some h owns_clear_stream [OF o h(2)]
        by (auto simp: process_handle_close_def split: if_splits)
    next
      case False
      then obtain s1 where "fs_close (hd_reference h) s = (FS_OK, s1)" "owns R (slots[i := zero_handle]) s1"
        using closed [OF h(2)] h(1) by metis
      then show ?thesis using o r Some False by (auto simp: process_handle_close_def split: if_splits)
    qed
  qed
  then show "\<exists>slots'. table = Some slots' \<and> owns R slots' s'"
    "process_filesystem_context cpu \<Longrightarrow> process_handle_get (Some slots) i \<noteq> None \<Longrightarrow> n = 0 \<and> table = Some (slots[i := zero_handle])"
    by blast+
qed

text \<open>The calls through a handle leave the references alone.\<close>

definition same_handle :: "process_handle option \<Rightarrow> process_handle option \<Rightarrow> bool" where
  "same_handle h h' \<longleftrightarrow> map_option hd_reference h' = map_option hd_reference h \<and> map_option hd_kind h' = map_option hd_kind h"

lemma process_handle_seek_same:
  "process_handle_seek cpu h d w s = ((n, h', p), s') \<Longrightarrow> same_handle h h' \<and> quiet s s'"
  by (auto simp: process_handle_seek_def same_handle_def Let_def dest: fs_stat_quiet split: option.splits if_splits prod.splits)

lemma settle_transfer_same: "settle_transfer r h = (n, h') \<Longrightarrow> hd_reference h' = hd_reference h \<and> hd_kind h' = hd_kind h"
  by (auto simp: settle_transfer_def Let_def split: if_splits)

lemma handle_transfer_same:
  "handle_transfer cpu w h b k s = ((n, h', b'), s') \<Longrightarrow> same_handle h h' \<and> quiet s s'"
  by (auto simp: handle_transfer_def same_handle_def fs_read_def dest!: settle_transfer_same dest: io_quiet fs_write_quiet
    split: option.splits if_splits prod.splits)

lemma process_handle_readdir_same:
  "process_handle_readdir cpu h en s = ((n, h', en'), s') \<Longrightarrow> same_handle h h' \<and> quiet s s'"
  by (auto simp: process_handle_readdir_def same_handle_def dest: fs_readdir_quiet split: option.splits if_splits prod.splits)

lemma process_handle_flush_quiet: "process_handle_flush cpu h s = (n, s') \<Longrightarrow> quiet s s'"
  by (auto simp: process_handle_flush_def dest: fs_flush_quiet split: option.splits if_splits prod.splits)

section \<open>Seeking\<close>

text \<open>The magnitudes compute the sum of the position and the signed displacement, or its overflow.\<close>

lemma drop_bit_sign: "drop_bit 63 (d :: u64) \<noteq> 0 \<longleftrightarrow> bit d 63"
proof
  assume "bit d 63"
  then have "bit (drop_bit 63 d) 0" by (simp add: bit_drop_bit_eq)
  then show "drop_bit 63 d \<noteq> 0" by auto
next
  assume "drop_bit 63 d \<noteq> 0"
  then obtain n where n: "bit (drop_bit 63 d) n" by (auto simp: bit_eq_iff)
  then have "bit d (63 + n)" by (simp add: bit_drop_bit_eq)
  then have "n = 0" using bit_imp_le_length [of d "63 + n"] by simp
  then show "bit d 63" using n by (simp add: bit_drop_bit_eq)
qed

lemma sint_sign: "sint (d :: u64) = uint d - (if bit d 63 then 2 ^ 64 else 0)"
proof -
  have "take_bit 64 (uint d) = uint d"
    using unsigned_less [of d, where ?'a = int] by (intro take_bit_int_eq_self) simp_all
  then show ?thesis by (simp add: sint_uint signed_take_bit_eq_take_bit_minus bit_uint_iff)
qed

lemma unat_negate: "(d :: u64) \<noteq> 0 \<Longrightarrow> unat (NOT d + 1) = 2 ^ 64 - unat d"
  using unat_sub_if_size [of 0 d] by (simp add: not_eq_complement word_size unat_gt_0)

lemma seek_target_signed:
  assumes "base \<le> UINT64_MAX"
  shows "seek_target base d =
    (let p = int base + sint d in if 0 \<le> p \<and> p \<le> int UINT64_MAX then Some (nat p) else None)"
proof (cases "bit d 63")
  case True
  then have "d \<noteq> 0" by auto
  define u where "u = unat d"
  have u: "unat (NOT d + 1) = 2 ^ 64 - u" "u < 2 ^ 64" "sint d = int u - 2 ^ 64"
    using True unsigned_less [of d, where ?'a = nat] unat_negate [OF \<open>d \<noteq> 0\<close>] by (auto simp: sint_sign u_def)
  have "seek_target base d = (if 2 ^ 64 - u > base then None else Some (base - (2 ^ 64 - u)))"
    using True drop_bit_sign [of d] unfolding seek_target_def Let_def by (simp add: u(1))
  then show ?thesis using u(2) assms unfolding u(3) Let_def by auto
next
  case False
  define u where "u = unat d"
  have u: "sint d = int u" using False by (simp add: sint_sign u_def)
  have "seek_target base d = (if u > UINT64_MAX - base then None else Some (base + u))"
    using False drop_bit_sign [of d] unfolding seek_target_def Let_def by (simp add: u_def)
  then show ?thesis using assms unfolding u Let_def by auto
qed

section \<open>Runs of a process\<close>

datatype handle_call =
    Call_Open processor "fs_context option" "string option" u32 u32
  | Call_Close processor nat
  | Call_Seek processor nat u64 nat
  | Call_Transfer processor bool nat "u8 list option" nat
  | Call_Readdir processor nat "fs_entry option"
  | Call_Flush processor nat

text \<open>A call works on the slot its handle names, in place.\<close>

definition put_handle :: "nat \<Rightarrow> process_handle option \<Rightarrow> process_handles \<Rightarrow> process_handles" where
  "put_handle i r slots = (case r of None \<Rightarrow> slots | Some h \<Rightarrow> slots[i := h])"

fun run_call :: "handle_call \<Rightarrow> process_handles \<times> 'b fs \<Rightarrow> process_handles \<times> 'b fs" where
  "run_call (Call_Open cpu ctx path acc flags) (slots, s) =
     (let ((_, table), s1) = process_handle_open cpu (Some slots) ctx path acc flags s in (the table, s1))"
| "run_call (Call_Close cpu i) (slots, s) = (let ((_, table), s1) = process_handle_close cpu (Some slots) i s in (the table, s1))"
| "run_call (Call_Seek cpu i d w) (slots, s) =
     (let ((_, h, _), s1) = process_handle_seek cpu (process_handle_get (Some slots) i) d w s in (put_handle i h slots, s1))"
| "run_call (Call_Transfer cpu write i b n) (slots, s) =
     (let ((_, h, _), s1) = handle_transfer cpu write (process_handle_get (Some slots) i) b n s in (put_handle i h slots, s1))"
| "run_call (Call_Readdir cpu i en) (slots, s) =
     (let ((_, h, _), s1) = process_handle_readdir cpu (process_handle_get (Some slots) i) en s in (put_handle i h slots, s1))"
| "run_call (Call_Flush cpu i) (slots, s) = (let (_, s1) = process_handle_flush cpu (process_handle_get (Some slots) i) s in (slots, s1))"

lemma put_handle_owns:
  assumes o: "owns R slots s" and h: "same_handle (process_handle_get (Some slots) i) h" and q: "quiet s s'"
  shows "owns R (put_handle i h slots) s'"
proof (cases h)
  case (Some x)
  then have "i < length slots" "hd_reference x = hd_reference (slots ! i)" "hd_kind x = hd_kind (slots ! i)"
    using h ownsD(4) [OF o] by (auto simp: same_handle_def process_handle_get_def split: if_splits)
  then show ?thesis using owns_store [OF owns_quiet [OF o q]] Some by (simp add: put_handle_def)
qed (use owns_quiet [OF o q] in \<open>simp add: put_handle_def\<close>)

lemma run_call_owns: "owns R slots s \<Longrightarrow> run_call c (slots, s) = (slots', s') \<Longrightarrow> owns R slots' s'"
  by (cases c)
    (auto dest: process_handle_open_owns process_handle_close_owns(1) process_handle_seek_same handle_transfer_same
       process_handle_readdir_same process_handle_flush_quiet intro: put_handle_owns owns_quiet split: prod.splits)

lemma run_calls_owns: "owns R slots s \<Longrightarrow> fold run_call cs (slots, s) = (slots', s') \<Longrightarrow> owns R slots' s'"
proof (induction cs arbitrary: slots s)
  case (Cons c cs)
  obtain slots1 s1 where c: "run_call c (slots, s) = (slots1, s1)" by (metis prod.exhaust)
  then show ?case using Cons.IH [OF run_call_owns [OF Cons.prems(1) c]] Cons.prems(2) by simp
qed simp

section \<open>Destruction\<close>

lemma zero_handle_unused [simp]: "hd_kind zero_handle = HANDLE_UNUSED"
  by (simp add: zero_handle_def)

lemma destroy_loop_result:
  assumes "owns R slots s" and cpu: "process_filesystem_context cpu" and "set is \<subseteq> {..<RUM_ABI_HANDLE_LIMIT}"
  shows "\<exists>slots' s'. destroy_loop cpu is (Some slots) s = ((0, Some slots'), s') \<and> owns R slots' s' \<and>
    (\<forall>i < RUM_ABI_HANDLE_LIMIT. i \<in> set is \<or> hd_kind (slots ! i) = HANDLE_UNUSED \<longrightarrow> hd_kind (slots' ! i) = HANDLE_UNUSED)"
  using assms(1,3)
proof (induction "is" arbitrary: slots s)
  case (Cons i "is")
  note o = Cons.prems(1)
  have i: "i < length slots" using Cons.prems(2) ownsD(4) [OF o] by simp
  show ?case
  proof (cases "process_handle_get (Some slots) i")
    case None
    then have "hd_kind (slots ! i) = HANDLE_UNUSED"
      using i ownsD(4) [OF o] by (auto simp: process_handle_get_def split: if_splits)
    then show ?thesis using Cons.IH [OF o] Cons.prems(2) None by fastforce
  next
    case (Some h)
    obtain n table s1 where c: "process_handle_close cpu (Some slots) i s = ((n, table), s1)" by (metis prod.exhaust)
    have t: "n = 0" "table = Some (slots[i := zero_handle])" "owns R (slots[i := zero_handle]) s1"
      using process_handle_close_owns [OF o c] cpu Some by auto
    obtain slots' s' where IH: "destroy_loop cpu is (Some (slots[i := zero_handle])) s1 = ((0, Some slots'), s')" "owns R slots' s'"
        "\<forall>j < RUM_ABI_HANDLE_LIMIT. j \<in> set is \<or> hd_kind (slots[i := zero_handle] ! j) = HANDLE_UNUSED \<longrightarrow> hd_kind (slots' ! j) = HANDLE_UNUSED"
      using Cons.IH [OF t(3)] Cons.prems(2) by auto
    have "hd_kind (slots[i := zero_handle] ! j) = HANDLE_UNUSED" if "j = i \<or> hd_kind (slots ! j) = HANDLE_UNUSED" for j
      using that i by (cases "j = i") auto
    then show ?thesis using IH Some c t(1,2) by auto
  qed
qed simp

lemma handles_run_result:
  assumes s: "fs_inv s" "ready s" "\<not> busy s" and run: "fold run_call cs (process_handles_initialize, s) = (slots, s1)"
    and cpu: "process_filesystem_context cpu" and d: "process_handles_destroy cpu (Some slots) s1 = ((n, table), s2)"
  shows "n = 0 \<and> process_handles_count table = 0 \<and> open_refs s2 = open_refs s \<and> fs_inv s2 \<and> \<not> busy s2"
proof -
  have o: "owns (open_refs s) slots s1" by (rule run_calls_owns [OF owns_initial [OF s] run])
  obtain slots' where t: "n = 0" "table = Some slots'" "owns (open_refs s) slots' s2"
      "\<forall>i < RUM_ABI_HANDLE_LIMIT. hd_kind (slots' ! i) = HANDLE_UNUSED"
    using destroy_loop_result [OF o cpu, of "[0..<RUM_ABI_HANDLE_LIMIT]"] d
    by (auto simp: process_handles_destroy_def lessThan_atLeast0)
  then have none: "\<forall>i < length slots'. hd_reference (slots' ! i) = 0" using ownsD(4,5) [OF t(3)] by metis
  then have "open_refs s2 u = open_refs s u" for u using ownsD(7) [OF t(3), of u] by auto
  moreover have "process_handles_count table = 0"
    using t(2,4) ownsD(4) [OF t(3)] by (auto simp: process_handles_count_def filter_empty_conv in_set_conv_nth)
  ultimately show ?thesis using t(1) ownsD(1,3) [OF t(3)] by auto
qed

text \<open>C7: A process never leaks filesystem references. Whatever sequence of opens, closes, seeks, transfers,
  directory reads and flushes it makes through its handles, with whatever results, destroying its table
  when it exits succeeds, leaves every slot unused, and restores exactly the references that were open
  before the process started, so no reference of another owner is ever closed either.\<close>

theorem process_handles_never_leak:
  assumes "fs_inv s" and "ready s" and "\<not> busy s" and "fold run_call cs (process_handles_initialize, s) = (slots, s1)"
    and "process_filesystem_context cpu" and "process_handles_destroy cpu (Some slots) s1 = ((n, table), s2)"
  shows "n = 0 \<and> process_handles_count table = 0 \<and> open_refs s2 = open_refs s \<and> fs_inv s2 \<and> \<not> busy s2"
  using assms by (rule handles_run_result)

definition demo_cpu :: processor where "demo_cpu = \<lparr>cpu_in_handler = False, cpu_if = True\<rparr>"

definition demo_calls :: "handle_call list" where
  "demo_calls = [Call_Open demo_cpu None (Some ''/'') FS_READ 0, Call_Seek demo_cpu 3 0 0, Call_Close demo_cpu 0]"

definition demo_run :: "process_handles \<times> nat list fs" where
  "demo_run = fold run_call demo_calls (process_handles_initialize, demo_fs)"

theorem process_handles_never_leak_witness:
  "fst (fst (process_handles_destroy demo_cpu (Some (fst demo_run)) (snd demo_run))) = 0 \<and>
   open_refs (snd (process_handles_destroy demo_cpu (Some (fst demo_run)) (snd demo_run))) = open_refs demo_fs"
proof -
  have fs: "ready demo_fs" "\<not> busy demo_fs" by (simp_all add: demo_fs_eq fs_start_def)
  have run: "fold run_call demo_calls (process_handles_initialize, demo_fs) = (fst demo_run, snd demo_run)"
    by (simp add: demo_run_def)
  have cpu: "process_filesystem_context demo_cpu" by (simp add: demo_cpu_def process_filesystem_context_def)
  obtain n table s2 where d: "process_handles_destroy demo_cpu (Some (fst demo_run)) (snd demo_run) = ((n, table), s2)"
    by (metis prod.exhaust)
  from process_handles_never_leak [OF demo_fs_inv fs run cpu d] d show ?thesis by simp
qed

end
