(* ===== verification/Spec2Isabelle.thy ===== *)
theory Spec2Isabelle
  imports Rum_Path_Parse Rum_Pmm_Boot Rum_Paging_Props Rum_Heap_Props Rum_Ata Rum_Fs_Props Rum_Fat16_Props
    Rum_Args_Props Rum_Elf_Props Rum_Task_Claims Rum_Handles_Props
begin

text \<open>
  Verification of the \<open>rum\<close> kernel, a 32-bit x86 operating system in C. The development covers the
  path from memory management over storage to processes; the theories follow the dependencies of the
  code, and every definition is a translation of the C function or type of (nearly) the same name.

  \<^bold>\<open>Parts and theories.\<close>

  \<^item> \<open>Rum_Prelude\<close>: machine integers as words, C buffers as lists of fixed length with \<open>memcpy\<close> as
    \<open>blit\<close> (a write past the end would lengthen the list), NUL-terminated strings, byte-addressed
    memory with little-endian access, and the interface \<open>bit_marks\<close> of bitmaps used as sets.
  \<^item> \<open>Rum_Errors\<close>: the error enumerations of the block, filesystem and system-call layers and the
    translations between them (\<open>fs-types.c\<close>, \<open>block.h\<close>, \<open>handles.c\<close>).
  \<^item> \<open>Rum_Path\<close>, \<open>Rum_Path_Parse\<close>: \<open>kernel/fs/path.c\<close>. Tokenising, 8.3 names, canonical paths. The parser
    refines a specification on lists of names, is idempotent on its own output, and reports only
    lexical errors.
  \<^item> \<open>Rum_Layout\<close>, \<open>Rum_Pmm\<close>, \<open>Rum_Pmm_Props\<close>, \<open>Rum_Pmm_Boot\<close>: \<open>memory_layout.h\<close> and \<open>kernel/mm/pmm.c\<close>. The boot
    memory map is read from memory; what is free afterwards is specified exactly. Allocation of pages
    and runs never returns a page twice and finds a page whenever there is one (\<open>bit_table\<close>,
    \<open>frame_allocator\<close> are the interfaces).
  \<^item> \<open>Rum_Paging\<close>, \<open>Rum_Paging_Kernel\<close>, \<open>Rum_Paging_Props\<close>, \<open>Rum_Space\<close>: \<open>arch/i386/paging.c\<close>. Directories and
    tables are words of physical memory. Mapping and unmapping change exactly one translation; copies
    from user memory succeed exactly on accessible ranges. \<open>Rum_Space\<close> adds private address spaces, whose
    object comes from the heap (\<open>table_store\<close> is the interface).
  \<^item> \<open>Rum_Heap\<close>, \<open>Rum_Heap_Inv\<close>, \<open>Rum_Heap_Grow\<close>, \<open>Rum_Heap_Ops\<close>, \<open>Rum_Heap_Props\<close>: \<open>kernel/mm/heap.c\<close>. A doubly linked
    block list over mapped pages. The walks are \<open>partial_function (option)\<close>, where \<open>None\<close> is a walk that
    does not end; it is proved that under the invariant every call returns, that live blocks are
    disjoint and keep their contents, and what each call returns (\<open>block_allocator\<close>).
  \<^item> \<open>Rum_Block\<close>, \<open>Rum_Ata\<close>: \<open>kernel/io/block.c\<close> and \<open>drivers/storage/ata.c\<close>. The I/O ports are a parameter, an
    arbitrary device, so the results hold for any hardware (\<open>block_driver\<close>).
  \<^item> \<open>Rum_Fs\<close>, \<open>Rum_Fs_Inv\<close>, \<open>Rum_Fs_Ops\<close>, \<open>Rum_Fs_Walk\<close>, \<open>Rum_Fs_Props\<close>: \<open>kernel/fs/fs.c\<close> over an arbitrary backend.
    The tables stay consistent through any sequence of calls, tokens are never reused, open objects are
    protected from removal, and a working directory agrees with the reference it holds.
  \<^item> \<open>Rum_Fat16\<close>, \<open>Rum_Fat16_Write\<close>, \<open>Rum_Fat16_Ops\<close>, \<open>Rum_Fat16_Chain\<close>, \<open>Rum_Fat16_Name\<close>, \<open>Rum_Fat16_Safe\<close>,
    \<open>Rum_Fat16_Props\<close>: \<open>fat16.c\<close> and \<open>fat16-write.c\<close>. Chain checks, allocation and directory entries are exact;
    a mutation that fails after its first write leaves a faulted volume that refuses every other one.
  \<^item> \<open>Rum_Handles\<close>, \<open>Rum_Handles_Props\<close>: \<open>kernel/process/handles.c\<close> over the filesystem layer. No sequence of
    calls leaks a reference.
  \<^item> \<open>Rum_Args\<close>, \<open>Rum_Args_Props\<close>, \<open>Rum_Elf\<close>, \<open>Rum_Elf_Props\<close>: \<open>kernel/process/elf.c\<close> and the argument packets of
    \<open>process.c\<close>. Packets built from a command line are well formed; accepted images give safe plans.
    The construction of the address space is modelled over paging and heap; the theorems are about the
    packet and the plan.
  \<^item> \<open>Rum_Task\<close>, \<open>Rum_Task_Props\<close>, \<open>Rum_Task_Claims\<close>: the scheduling core of \<open>kernel/process/task.c\<close>, the timer of
    \<open>hal/pc/pit.c\<close> and \<open>gdt_set_kernel_context\<close>. Steps are an inductive relation over any interleaving;
    runnable tasks run within a bounded number of switches and sleeps end on time.

  \<^bold>\<open>Conventions.\<close> State is a record that each operation takes and returns. Null pointers are \<open>None\<close>, out
  parameters are part of the result, errors are values. \<open>cpu_halt\<close> sets a flag after which nothing runs.
  Interrupt masking makes the critical sections atomic and is otherwise modelled only where a function
  tests the flag. Unsigned numbers are words, or natural numbers where the code's own guards exclude a
  wrap; where a wrap matters it is written out.

  \<^bold>\<open>Bounds.\<close> Loops with a fixed limit in the source (polling, probing, slots, entries) recurse on that limit,
  so no fuel is chosen by the model. The heap walks are the only loops without such a limit, and they are
  proved to end.

  \<^bold>\<open>Parameters.\<close> The I/O ports of the disk, the backend of the filesystem layer, and for FAT16 the block
  device and the answers of the heap to its requests.

  \<^bold>\<open>Not modelled.\<close> Of \<open>task.c\<close>: task creation, termination, reaping, cancellation and the registry queries, which
  also need \<open>session.c\<close>, saved stacks and assembly; with them the launch path of \<open>process.c\<close> and the system-call
  dispatcher \<open>syscall.c\<close>. The fairness result is therefore about runs in which no task is created or ends,
  and a cancelled process leaves them. The reaping that follows a switch is left out as well. Assembly, descriptor
  tables and interrupt entry need a processor model. The console, serial and keyboard drivers, diagnostics,
  the recovery shell and the game are device output. The boot sequence only calls initialisers. User-space
  libraries and commands are outside the kernel. Cached address translations are not part of the machine.
\<close>

end
